(* ===== verification/Arc_Prelude.thy ===== *)
theory Arc_Prelude
  imports Main "HOL-Library.Word"
begin

text \<open>
  Shared material of the development: the error numbers of the POSIX layer, the
  outcome type of its calls, ordered associative containers (\<^verbatim>\<open>std::map\<close>) as
  strictly sorted association lists, and generic lemmas on lists.
\<close>

named_theorems smap_simps \<open>rewrite rules for ordered association lists\<close>
named_theorems path_simps \<open>rewrite rules for path strings\<close>

section \<open>Error numbers and outcomes\<close>

text \<open>
  A call of the POSIX layer either returns a value, returns -1 with \<^verbatim>\<open>errno\<close> set,
  or aborts the process (\<^verbatim>\<open>LOG_ALWAYS_FATAL\<close>).
\<close>

datatype errno =
    EPERM | ENOENT | EINTR | EIO | EBADF | EAGAIN | ENOMEM | EACCES | EFAULT | EEXIST
  | EXDEV | ENODEV | ENOTDIR | EISDIR | EINVAL | EMFILE | ENOTTY | EFBIG | ENOSPC | ESPIPE
  | EROFS | EPIPE | ERANGE | ENAMETOOLONG | ENOSYS | ENOTEMPTY | EOVERFLOW | ENOTSOCK
  | EDESTADDRREQ | EMSGSIZE | EPROTOTYPE | ENOPROTOOPT | EPROTONOSUPPORT | EOPNOTSUPP
  | EAFNOSUPPORT | EADDRINUSE | EADDRNOTAVAIL | ENETUNREACH | ECONNABORTED | ECONNRESET
  | EISCONN | ENOTCONN | ETIMEDOUT | ECONNREFUSED | EHOSTUNREACH | EALREADY | EINPROGRESS | EDOM

datatype 'a outcome = Ret 'a | Err errno | Fatal

type_synonym u32 = "32 word"
type_synonym byte = "8 word"

section \<open>Ordered maps as sorted association lists\<close>

text \<open>
  \<^verbatim>\<open>std::map::find\<close>, \<open>insert\<close> (which keeps an existing entry and reports
  failure), \<open>erase\<close> by key, and assignment through \<open>operator[]\<close>.
\<close>

type_synonym ('k, 'v) smap = "('k \<times> 'v) list"

abbreviation keys :: "('k, 'v) smap \<Rightarrow> 'k list" where
  "keys m \<equiv> map fst m"

abbreviation smap_ok :: "('k::linorder, 'v) smap \<Rightarrow> bool" where
  "smap_ok m \<equiv> sorted_wrt (<) (keys m)"

fun smap_put :: "'k::linorder \<Rightarrow> 'v \<Rightarrow> ('k, 'v) smap \<Rightarrow> ('k, 'v) smap" where
  "smap_put k v [] = [(k, v)]"
| "smap_put k v ((a, b) # m) =
     (if k < a then (k, v) # (a, b) # m
      else if k = a then (k, v) # m
      else (a, b) # smap_put k v m)"

fun smap_del :: "'k \<Rightarrow> ('k, 'v) smap \<Rightarrow> ('k, 'v) smap" where
  "smap_del k [] = []"
| "smap_del k ((a, b) # m) = (if k = a then m else (a, b) # smap_del k m)"

definition smap_insert :: "'k::linorder \<Rightarrow> 'v \<Rightarrow> ('k, 'v) smap \<Rightarrow> ('k, 'v) smap \<times> bool" where
  "smap_insert k v m =
     (case map_of m k of Some _ \<Rightarrow> (m, False) | None \<Rightarrow> (smap_put k v m, True))"

lemma set_smap_put:
  "fst ` set (smap_put k v m) = insert k (fst ` set m)"
  by (induction k v m rule: smap_put.induct) (auto simp: image_iff)

lemma smap_put_ok [smap_simps, intro]: "smap_ok m \<Longrightarrow> smap_ok (smap_put k v m)"
proof (induction k v m rule: smap_put.induct)
  case (2 k v a b m)
  have m: "smap_ok m" "\<forall>x \<in> fst ` set m. a < x"
    using "2.prems" by auto
  consider "k < a" | "k = a" | "a < k" by fastforce
  then show ?case
  proof cases
    case 1
    with m show ?thesis by (auto dest: bspec intro: order.strict_trans)
  next
    case 2
    with m show ?thesis by simp
  next
    case 3
    with "2.IH" m(1) have "smap_ok (smap_put k v m)" by auto
    moreover have "\<forall>x \<in> fst ` set (smap_put k v m). a < x"
      using m(2) 3 by (simp add: set_smap_put)
    ultimately show ?thesis using 3 by auto
  qed
qed simp

lemma set_smap_del_subset: "set (smap_del k m) \<subseteq> set m"
  by (induction k m rule: smap_del.induct) auto

lemma smap_del_ok [smap_simps, intro]: "smap_ok m \<Longrightarrow> smap_ok (smap_del k m)"
proof (induction m)
  case (Cons x m)
  then show ?case
    using set_smap_del_subset [of k m] by (cases x) auto
qed simp

lemma map_of_smap_put [smap_simps]: "map_of (smap_put k v m) = (map_of m)(k \<mapsto> v)"
  by (induction m) (auto simp: fun_eq_iff)

lemma smap_ok_notin: "smap_ok ((a, b) # m) \<Longrightarrow> map_of m a = None"
  by (auto simp: map_of_eq_None_iff)

lemma smap_ok_less_notin: "smap_ok ((a, b) # m) \<Longrightarrow> k \<le> a \<Longrightarrow> map_of m k = None"
  by (fastforce simp: map_of_eq_None_iff)

lemma map_of_smap_del [smap_simps]:
  "smap_ok m \<Longrightarrow> map_of (smap_del k m) = (map_of m)(k := None)"
proof (induction m)
  case (Cons x m)
  then show ?case
    using smap_ok_notin [of "fst x" "snd x" m] by (cases x) (auto simp: fun_eq_iff)
qed simp

lemma smap_ok_distinct: "smap_ok m \<Longrightarrow> distinct (keys m)"
  by (simp add: strict_sorted_iff)

lemma smap_insert_ok: "smap_ok m \<Longrightarrow> smap_ok (fst (smap_insert k v m))"
  by (auto simp: smap_insert_def split: option.splits)

lemma smap_eqI:
  assumes "smap_ok m" "smap_ok n" "map_of m = map_of n"
  shows "m = n"
proof (rule map_sorted_distinct_set_unique [where f = fst])
  show "inj_on fst (set m \<union> set n)"
  proof (rule inj_onI)
    fix x y assume x: "x \<in> set m \<union> set n" and y: "y \<in> set m \<union> set n" and eq: "fst x = fst y"
    have "map_of m (fst z) = Some (snd z)" if "z \<in> set m \<union> set n" for z
      using that assms smap_ok_distinct [of m] smap_ok_distinct [of n]
      by (cases z) (auto dest: map_of_is_SomeI)
    from this [OF x] this [OF y] eq show "x = y" by (simp add: prod_eq_iff)
  qed
  show "sorted (map fst m)" "distinct (map fst m)" "sorted (map fst n)" "distinct (map fst n)"
    using assms strict_sorted_iff by blast+
  show "set m = set n"
    using assms smap_ok_distinct [of m] smap_ok_distinct [of n]
    by (metis map_of_SomeD map_of_eq_Some_iff prod.collapse subrelI subset_antisym)
qed

end
