(* ===== verification/Path_Util.thy ===== *)
theory Path_Util
  imports Arc_Prelude
begin

text \<open>
  Path strings: \<^verbatim>\<open>src/src/posix_translation/path_util.cc\<close> and \<^verbatim>\<open>path_util.h\<close>.
  The two Chromium base functions the code calls, \<^verbatim>\<open>base::SplitString\<close> and
  \<^verbatim>\<open>JoinString\<close>, are not part of the repository: they are the fields of a record
  that every definition using them takes as an argument, and the locale
  \<open>base_strings\<close> states their documented behaviour.
\<close>

section \<open>The string library the code relies on\<close>

record base_lib =
  SplitString :: "string \<Rightarrow> char \<Rightarrow> string list"
  JoinString :: "string list \<Rightarrow> char \<Rightarrow> string"

text \<open>
  Reference meaning: \<open>split_at\<close> cuts at every delimiter (an empty piece between two
  adjacent delimiters), \<open>trim\<close> strips ASCII white space at both ends, \<open>join_with\<close>
  puts the delimiter between the pieces.
\<close>

fun split_at :: "char \<Rightarrow> string \<Rightarrow> string list" where
  "split_at c [] = [[]]"
| "split_at c (x # xs) =
     (if x = c then [] # split_at c xs
      else (case split_at c xs of [] \<Rightarrow> [[x]] | p # ps \<Rightarrow> (x # p) # ps))"

definition is_white :: "char \<Rightarrow> bool" where
  "is_white c \<longleftrightarrow> of_char c \<in> {9, 10, 11, 12, 13, 32 :: nat}"

definition trim :: "string \<Rightarrow> string" where
  "trim s = rev (dropWhile is_white (rev (dropWhile is_white s)))"

fun join_with :: "char \<Rightarrow> string list \<Rightarrow> string" where
  "join_with c [] = []"
| "join_with c [p] = p"
| "join_with c (p # q # ps) = p @ c # join_with c (q # ps)"

definition no_outer_white :: "string \<Rightarrow> bool" where
  "no_outer_white s \<longleftrightarrow> trim s = s"

text \<open>
  \<open>base::SplitString\<close>: \<open>Every substring is trimmed of any leading or trailing white
  space\<close>; a blank source string gives no piece at all.
\<close>

locale base_strings =
  fixes B :: base_lib
  assumes split_doc: "SplitString B s c =
      (let ps = map trim (split_at c s) in if ps = [[]] then [] else ps)"
    and join_doc: "JoinString B ps c = join_with c ps"

definition chromium_base :: base_lib where
  "chromium_base = \<lparr>
     SplitString = (\<lambda>s c. let ps = map trim (split_at c s) in if ps = [[]] then [] else ps),
     JoinString = (\<lambda>ps c. join_with c ps)\<rparr>"

interpretation chromium: base_strings chromium_base
  by unfold_locales (auto simp: chromium_base_def Let_def)

section \<open>Path operations\<close>

definition kCurrentDirectory :: string where
  "kCurrentDirectory = ''.''"

definition IsAbsolutePath :: "string \<Rightarrow> bool" where
  "IsAbsolutePath path \<longleftrightarrow> path \<noteq> [] \<and> hd path = CHR ''/''"

definition EndsWithSlash :: "string \<Rightarrow> bool" where
  "EndsWithSlash path \<longleftrightarrow> path \<noteq> [] \<and> last path = CHR ''/''"

text \<open>
  \<^verbatim>\<open>std::string::rfind(c, pos)\<close>: the last index not after \<open>pos\<close> that holds \<open>c\<close>;
  \<open>None\<close> as \<open>pos\<close> is \<^verbatim>\<open>npos\<close>, as a result it is "not found".
\<close>

definition rfind :: "char \<Rightarrow> string \<Rightarrow> nat option \<Rightarrow> nat option" where
  "rfind c s pos =
     find (\<lambda>i. s ! i = c)
       (rev [0 ..< (case pos of None \<Rightarrow> length s | Some p \<Rightarrow> min (length s) (Suc p))])"

definition GetDirNameInPlace :: "string \<Rightarrow> string" where
  "GetDirNameInPlace in_out_path =
     (let len = length in_out_path;
          search_start = (if 2 \<le> len \<and> EndsWithSlash in_out_path then Some (len - 2) else None)
      in case rfind CHR ''/'' in_out_path search_start of
           Some pos \<Rightarrow> if pos = 0 then ''/'' else take pos in_out_path
         | None \<Rightarrow> kCurrentDirectory)"

definition GetDirName :: "string \<Rightarrow> string" where
  "GetDirName path = GetDirNameInPlace path"

definition JoinPath :: "string \<Rightarrow> string \<Rightarrow> string" where
  "JoinPath dirname basename =
     (if EndsWithSlash dirname then dirname @ basename else dirname @ ''/'' @ basename)"

definition EnsurePathEndsWithSlash :: "string \<Rightarrow> string" where
  "EnsurePathEndsWithSlash in_out_path =
     (if EndsWithSlash in_out_path then in_out_path else in_out_path @ ''/'')"

fun has_double_slash :: "string \<Rightarrow> bool" where
  "has_double_slash (a # b # s) \<longleftrightarrow> (a = CHR ''/'' \<and> b = CHR ''/'') \<or> has_double_slash (b # s)"
| "has_double_slash _ \<longleftrightarrow> False"

text \<open>The loop that appends each kept component and a slash.\<close>

fun append_components :: "string \<Rightarrow> string list \<Rightarrow> string" where
  "append_components path [] = path"
| "append_components path (directory # directories) =
     (if directory = ''.'' \<or> directory = [] then append_components path directories
      else append_components (path @ directory @ ''/'') directories)"

definition RemoveSingleDotsAndRedundantSlashes :: "base_lib \<Rightarrow> string \<Rightarrow> string" where
  "RemoveSingleDotsAndRedundantSlashes B in_out_path =
     (if CHR ''.'' \<notin> set in_out_path \<and> \<not> has_double_slash in_out_path
      then (if EndsWithSlash in_out_path \<and> 2 < length in_out_path
            then butlast in_out_path else in_out_path)
      else
        let is_absolute = IsAbsolutePath in_out_path;
            directories = SplitString B in_out_path CHR ''/'';
            path = append_components (if is_absolute then ''/'' else []) directories
        in if path = [] then ''.''
           else if 2 < length path then butlast path else path)"

fun RemoveTrailingSlashes :: "string \<Rightarrow> string" where
  "RemoveTrailingSlashes in_out_path =
     (if 1 < length in_out_path \<and> EndsWithSlash in_out_path
      then RemoveTrailingSlashes (butlast in_out_path) else in_out_path)"

declare RemoveTrailingSlashes.simps [simp del]

section \<open>Splitting and joining\<close>

lemma split_at_not_Nil [simp]: "split_at c s \<noteq> []"
  by (cases s) (auto split: list.splits)

lemma split_at_no_delim: "p \<in> set (split_at c s) \<Longrightarrow> c \<notin> set p"
  by (induction s arbitrary: p) (auto split: if_splits list.splits)

lemma split_at_append [path_simps]: "c \<notin> set p \<Longrightarrow> split_at c (p @ c # s) = p # split_at c s"
  by (induction p) auto

lemma split_at_single [path_simps]: "c \<notin> set p \<Longrightarrow> split_at c p = [p]"
  by (induction p) auto

lemma join_with_Cons: "ps \<noteq> [] \<Longrightarrow> join_with c (p # ps) = p @ c # join_with c ps"
  by (cases ps) auto

lemma join_with_Cons_char: "join_with c ((x # p) # ps) = x # join_with c (p # ps)"
  by (cases ps) auto

lemma join_split_at [simp]: "join_with c (split_at c s) = s"
proof (induction s)
  case (Cons x s)
  show ?case
  proof (cases "x = c")
    case True
    with Cons show ?thesis by (simp add: join_with_Cons)
  next
    case False
    obtain q qs where q: "split_at c s = q # qs"
      by (cases "split_at c s") auto
    with False Cons show ?thesis by (simp add: join_with_Cons_char)
  qed
qed simp

lemma split_join_with:
  "ps \<noteq> [] \<Longrightarrow> \<forall>p \<in> set ps. c \<notin> set p \<Longrightarrow> split_at c (join_with c ps) = ps"
  by (induction c ps rule: join_with.induct) (auto simp: path_simps)

lemma concat_slash: "ps \<noteq> [] \<Longrightarrow> concat (map (\<lambda>d. d @ [c]) ps) = join_with c ps @ [c]"
  by (induction c ps rule: join_with.induct) auto

lemma join_with_not_Nil: "ps \<noteq> [] \<Longrightarrow> hd ps \<noteq> [] \<Longrightarrow> join_with c ps \<noteq> []"
  by (induction c ps rule: join_with.induct) auto

section \<open>Reverse search and directory names\<close>

lemma find_rev_upt_Some:
  "find P (rev [0 ..< n]) = Some i \<longleftrightarrow> i < n \<and> P i \<and> (\<forall>j. i < j \<and> j < n \<longrightarrow> \<not> P j)"
  by (induction n) (auto simp: less_Suc_eq)

lemma find_rev_upt_None: "find P (rev [0 ..< n]) = None \<longleftrightarrow> (\<forall>j < n. \<not> P j)"
  by (auto simp: find_None_iff)

lemma nth_after_delim:
  assumes "c \<notin> set b" "length a < j" "j \<le> length a + length b"
  shows "(a @ c # b @ t) ! j \<noteq> c"
proof -
  have i: "j - Suc (length a) < length b" using assms(2,3) by auto
  then have "(a @ c # b @ t) ! j = b ! (j - Suc (length a))"
    using assms(2) by (auto simp: nth_append nth_Cons')
  with i assms(1) show ?thesis by (metis nth_mem)
qed

lemma rfind_last: "c \<notin> set b \<Longrightarrow> rfind c (a @ c # b) None = Some (length a)"
  using nth_after_delim [of c b a _ "[]"]
  by (auto simp: rfind_def find_rev_upt_Some min_def simp del: upt_Suc)

lemma rfind_before_last:
  "c \<notin> set b \<Longrightarrow> rfind c (a @ c # b @ [c]) (Some (length a + length b)) = Some (length a)"
  using nth_after_delim [of c b a _ "[c]"]
  by (auto simp: rfind_def find_rev_upt_Some min_def simp del: upt_Suc)

lemma rfind_none: "c \<notin> set s \<Longrightarrow> rfind c s p = None"
  by (auto simp: rfind_def find_rev_upt_None in_set_conv_nth split: option.splits)

lemma EndsWithSlash_snoc [simp]: "EndsWithSlash (p @ [x]) \<longleftrightarrow> x = CHR ''/''"
  by (simp add: EndsWithSlash_def)

lemma EndsWithSlash_Nil [simp]: "\<not> EndsWithSlash []"
  by (simp add: EndsWithSlash_def)

lemma not_EndsWithSlash_append:
  "b \<noteq> [] \<Longrightarrow> CHR ''/'' \<notin> set b \<Longrightarrow> \<not> EndsWithSlash (a @ b)"
  by (auto simp: EndsWithSlash_def dest: last_in_set)

lemma GetDirName_file [path_simps]:
  assumes "b \<noteq> []" "CHR ''/'' \<notin> set b"
  shows "GetDirName (d @ CHR ''/'' # b) = (if d = [] then ''/'' else d)"
  using assms rfind_last [of "CHR ''/''" b d] not_EndsWithSlash_append [of b "d @ ''/''"]
  by (simp add: GetDirName_def GetDirNameInPlace_def)

lemma GetDirName_dir [path_simps]:
  assumes "b \<noteq> []" "CHR ''/'' \<notin> set b"
  shows "GetDirName (d @ CHR ''/'' # b @ ''/'') = (if d = [] then ''/'' else d)"
proof -
  have e: "EndsWithSlash (d @ CHR ''/'' # b @ ''/'')"
    by (simp add: EndsWithSlash_def)
  show ?thesis
    using e rfind_before_last [OF assms(2), of d]
    by (simp add: GetDirName_def GetDirNameInPlace_def)
qed

lemma GetDirName_relative [path_simps]:
  assumes "b \<noteq> []" "CHR ''/'' \<notin> set b"
  shows "GetDirName b = kCurrentDirectory"
  using assms not_EndsWithSlash_append [of b "[]"]
  by (simp add: GetDirName_def GetDirNameInPlace_def rfind_none)

section \<open>Dot and slash removal\<close>

text \<open>
  The reference: keep the components that are neither empty nor a single dot, and
  put one slash between them.
\<close>

definition norm_components :: "string \<Rightarrow> string list" where
  "norm_components p = filter (\<lambda>d. d \<noteq> [] \<and> d \<noteq> ''.'') (split_at CHR ''/'' p)"

definition canonical_path :: "string \<Rightarrow> string" where
  "canonical_path p =
     (if IsAbsolutePath p then CHR ''/'' # join_with CHR ''/'' (norm_components p)
      else if norm_components p = [] then ''.''
      else join_with CHR ''/'' (norm_components p))"

definition clean_components :: "string \<Rightarrow> bool" where
  "clean_components p \<longleftrightarrow> (\<forall>d \<in> set (split_at CHR ''/'' p). no_outer_white d)"

lemma append_components_eq:
  "append_components path ds =
     path @ concat (map (\<lambda>d. d @ ''/'') (filter (\<lambda>d. d \<noteq> [] \<and> d \<noteq> ''.'') ds))"
  by (induction path ds rule: append_components.induct) auto

lemma norm_components_member:
  "d \<in> set (norm_components p) \<Longrightarrow> d \<noteq> [] \<and> d \<noteq> ''.'' \<and> CHR ''/'' \<notin> set d"
  by (auto simp: norm_components_def dest: split_at_no_delim)

lemma join_not_EndsWithSlash:
  "\<forall>d \<in> set ps. d \<noteq> [] \<and> CHR ''/'' \<notin> set d \<Longrightarrow> \<not> EndsWithSlash (join_with CHR ''/'' ps)"
proof (induction "CHR ''/''" ps rule: join_with.induct)
  case (2 p)
  then show ?case using not_EndsWithSlash_append [of p "[]"] by simp
next
  case (3 p q ps)
  then have "join_with CHR ''/'' (q # ps) \<noteq> []"
    by (intro join_with_not_Nil) auto
  with 3 show ?case by (simp add: EndsWithSlash_def)
qed simp

lemma split_slow_components:
  assumes "base_strings B" "clean_components p"
  shows "filter (\<lambda>d. d \<noteq> [] \<and> d \<noteq> ''.'') (SplitString B p CHR ''/'') = norm_components p"
proof -
  have m: "map trim (split_at CHR ''/'' p) = split_at CHR ''/'' p"
    using assms(2) by (intro map_idI) (simp add: clean_components_def no_outer_white_def)
  show ?thesis
    by (simp add: base_strings.split_doc [OF assms(1)] m norm_components_def Let_def)
qed

text \<open>The fast path (no dot, no double slash) only has to drop a trailing slash.\<close>

lemma fast_path_relative:
  assumes "\<not> has_double_slash p" "CHR ''.'' \<notin> set p" "p \<noteq> []" "\<not> IsAbsolutePath p"
  shows "norm_components p \<noteq> [] \<and>
    join_with CHR ''/'' (norm_components p) = (if EndsWithSlash p then butlast p else p)"
  using assms
proof (induction p rule: length_induct)
  case (1 p)
  then obtain x xs where p: "p = x # xs" and x: "x \<noteq> CHR ''/''" "x \<noteq> CHR ''.''"
    by (cases p) (auto simp: IsAbsolutePath_def)
  show ?case
  proof (cases xs)
    case Nil
    with x show ?thesis
      by (simp add: p norm_components_def EndsWithSlash_def)
  next
    case (Cons y ys)
    show ?thesis
    proof (cases "y = CHR ''/''")
      case y: True
      show ?thesis
      proof (cases ys)
        case Nil
        with x y Cons show ?thesis
          by (simp add: p norm_components_def EndsWithSlash_def)
      next
        case ys: (Cons z zs)
        have "norm_components ys \<noteq> [] \<and> join_with CHR ''/'' (norm_components ys) =
            (if EndsWithSlash ys then butlast ys else ys)"
          using 1 p Cons y ys by (auto simp: IsAbsolutePath_def)
        with x y Cons ys show ?thesis
          by (simp add: p norm_components_def EndsWithSlash_def join_with_Cons)
      qed
    next
      case y: False
      have IH: "norm_components xs \<noteq> [] \<and> join_with CHR ''/'' (norm_components xs) =
          (if EndsWithSlash xs then butlast xs else xs)"
        using 1 p Cons y by (auto simp: IsAbsolutePath_def)
      obtain q qs where q: "split_at CHR ''/'' ys = q # qs"
        by (cases "split_at CHR ''/'' ys") auto
      have y2: "y \<noteq> CHR ''.''" using 1 p Cons by auto
      have "norm_components xs = (y # q) # filter (\<lambda>d. d \<noteq> [] \<and> d \<noteq> ''.'') qs"
        using y y2 q Cons by (simp add: norm_components_def)
      moreover have "norm_components p = (x # y # q) # filter (\<lambda>d. d \<noteq> [] \<and> d \<noteq> ''.'') qs"
        using x y q Cons p by (simp add: norm_components_def)
      ultimately show ?thesis
        using IH Cons p by (auto simp: join_with_Cons_char EndsWithSlash_def split: if_splits)
    qed
  qed
qed

lemma fast_path_canonical:
  assumes "\<not> has_double_slash p" "CHR ''.'' \<notin> set p" "p \<noteq> []"
  shows "canonical_path p = (if EndsWithSlash p \<and> 1 < length p then butlast p else p)"
proof (cases "IsAbsolutePath p")
  case False
  have "1 < length p" if "EndsWithSlash p"
    using that False assms(3) by (cases p) (auto simp: IsAbsolutePath_def EndsWithSlash_def split: if_splits)
  with fast_path_relative [OF assms False] False show ?thesis
    by (auto simp: canonical_path_def)
next
  case True
  then obtain xs where p: "p = CHR ''/'' # xs"
    using assms(3) by (cases p) (auto simp: IsAbsolutePath_def)
  show ?thesis
  proof (cases "xs = []")
    case True
    with p show ?thesis
      by (simp add: canonical_path_def norm_components_def IsAbsolutePath_def)
  next
    case False
    then have "\<not> IsAbsolutePath xs" "\<not> has_double_slash xs"
      using assms(1) p by (auto simp: IsAbsolutePath_def neq_Nil_conv)
    from fast_path_relative [OF this(2) _ False this(1)] assms(2) p False True show ?thesis
      by (auto simp: canonical_path_def norm_components_def EndsWithSlash_def)
  qed
qed

lemma slow_path_value:
  assumes "base_strings B" "clean_components p" "CHR ''.'' \<in> set p \<or> has_double_slash p"
  shows "RemoveSingleDotsAndRedundantSlashes B p =
     (if norm_components p = [] then (if IsAbsolutePath p then ''/'' else ''.'')
      else if \<not> IsAbsolutePath p \<and> length (canonical_path p) = 1 then canonical_path p @ ''/''
      else canonical_path p)"
proof (cases "norm_components p = []")
  case True
  then have "append_components a (SplitString B p CHR ''/'') = a" for a
    using split_slow_components [OF assms(1,2)] by (simp only: append_components_eq) simp
  with True assms(3) show ?thesis
    by (auto simp: RemoveSingleDotsAndRedundantSlashes_def Let_def)
next
  case False
  let ?j = "join_with CHR ''/'' (norm_components p)"
  have j: "?j \<noteq> []"
    using False norm_components_member hd_in_set by (intro join_with_not_Nil) blast+
  have "append_components a (SplitString B p CHR ''/'') = a @ ?j @ ''/''" for a
    using False split_slow_components [OF assms(1,2)]
    by (simp add: append_components_eq concat_slash)
  then have R: "RemoveSingleDotsAndRedundantSlashes B p =
      (let a = (if IsAbsolutePath p then ''/'' else [])
       in if 2 < length (a @ ?j @ ''/'') then a @ ?j else a @ ?j @ ''/'')"
    using assms(3) by (auto simp: RemoveSingleDotsAndRedundantSlashes_def Let_def butlast_append)
  show ?thesis
  proof (cases "IsAbsolutePath p")
    case True
    with R j False show ?thesis by (simp add: canonical_path_def)
  next
    case rel: False
    have "2 < length ?j + 1 \<longleftrightarrow> length ?j \<noteq> 1" using j by (cases ?j) auto
    with R rel False show ?thesis by (simp add: canonical_path_def)
  qed
qed

section \<open>Properties\<close>

text \<open>
  Every relevant fact about \<open>RemoveSingleDotsAndRedundantSlashes\<close> in one equation:
  it computes the canonical form, except that a relative path whose canonical form
  is a single character may keep a trailing slash.
\<close>

lemma RemoveSingleDots_cases:
  assumes "base_strings B" "clean_components p" "p \<noteq> []"
  shows "RemoveSingleDotsAndRedundantSlashes B p = canonical_path p \<or>
    (\<not> IsAbsolutePath p \<and> length (canonical_path p) = 1 \<and>
     RemoveSingleDotsAndRedundantSlashes B p = canonical_path p @ ''/'')"
proof (cases "CHR ''.'' \<notin> set p \<and> \<not> has_double_slash p")
  case False
  then show ?thesis
    using slow_path_value [OF assms(1,2)] by (auto simp: canonical_path_def)
next
  case True
  have c: "canonical_path p = (if EndsWithSlash p \<and> 1 < length p then butlast p else p)"
    using fast_path_canonical True assms(3) by blast
  have r: "RemoveSingleDotsAndRedundantSlashes B p =
      (if EndsWithSlash p \<and> 2 < length p then butlast p else p)"
    using True by (simp add: RemoveSingleDotsAndRedundantSlashes_def)
  show ?thesis
  proof (cases "EndsWithSlash p \<and> length p = 2")
    case False
    with c r show ?thesis by (auto simp: numeral_2_eq_2)
  next
    case e: True
    then obtain x where "p = [x, CHR ''/'']"
      by (cases p rule: rev_cases) (auto simp: length_Suc_conv)
    with True c r show ?thesis by (auto simp: IsAbsolutePath_def EndsWithSlash_def)
  qed
qed

text \<open>
  C30. On an absolute path whose components carry no white space at their ends,
  \<open>RemoveSingleDotsAndRedundantSlashes\<close> (fast path and slow path alike) returns the
  canonical form: the components that are neither empty nor a dot, each after exactly
  one slash; the canonical form never ends with a slash unless it is the root.
\<close>

theorem RemoveSingleDots_absolute:
  assumes "base_strings B" and "clean_components p" and "IsAbsolutePath p"
  shows "RemoveSingleDotsAndRedundantSlashes B p = CHR ''/'' # join_with CHR ''/'' (norm_components p)
    \<and> (RemoveSingleDotsAndRedundantSlashes B p = ''/''
        \<or> \<not> EndsWithSlash (RemoveSingleDotsAndRedundantSlashes B p))"
proof -
  have ne: "p \<noteq> []" using assms(3) by (auto simp: IsAbsolutePath_def)
  have eq: "RemoveSingleDotsAndRedundantSlashes B p =
      CHR ''/'' # join_with CHR ''/'' (norm_components p)"
    using RemoveSingleDots_cases [OF assms(1,2) ne] assms(3) by (auto simp: canonical_path_def)
  have "\<not> EndsWithSlash (join_with CHR ''/'' (norm_components p))"
    using norm_components_member by (intro join_not_EndsWithSlash) blast
  with eq show ?thesis by (auto simp: EndsWithSlash_def)
qed

theorem RemoveSingleDots_absolute_witness:
  "RemoveSingleDotsAndRedundantSlashes chromium_base ''//./to/./foo/.'' = ''/to/foo''"
proof -
  have c: "clean_components ''//./to/./foo/.''" by code_simp
  have a: "IsAbsolutePath ''//./to/./foo/.''" by code_simp
  have n: "CHR ''/'' # join_with CHR ''/'' (norm_components ''//./to/./foo/.'') = ''/to/foo''"
    by code_simp
  show ?thesis
    using RemoveSingleDots_absolute [OF chromium.base_strings_axioms c a] n by simp
qed

text \<open>
  The post-condition the code asserts (\<open>the result is the root or does not end with a
  slash\<close>) fails for relative paths of one character: the length test before the trailing
  slash is removed is \<open>> 2\<close> where it has to be \<open>> 1\<close>.
\<close>

theorem RemoveSingleDots_short_relative:
  assumes "base_strings B" and "c \<noteq> CHR ''/''" and "c \<noteq> CHR ''.''" and "\<not> is_white c"
  shows "RemoveSingleDotsAndRedundantSlashes B [CHR ''.'', CHR ''/'', c] = [c, CHR ''/'']
    \<and> EndsWithSlash (RemoveSingleDotsAndRedundantSlashes B [CHR ''.'', CHR ''/'', c])"
proof -
  have "no_outer_white ''.''" "no_outer_white [c]"
    using assms(4) by (simp_all add: no_outer_white_def trim_def is_white_def)
  then have "clean_components [CHR ''.'', CHR ''/'', c]"
    using assms(2) by (simp add: clean_components_def)
  from slow_path_value [OF assms(1) this] assms(2,3) show ?thesis
    by (simp add: norm_components_def canonical_path_def IsAbsolutePath_def EndsWithSlash_def)
qed

theorem RemoveSingleDots_short_relative_witness:
  "RemoveSingleDotsAndRedundantSlashes chromium_base ''./a'' = ''a/''"
proof -
  have w: "\<not> is_white CHR ''a''" by code_simp
  show ?thesis
    using RemoveSingleDots_short_relative [OF chromium.base_strings_axioms _ _ w] by simp
qed

lemma RemoveTrailingSlashes_append:
  "\<exists>k. p = RemoveTrailingSlashes p @ replicate k CHR ''/''"
proof (induction p rule: RemoveTrailingSlashes.induct)
  case (1 p)
  show ?case
  proof (cases "1 < length p \<and> EndsWithSlash p")
    case True
    then obtain k where k: "butlast p = RemoveTrailingSlashes (butlast p) @ replicate k CHR ''/''"
      using 1 by blast
    have "p = butlast p @ [CHR ''/'']"
      using True by (auto simp: EndsWithSlash_def) (metis append_butlast_last_id)
    also have "\<dots> = RemoveTrailingSlashes (butlast p) @ replicate k CHR ''/'' @ [CHR ''/'']"
      using k by (metis append_assoc)
    also have "\<dots> = RemoveTrailingSlashes p @ replicate (Suc k) CHR ''/''"
      using True by (simp add: RemoveTrailingSlashes.simps [of p] replicate_append_same)
    finally show ?thesis by blast
  next
    case False
    then show ?thesis
      by (intro exI [of _ 0]) (subst RemoveTrailingSlashes.simps, auto)
  qed
qed

lemma RemoveTrailingSlashes_stop:
  "length (RemoveTrailingSlashes p) \<le> 1 \<or> \<not> EndsWithSlash (RemoveTrailingSlashes p)"
  by (induction p rule: RemoveTrailingSlashes.induct)
    (subst (1 2) RemoveTrailingSlashes.simps, auto)

text \<open>
  \<open>RemoveTrailingSlashes\<close> terminates and removes only slashes at the end: the input is
  the result followed by slashes, and the result ends with a slash only when it is the root
  (the condition the code asserts).
\<close>

theorem RemoveTrailingSlashes_correct:
  "(\<exists>k. p = RemoveTrailingSlashes p @ replicate k CHR ''/'') \<and>
   (EndsWithSlash (RemoveTrailingSlashes p) \<longleftrightarrow> RemoveTrailingSlashes p = ''/'')"
proof -
  have "RemoveTrailingSlashes p = ''/''"
    if "length (RemoveTrailingSlashes p) \<le> 1" "EndsWithSlash (RemoveTrailingSlashes p)"
    using that by (cases "RemoveTrailingSlashes p") (auto simp: EndsWithSlash_def)
  then show ?thesis
    using RemoveTrailingSlashes_append [of p] RemoveTrailingSlashes_stop [of p]
    by (auto simp: EndsWithSlash_def)
qed

text \<open>
  Round trip: the directory name of a joined path is the directory it was joined
  with, for a non-empty base name without a slash and a directory that is the root or
  does not end with a slash.
\<close>

theorem GetDirName_JoinPath:
  assumes "b \<noteq> []" and "CHR ''/'' \<notin> set b" and "d = ''/'' \<or> (d \<noteq> [] \<and> \<not> EndsWithSlash d)"
  shows "GetDirName (JoinPath d b) = d"
proof (cases "d = ''/''")
  case True
  then show ?thesis
    using GetDirName_file [OF assms(1,2), of "[]"] by (simp add: JoinPath_def EndsWithSlash_def)
next
  case False
  with assms show ?thesis
    using GetDirName_file [OF assms(1,2), of d] by (simp add: JoinPath_def)
qed

theorem GetDirName_JoinPath_witness:
  "GetDirName (JoinPath ''/data/app'' ''base.apk'') = ''/data/app''"
  by (rule GetDirName_JoinPath) (code_simp, code_simp, code_simp)

end
