(* ===== verification/Circular_Buffer.thy ===== *)
theory Circular_Buffer
  imports Arc_Prelude
begin

text \<open>
  The ring buffer behind pipes and stream sockets:
  \<^verbatim>\<open>src/src/common/circular_buffer.cc\<close> and \<^verbatim>\<open>circular_buffer.h\<close>.
  The record has the class's fields; a null \<open>cb_buffer\<close> is the empty list. The abstract
  contract (a bounded first-in first-out queue of bytes) is the locale \<open>bounded_fifo\<close>.
\<close>

section \<open>The class\<close>

record circular_buffer =
  cb_buffer :: "byte list"
  cb_start :: nat
  cb_end :: nat
  cb_capacity :: nat
  cb_size :: nat

definition CircularBuffer :: circular_buffer where
  "CircularBuffer = \<lparr>cb_buffer = [], cb_start = 0, cb_end = 0, cb_capacity = 0, cb_size = 0\<rparr>"

definition cb_clear :: "circular_buffer \<Rightarrow> circular_buffer" where
  "cb_clear cb = cb\<lparr>cb_start := 0, cb_end := 0, cb_size := 0\<rparr>"

text \<open>\<^verbatim>\<open>memcpy(dst + off, src, length src)\<close>.\<close>

definition memcpy_at :: "byte list \<Rightarrow> nat \<Rightarrow> byte list \<Rightarrow> byte list" where
  "memcpy_at dst off src = take off dst @ src @ drop (off + length src) dst"

definition cb_write :: "circular_buffer \<Rightarrow> byte list \<Rightarrow> nat \<times> circular_buffer" where
  "cb_write cb buf =
     (let len = min (length buf) (cb_capacity cb - cb_size cb) in
      if len \<le> cb_capacity cb - cb_end cb then
        (len, cb\<lparr>cb_buffer := memcpy_at (cb_buffer cb) (cb_end cb) (take len buf),
                 cb_end := cb_end cb + len, cb_size := cb_size cb + len\<rparr>)
      else
        let end_size = cb_capacity cb - cb_end cb;
            front_size = len - end_size
        in (len, cb\<lparr>cb_buffer := memcpy_at
                       (memcpy_at (cb_buffer cb) (cb_end cb) (take end_size buf)) 0
                       (take front_size (drop end_size buf)),
                    cb_end := front_size, cb_size := cb_size cb + len\<rparr>))"

text \<open>The bytes copied to the caller's buffer are returned; their number is the result.\<close>

definition cb_read :: "circular_buffer \<Rightarrow> nat \<Rightarrow> byte list \<times> circular_buffer" where
  "cb_read cb want =
     (let end_size = cb_capacity cb - cb_start cb;
          len = min want (cb_size cb)
      in if len = 0 then ([], cb)
         else if len \<le> end_size then
           let start = cb_start cb + len in
           (take len (drop (cb_start cb) (cb_buffer cb)),
            cb\<lparr>cb_start := (if start = cb_capacity cb then 0 else start), cb_size := cb_size cb - len\<rparr>)
         else
           let start_size = len - end_size in
           (take end_size (drop (cb_start cb) (cb_buffer cb)) @ take start_size (cb_buffer cb),
            cb\<lparr>cb_start := start_size, cb_size := cb_size cb - len\<rparr>))"

text \<open>
  The new array is not initialised by the code; the bytes beyond those copied are never
  read back (\<open>cb_list\<close> below does not depend on them).
\<close>

definition cb_set_capacity :: "circular_buffer \<Rightarrow> nat \<Rightarrow> circular_buffer" where
  "cb_set_capacity cb capacity =
     (let new_size = min (cb_size cb) capacity;
          new_buffer = replicate capacity 0;
          new_buffer = (if 0 < new_size
             then memcpy_at new_buffer 0 (fst (cb_read cb new_size)) else new_buffer)
      in \<lparr>cb_buffer = new_buffer, cb_start = 0, cb_end = new_size, cb_capacity = capacity,
          cb_size = new_size\<rparr>)"

definition cb_remaining :: "circular_buffer \<Rightarrow> nat" where
  "cb_remaining cb = cb_capacity cb - cb_size cb"

section \<open>Invariant and contents\<close>

text \<open>
  \<open>cb_end\<close> is the position after the last byte, modulo the capacity. It may rest at the
  capacity itself, also after the buffer has been drained.
\<close>

definition cb_inv :: "circular_buffer \<Rightarrow> bool" where
  "cb_inv cb \<longleftrightarrow>
     length (cb_buffer cb) = cb_capacity cb \<and> cb_size cb \<le> cb_capacity cb \<and> cb_end cb \<le> cb_capacity cb \<and>
     (cb_start cb < cb_capacity cb \<or> cb_start cb = 0 \<and> cb_capacity cb = 0) \<and>
     (cb_end cb = cb_start cb + cb_size cb \<or> cb_end cb + cb_capacity cb = cb_start cb + cb_size cb \<or>
      cb_start cb = 0 \<and> cb_size cb = 0 \<and> cb_end cb = cb_capacity cb)"

definition cb_list :: "circular_buffer \<Rightarrow> byte list" where
  "cb_list cb = take (cb_size cb) (drop (cb_start cb) (cb_buffer cb) @ take (cb_start cb) (cb_buffer cb))"

lemma length_cb_list [simp]: "cb_inv cb \<Longrightarrow> length (cb_list cb) = cb_size cb"
  by (auto simp: cb_inv_def cb_list_def)

lemma length_memcpy_at [simp]:
  "off + length src \<le> length dst \<Longrightarrow> length (memcpy_at dst off src) = length dst"
  by (simp add: memcpy_at_def)

lemma CircularBuffer_inv: "cb_inv CircularBuffer" and
  CircularBuffer_list: "cb_list CircularBuffer = []"
  by (simp_all add: CircularBuffer_def cb_inv_def cb_list_def)

lemma cb_clear_inv: "cb_inv cb \<Longrightarrow> cb_inv (cb_clear cb)" and
  cb_clear_list: "cb_list (cb_clear cb) = []"
  by (auto simp: cb_clear_def cb_inv_def cb_list_def)

lemma cb_write_len: "fst (cb_write cb buf) = min (length buf) (cb_capacity cb - cb_size cb)"
  by (simp add: cb_write_def Let_def)

lemma cb_write_capacity: "cb_capacity (snd (cb_write cb buf)) = cb_capacity cb"
  by (simp add: cb_write_def Let_def)

lemma cb_write_inv:
  assumes "cb_inv cb"
  shows "cb_inv (snd (cb_write cb buf))"
  using assms by (auto simp: cb_inv_def cb_write_def Let_def min_def)

text \<open>The contents in the two layouts: the live bytes in one piece, or wrapped around.\<close>

lemma cb_list_straight:
  assumes "cb_inv cb" "cb_end cb = cb_start cb + cb_size cb"
  shows "cb_list cb = drop (cb_start cb) (take (cb_end cb) (cb_buffer cb))"
  using assms by (auto simp: cb_inv_def cb_list_def drop_take)

lemma cb_list_wrapped:
  assumes "cb_inv cb" "cb_end cb + cb_capacity cb = cb_start cb + cb_size cb"
  shows "cb_list cb = drop (cb_start cb) (cb_buffer cb) @ take (cb_end cb) (cb_buffer cb)"
proof -
  have "cb_size cb = cb_capacity cb - cb_start cb + cb_end cb" "cb_end cb \<le> cb_start cb"
    using assms by (auto simp: cb_inv_def)
  with assms show ?thesis by (simp add: cb_inv_def cb_list_def min_def)
qed

lemma write_straight_fits:
  assumes "length b = cap" "e = s + z" "e + length d \<le> cap"
  shows "take (z + length d) (drop s (memcpy_at b e d) @ rest) = drop s (take e b) @ d"
  using assms by (simp add: memcpy_at_def)

lemma write_wrapped_fits:
  assumes "length b = cap" "e + cap = s + z" "s \<le> cap" "z + length d \<le> cap"
  shows "take (z + length d) (drop s (memcpy_at b e d) @ take s (memcpy_at b e d)) =
    drop s b @ take e b @ d"
proof -
  have n: "e + length d \<le> s" "z = cap - s + e" using assms by auto
  have "drop s (memcpy_at b e d) = drop s b"
    using n assms(1,3) by (simp add: memcpy_at_def)
  moreover have "take s (memcpy_at b e d) = take e b @ d @ take (s - e - length d) (drop (e + length d) b)"
    using n assms(1,3) by (cases "e = s") (auto simp: memcpy_at_def)
  ultimately show ?thesis using n assms(1,3) by simp
qed

lemma write_around:
  assumes "length b = cap" "e = s + z" "e \<le> cap" "z + length d \<le> cap" "cap < e + length d"
  defines "es \<equiv> cap - e"
  defines "b' \<equiv> memcpy_at (memcpy_at b e (take es d)) 0 (drop es d)"
  shows "take (z + length d) (drop s b' @ take s b') = drop s (take e b) @ d"
proof -
  have f: "length d - es \<le> s" "es \<le> length d" using assms(1-5) by (auto simp: es_def)
  have b': "b' = drop es d @ drop (length d - es) (take e b @ take es d)"
    using assms(1-3) f by (simp add: b'_def es_def memcpy_at_def min_def)
  have "drop s b' = drop s (take e b) @ take es d"
    using f assms(1-3) by (simp add: b')
  moreover have "take s b' = drop es d @ take (s - (length d - es)) (drop (length d - es) (take e b @ take es d))"
    using f by (simp add: b')
  moreover have "take es d @ drop es d = d" by simp
  ultimately show ?thesis
    using f assms(1-3) by (simp add: min_def)
qed

lemma cb_write_list:
  assumes inv: "cb_inv cb"
  shows "cb_list (snd (cb_write cb buf)) = cb_list cb @ take (fst (cb_write cb buf)) buf"
proof -
  let ?b = "cb_buffer cb" and ?s = "cb_start cb" and ?e = "cb_end cb"
    and ?z = "cb_size cb" and ?cap = "cb_capacity cb"
  define d where "d = take (min (length buf) (?cap - ?z)) buf"
  have i: "length ?b = ?cap" "?z + length d \<le> ?cap" "?e \<le> ?cap" "?s \<le> ?cap"
    using inv by (auto simp: cb_inv_def d_def)
  have w: "take (fst (cb_write cb buf)) buf = d"
    by (simp add: cb_write_len d_def)
  have l: "min (length buf) (?cap - ?z) = length d" by (simp add: d_def)
  have td: "take (length d) buf = d" by (simp add: d_def)
  have fits: "cb_list (snd (cb_write cb buf)) =
      take (?z + length d) (drop ?s (memcpy_at ?b ?e d) @ take ?s (memcpy_at ?b ?e d))"
    if "length d \<le> ?cap - ?e"
    using that by (simp add: cb_write_def l td cb_list_def Let_def)
  have dd: "take (length d - k) (drop k buf) = drop k d" "take k buf = take k d" if "k \<le> length d" for k
    using that by (auto simp: d_def drop_take min_def)
  have around: "cb_list (snd (cb_write cb buf)) =
      take (?z + length d)
        (drop ?s (memcpy_at (memcpy_at ?b ?e (take (?cap - ?e) d)) 0 (drop (?cap - ?e) d)) @
         take ?s (memcpy_at (memcpy_at ?b ?e (take (?cap - ?e) d)) 0 (drop (?cap - ?e) d)))"
    if "\<not> length d \<le> ?cap - ?e"
    using that by (simp add: cb_write_def l cb_list_def Let_def dd)
  consider (straight) "?e = ?s + ?z" | (wrapped) "?e + ?cap = ?s + ?z"
    | (drained) "?s = 0" "?z = 0" "?e = ?cap"
    using inv by (auto simp: cb_inv_def)
  then have "cb_list (snd (cb_write cb buf)) = cb_list cb @ d"
  proof cases
    case straight
    show ?thesis
    proof (cases "length d \<le> ?cap - ?e")
      case True
      then show ?thesis
        using fits write_straight_fits [OF i(1) straight, of d] straight i
        by (simp add: cb_list_straight [OF inv])
    next
      case False
      then show ?thesis
        using around write_around [OF i(1) straight i(3,2)] straight i
        by (simp add: cb_list_straight [OF inv])
    qed
  next
    case wrapped
    then have "length d \<le> ?cap - ?e" using i by auto
    then show ?thesis
      using fits write_wrapped_fits [OF i(1) wrapped i(4,2)]
      by (simp add: cb_list_wrapped [OF inv wrapped])
  next
    case drained
    then show ?thesis
      using fits around i by (cases "d = []") (auto simp: cb_list_def memcpy_at_def)
  qed
  with w show ?thesis by simp
qed

lemma cb_read_capacity [simp]: "cb_capacity (snd (cb_read cb n)) = cb_capacity cb"
  by (simp add: cb_read_def Let_def)

lemma cb_read_buffer: "cb_buffer (snd (cb_read cb n)) = cb_buffer cb"
  by (simp add: cb_read_def Let_def)

lemma cb_read_size: "cb_size (snd (cb_read cb n)) = cb_size cb - min n (cb_size cb)"
  by (auto simp: cb_read_def Let_def)

lemma cb_read_end: "cb_end (snd (cb_read cb n)) = cb_end cb"
  by (simp add: cb_read_def Let_def)

lemma cb_read_start:
  "cb_inv cb \<Longrightarrow> cb_start (snd (cb_read cb n)) =
    (if cb_start cb + min n (cb_size cb) < cb_capacity cb then cb_start cb + min n (cb_size cb)
     else cb_start cb + min n (cb_size cb) - cb_capacity cb)"
  by (cases "min n (cb_size cb) = 0") (auto simp: cb_inv_def cb_read_def Let_def)

lemmas cb_read_fields = cb_read_buffer cb_read_size cb_read_end cb_read_capacity

lemma cb_read_inv:
  assumes inv: "cb_inv cb"
  shows "cb_inv (snd (cb_read cb n))"
proof -
  have m: "min n (cb_size cb) \<le> cb_size cb" by simp
  show ?thesis
    using inv m unfolding cb_inv_def [of "snd _"] cb_read_fields cb_read_start [OF inv]
    by (auto simp: cb_inv_def)
qed

lemma read_data:
  assumes "length b = cap" "s \<le> cap" "n \<le> cap"
  shows "take n (drop s b @ take s b) =
    (if n \<le> cap - s then take n (drop s b)
     else take (cap - s) (drop s b) @ take (n - (cap - s)) b)"
  using assms by (auto simp: min_def)

lemma cb_read_data:
  assumes inv: "cb_inv cb"
  shows "fst (cb_read cb n) = take n (cb_list cb)"
proof -
  let ?m = "min n (cb_size cb)"
  have i: "length (cb_buffer cb) = cb_capacity cb" "cb_start cb \<le> cb_capacity cb" "?m \<le> cb_capacity cb"
    using inv by (auto simp: cb_inv_def)
  have "fst (cb_read cb n) = take ?m (drop (cb_start cb) (cb_buffer cb) @ take (cb_start cb) (cb_buffer cb))"
    by (simp only: read_data [OF i]) (auto simp: cb_read_def Let_def)
  then show ?thesis by (simp only: cb_list_def take_take)
qed

lemma read_rest:
  assumes "length b = cap" "s \<le> cap" "z \<le> cap" "m \<le> z"
    and "s' = (if s + m < cap then s + m else s + m - cap)"
  shows "take (z - m) (drop s' b @ take s' b) = drop m (take z (drop s b @ take s b))"
proof (cases "s + m < cap")
  case True
  with assms show ?thesis by (simp add: drop_take min_def add.commute)
next
  case False
  have "drop m (take z (drop s b @ take s b)) = take (z - m) (take (s - s') (drop s' b))"
    using False assms by (simp add: drop_take add.commute)
  also have "\<dots> = take (z - m) (drop s' b)"
    using False assms by (simp add: min_def)
  finally show ?thesis using False assms by simp
qed

lemma cb_read_list:
  assumes inv: "cb_inv cb"
  shows "cb_list (snd (cb_read cb n)) = drop n (cb_list cb)"
proof -
  let ?m = "min n (cb_size cb)"
  have i: "length (cb_buffer cb) = cb_capacity cb" "cb_start cb \<le> cb_capacity cb"
    "cb_size cb \<le> cb_capacity cb" "?m \<le> cb_size cb"
    using inv by (auto simp: cb_inv_def)
  have n: "drop n (cb_list cb) = drop ?m (cb_list cb)"
    using inv by (cases "n \<le> cb_size cb") auto
  have "take (cb_size cb - ?m) (drop (cb_start (snd (cb_read cb n))) (cb_buffer cb) @
      take (cb_start (snd (cb_read cb n))) (cb_buffer cb)) = drop ?m (cb_list cb)"
    unfolding cb_list_def by (rule read_rest [OF i]) (rule cb_read_start [OF inv])
  then show ?thesis
    unfolding n by (simp only: cb_list_def [of "snd _"] cb_read_buffer cb_read_size)
qed

lemma cb_set_capacity_fields:
  assumes "cb_inv cb"
  shows "cb_set_capacity cb n =
    \<lparr>cb_buffer = take n (cb_list cb) @ replicate (n - cb_size cb) 0, cb_start = 0,
     cb_end = min (cb_size cb) n, cb_capacity = n, cb_size = min (cb_size cb) n\<rparr>"
proof -
  have "fst (cb_read cb (min (cb_size cb) n)) = take n (cb_list cb)"
    using assms by (simp add: cb_read_data take_all_iff min_def)
  then show ?thesis
    using assms length_cb_list [OF assms]
    by (auto simp: cb_set_capacity_def Let_def memcpy_at_def min_def simp flip: length_0_conv)
qed

lemma cb_set_capacity_inv:
  assumes "cb_inv cb"
  shows "cb_inv (cb_set_capacity cb n)"
proof -
  have "length (cb_list cb) = cb_size cb" using assms by simp
  then show ?thesis
    unfolding cb_set_capacity_fields [OF assms] by (auto simp: cb_inv_def min_def)
qed

lemma cb_set_capacity_list:
  assumes "cb_inv cb"
  shows "cb_list (cb_set_capacity cb n) = take n (cb_list cb)"
proof -
  have "length (cb_list cb) = cb_size cb" using assms by simp
  then show ?thesis
    unfolding cb_set_capacity_fields [OF assms] cb_list_def [of "\<lparr>cb_buffer = _, cb_start = _, cb_end = _, cb_capacity = _, cb_size = _\<rparr>"]
    by (simp add: min_def)
qed

section \<open>The contract: a bounded first-in first-out queue\<close>

text \<open>
  The two loops the clients run over a scatter/gather vector: \<open>gather_write\<close> writes the
  pieces one after the other and adds up what was taken (\<^verbatim>\<open>HandleSendmsgLocked\<close>),
  \<open>scatter_read\<close> fills pieces of the given lengths while there is data
  (\<^verbatim>\<open>recvmsg\<close>).
\<close>

fun gather_write :: "('q \<Rightarrow> 'a list \<Rightarrow> nat \<times> 'q) \<Rightarrow> 'q \<Rightarrow> 'a list list \<Rightarrow> nat \<times> 'q" where
  "gather_write wr q [] = (0, q)"
| "gather_write wr q (buf # bufs) =
     (let (n, q') = wr q buf; (m, q'') = gather_write wr q' bufs in (n + m, q''))"

fun scatter_read :: "('q \<Rightarrow> nat) \<Rightarrow> ('q \<Rightarrow> nat \<Rightarrow> 'a list \<times> 'q) \<Rightarrow> 'q \<Rightarrow> nat list \<Rightarrow> 'a list \<times> 'q" where
  "scatter_read sz rd q [] = ([], q)"
| "scatter_read sz rd q (len # lens) =
     (if 0 < sz q then
        let (xs, q') = rd q len; (ys, q'') = scatter_read sz rd q' lens in (xs @ ys, q'')
      else ([], q))"

locale bounded_fifo =
  fixes invar :: "'q \<Rightarrow> bool"
    and contents :: "'q \<Rightarrow> 'a list"
    and capacity :: "'q \<Rightarrow> nat"
    and qsize :: "'q \<Rightarrow> nat"
    and wr :: "'q \<Rightarrow> 'a list \<Rightarrow> nat \<times> 'q"
    and rd :: "'q \<Rightarrow> nat \<Rightarrow> 'a list \<times> 'q"
  assumes size_contents: "invar q \<Longrightarrow> qsize q = length (contents q)"
    and bounded: "invar q \<Longrightarrow> length (contents q) \<le> capacity q"
    and wr_count: "invar q \<Longrightarrow> fst (wr q xs) = min (length xs) (capacity q - length (contents q))"
    and wr_contents: "invar q \<Longrightarrow> contents (snd (wr q xs)) = contents q @ take (fst (wr q xs)) xs"
    and wr_capacity: "invar q \<Longrightarrow> capacity (snd (wr q xs)) = capacity q"
    and wr_invar: "invar q \<Longrightarrow> invar (snd (wr q xs))"
    and rd_data: "invar q \<Longrightarrow> fst (rd q n) = take n (contents q)"
    and rd_contents: "invar q \<Longrightarrow> contents (snd (rd q n)) = drop n (contents q)"
    and rd_capacity: "invar q \<Longrightarrow> capacity (snd (rd q n)) = capacity q"
    and rd_invar: "invar q \<Longrightarrow> invar (snd (rd q n))"
begin

lemma gather_write_correct:
  assumes "invar q"
  shows "invar (snd (gather_write wr q bufs)) \<and>
    capacity (snd (gather_write wr q bufs)) = capacity q \<and>
    fst (gather_write wr q bufs) = min (length (concat bufs)) (capacity q - length (contents q)) \<and>
    contents (snd (gather_write wr q bufs)) =
      contents q @ take (fst (gather_write wr q bufs)) (concat bufs)"
  using assms
proof (induction bufs arbitrary: q)
  case (Cons buf bufs)
  let ?q = "snd (wr q buf)"
  have i: "invar ?q" and c: "capacity ?q = capacity q"
    using Cons.prems by (auto intro: wr_invar simp: wr_capacity)
  have b: "length (contents q) \<le> capacity q" by (rule bounded [OF Cons.prems])
  define n m where "n = fst (wr q buf)" and "m = fst (gather_write wr ?q bufs)"
  have n: "n = min (length buf) (capacity q - length (contents q))"
    using Cons.prems by (simp add: n_def wr_count)
  have cq: "contents ?q = contents q @ take n buf"
    using Cons.prems by (simp add: n_def wr_contents)
  have m: "m = min (length (concat bufs)) (capacity q - length (contents q) - n)"
    using Cons.IH [OF i] n by (simp add: m_def c cq)
  have sum: "n + m = min (length (concat (buf # bufs))) (capacity q - length (contents q))"
    using n m by (auto simp: min_def)
  have tk: "take n buf @ take m (concat bufs) = take (n + m) (concat (buf # bufs))"
  proof (cases "length buf \<le> capacity q - length (contents q)")
    case True
    then show ?thesis using n by simp
  next
    case False
    then have "m = 0" "n \<le> length buf" using n m by auto
    then show ?thesis by simp
  qed
  have step: "gather_write wr q (buf # bufs) = (n + m, snd (gather_write wr ?q bufs))"
    by (simp add: Let_def split_beta n_def m_def)
  have h: "invar (snd (gather_write wr ?q bufs))"
    "capacity (snd (gather_write wr ?q bufs)) = capacity q"
    "contents (snd (gather_write wr ?q bufs)) = (contents q @ take n buf) @ take m (concat bufs)"
    using Cons.IH [OF i] by (simp_all add: c cq m_def)
  then have "contents (snd (gather_write wr ?q bufs)) = contents q @ take (n + m) (concat (buf # bufs))"
    by (simp only: append_assoc tk)
  with h(1,2) sum show ?case unfolding step fst_conv snd_conv by blast
qed simp

lemma scatter_read_correct:
  assumes "invar q"
  shows "invar (snd (scatter_read qsize rd q lens)) \<and>
    capacity (snd (scatter_read qsize rd q lens)) = capacity q \<and>
    fst (scatter_read qsize rd q lens) = take (sum_list lens) (contents q) \<and>
    contents (snd (scatter_read qsize rd q lens)) = drop (sum_list lens) (contents q)"
  using assms
proof (induction lens arbitrary: q)
  case (Cons len lens)
  have i: "invar (snd (rd q len))" by (rule rd_invar [OF Cons.prems])
  show ?case
    using Cons.IH [OF i] Cons.prems
    by (auto simp: Let_def split_beta rd_capacity rd_data rd_contents size_contents take_add add.commute)
qed simp

text \<open>What is written is read back, after what was there before and in the same order.\<close>

lemma write_read_fifo:
  assumes "invar q" and "length (contents q) + length xs \<le> capacity q"
  shows "fst (rd (snd (wr q xs)) (length (contents q) + length xs)) = contents q @ xs"
proof -
  have "fst (wr q xs) = length xs" using assms by (simp add: wr_count)
  then show ?thesis using assms by (simp add: rd_data wr_invar wr_contents)
qed

end

interpretation cbq: bounded_fifo cb_inv cb_list cb_capacity cb_size cb_write cb_read
proof unfold_locales
  fix q xs n assume i: "cb_inv q"
  show "cb_size q = length (cb_list q)" using i by simp
  show "length (cb_list q) \<le> cb_capacity q" using i by (simp add: cb_inv_def)
  show "fst (cb_write q xs) = min (length xs) (cb_capacity q - length (cb_list q))"
    using i by (simp add: cb_write_len)
qed (simp_all add: cb_write_list cb_write_capacity cb_write_inv cb_read_data cb_read_list cb_read_inv)

section \<open>Properties\<close>

text \<open>
  C29. \<open>CircularBuffer::write\<close> takes exactly as many bytes as fit, appends them to the
  contents in both layouts of the ring (with and without wrap-around), keeps the
  invariant and the capacity.
\<close>

theorem CircularBuffer_write_refines:
  assumes "cb_inv cb"
  shows "fst (cb_write cb buf) = min (length buf) (cb_remaining cb)
    \<and> cb_list (snd (cb_write cb buf)) = cb_list cb @ take (fst (cb_write cb buf)) buf
    \<and> cb_inv (snd (cb_write cb buf))
    \<and> cb_capacity (snd (cb_write cb buf)) = cb_capacity cb"
  using assms by (simp add: cb_remaining_def cb_write_len cbq.wr_contents cbq.wr_invar cbq.wr_capacity)

theorem CircularBuffer_write_refines_witness:
  "cb_inv \<lparr>cb_buffer = [1, 2, 3], cb_start = 2, cb_end = 3, cb_capacity = 3, cb_size = 1\<rparr>
   \<and> cb_list (snd (cb_write \<lparr>cb_buffer = [1, 2, 3], cb_start = 2, cb_end = 3, cb_capacity = 3,
       cb_size = 1\<rparr> [7, 8, 9])) = [3, 7, 8]"
proof -
  let ?cb = "\<lparr>cb_buffer = [1, 2, 3], cb_start = 2, cb_end = 3, cb_capacity = 3, cb_size = 1\<rparr>"
  have i: "cb_inv ?cb" by (simp add: cb_inv_def)
  show ?thesis
    using CircularBuffer_write_refines [OF i, of "[7, 8, 9]"] i
    by (simp add: cb_remaining_def cb_list_def)
qed

text \<open>
  \<open>CircularBuffer::read\<close> returns the oldest bytes, removes exactly those, and keeps
  the invariant, also when the bytes wrap around the end of the array.
\<close>

theorem CircularBuffer_read_refines:
  assumes "cb_inv cb"
  shows "fst (cb_read cb n) = take n (cb_list cb)
    \<and> cb_list (snd (cb_read cb n)) = drop n (cb_list cb)
    \<and> cb_inv (snd (cb_read cb n))
    \<and> cb_capacity (snd (cb_read cb n)) = cb_capacity cb"
  using assms by (simp add: cbq.rd_data cbq.rd_contents cbq.rd_invar)

theorem CircularBuffer_read_refines_witness:
  "fst (cb_read \<lparr>cb_buffer = [1, 2, 3], cb_start = 2, cb_end = 1, cb_capacity = 3,
      cb_size = 2\<rparr> 5) = [3, 1]"
proof -
  let ?cb = "\<lparr>cb_buffer = [1, 2, 3], cb_start = 2, cb_end = 1, cb_capacity = 3, cb_size = 2\<rparr>"
  have i: "cb_inv ?cb" by (simp add: cb_inv_def)
  show ?thesis
    using CircularBuffer_read_refines [OF i, of 5] by (simp add: cb_list_def)
qed

text \<open>
  \<open>CircularBuffer::set_capacity\<close> keeps the oldest bytes that fit into the new
  capacity, establishes the invariant and leaves room for exactly the rest.
\<close>

theorem CircularBuffer_set_capacity_refines:
  assumes "cb_inv cb"
  shows "cb_list (cb_set_capacity cb n) = take n (cb_list cb)
    \<and> cb_inv (cb_set_capacity cb n)
    \<and> cb_remaining (cb_set_capacity cb n) = n - cb_size cb"
  using assms
  by (simp add: cb_set_capacity_list cb_set_capacity_inv cb_remaining_def)
    (simp add: cb_set_capacity_def Let_def min_def)

theorem CircularBuffer_set_capacity_refines_witness:
  "cb_list (cb_set_capacity \<lparr>cb_buffer = [1, 2, 3], cb_start = 2, cb_end = 1, cb_capacity = 3,
      cb_size = 2\<rparr> 1) = [3]"
proof -
  let ?cb = "\<lparr>cb_buffer = [1, 2, 3], cb_start = 2, cb_end = 1, cb_capacity = 3, cb_size = 2\<rparr>"
  have i: "cb_inv ?cb" by (simp add: cb_inv_def)
  show ?thesis
    using CircularBuffer_set_capacity_refines [OF i, of 1] by (simp add: cb_list_def)
qed

end
