(* ===== verification/File_Stream.thy ===== *)
theory File_Stream
  imports Arc_Prelude
begin

text \<open>
  The base class of every open file: \<^verbatim>\<open>src/src/posix_translation/file_stream.cc\<close>,
  \<^verbatim>\<open>file_stream.h\<close> and \<^verbatim>\<open>permission_info.cc\<close>. Streams are objects
  with identity, so they live in a store \<open>w_streams\<close> indexed by a stream number; classes
  that extend the store extend the record. A virtual function is a parameter
  (\<open>vtable\<close>, or a function argument) of the definitions that call it.
\<close>

unbundle bit_operations_syntax

type_synonym sid = nat

section \<open>Permissions\<close>

text \<open>\<^verbatim>\<open>uid_t\<close> is unsigned; the invalid user id is \<^verbatim>\<open>(uid_t) -1\<close>.\<close>

definition kInvalidUid :: u32 where
  "kInvalidUid = - 1"

record permission_info =
  file_uid :: u32
  is_writable :: bool

definition no_permission :: permission_info where
  "no_permission = \<lparr>file_uid = kInvalidUid, is_writable = False\<rparr>"

definition PermissionInfo_IsValid :: "permission_info \<Rightarrow> bool" where
  "PermissionInfo_IsValid p \<longleftrightarrow> file_uid p \<noteq> kInvalidUid"

section \<open>Stream objects and file references\<close>

record file_stream =
  fs_oflag :: u32
  fs_inode :: int
  fs_pathname :: string
  fs_is_listening_enabled :: bool
  fs_listeners :: "sid list"
  fs_permission :: permission_info
  fs_file_ref_count :: int
  fs_had_file_refs :: bool

record world =
  w_streams :: "sid \<Rightarrow> file_stream"

record 'w vtable =
  vt_HandleNotificationFrom :: "sid \<Rightarrow> sid \<Rightarrow> bool \<Rightarrow> 'w \<Rightarrow> 'w"
  vt_OnLastFileRef :: "sid \<Rightarrow> 'w \<Rightarrow> 'w"

text \<open>\<^verbatim>\<open>ino_t\<close> is an unsigned type, of 32 bits in the C library of the target: this is \<open>-1\<close> in it.\<close>

definition kBadInode :: int where
  "kBadInode = 2 ^ 32 - 1"

text \<open>The constructor; \<open>inode\<close> is the number \<^verbatim>\<open>GetInodeLocked\<close> gave for a non-empty path.\<close>

definition FileStream :: "u32 \<Rightarrow> string \<Rightarrow> int \<Rightarrow> file_stream" where
  "FileStream oflag pathname inode =
     \<lparr>fs_oflag = oflag, fs_inode = (if pathname \<noteq> [] then inode else kBadInode),
      fs_pathname = pathname, fs_is_listening_enabled = False, fs_listeners = [],
      fs_permission = no_permission, fs_file_ref_count = 0, fs_had_file_refs = False\<rparr>"

definition upd_stream :: "sid \<Rightarrow> (file_stream \<Rightarrow> file_stream) \<Rightarrow> 'a world_scheme \<Rightarrow> 'a world_scheme" where
  "upd_stream s f w = w\<lparr>w_streams := (w_streams w)(s := f (w_streams w s))\<rparr>"

definition IsClosed :: "file_stream \<Rightarrow> bool" where
  "IsClosed f \<longleftrightarrow> fs_had_file_refs f \<and> fs_file_ref_count f = 0"

definition AddFileRef :: "sid \<Rightarrow> 'a world_scheme \<Rightarrow> 'a world_scheme" where
  "AddFileRef s w = upd_stream s
     (\<lambda>f. f\<lparr>fs_file_ref_count := fs_file_ref_count f + 1, fs_had_file_refs := True\<rparr>) w"

text \<open>
  Dropping the last reference first tells every listener that the file is closing,
  then clears the listeners, then runs the class's own \<^verbatim>\<open>OnLastFileRef\<close>.
\<close>

definition ReleaseFileRef :: "'a world_scheme vtable \<Rightarrow> sid \<Rightarrow> 'a world_scheme \<Rightarrow> 'a world_scheme" where
  "ReleaseFileRef vt s w =
     (let w1 = upd_stream s (\<lambda>f. f\<lparr>fs_file_ref_count := fs_file_ref_count f - 1\<rparr>) w in
      if fs_file_ref_count (w_streams w1 s) \<noteq> 0 then w1
      else
        let w2 = fold (\<lambda>l. vt_HandleNotificationFrom vt l s True) (fs_listeners (w_streams w1 s)) w1;
            w3 = upd_stream s (\<lambda>f. f\<lparr>fs_listeners := []\<rparr>) w2
        in vt_OnLastFileRef vt s w3)"

definition EnableListenerSupport :: "sid \<Rightarrow> 'a world_scheme \<Rightarrow> 'a world_scheme" where
  "EnableListenerSupport s = upd_stream s (\<lambda>f. f\<lparr>fs_is_listening_enabled := True\<rparr>)"

definition NotifyListeners :: "'a world_scheme vtable \<Rightarrow> sid \<Rightarrow> 'a world_scheme \<Rightarrow> 'a world_scheme" where
  "NotifyListeners vt s w =
     (if IsClosed (w_streams w s) then w
      else fold (\<lambda>l. vt_HandleNotificationFrom vt l s False) (fs_listeners (w_streams w s)) w)"

text \<open>\<open>listener\<close> registers itself with \<open>file\<close>; the listeners are a set keyed by the object.\<close>

definition StartListeningTo :: "sid \<Rightarrow> sid \<Rightarrow> 'a world_scheme \<Rightarrow> bool \<times> 'a world_scheme" where
  "StartListeningTo listener file w =
     (if \<not> fs_is_listening_enabled (w_streams w file) then (False, w)
      else (True, upd_stream file (\<lambda>f. f\<lparr>fs_listeners := List.insert listener (fs_listeners f)\<rparr>) w))"

definition StopListeningTo :: "sid \<Rightarrow> sid \<Rightarrow> 'a world_scheme \<Rightarrow> 'a world_scheme" where
  "StopListeningTo listener file w =
     upd_stream file (\<lambda>f. f\<lparr>fs_listeners := removeAll listener (fs_listeners f)\<rparr>) w"

section \<open>Default operations\<close>

text \<open>
  What a stream class that does not override an operation answers. The socket calls all
  fail with \<^verbatim>\<open>ENOTSOCK\<close>.
\<close>

definition FileStream_accept :: "int outcome" where "FileStream_accept = Err ENOTSOCK"
definition FileStream_bind :: "int outcome" where "FileStream_bind = Err ENOTSOCK"
definition FileStream_connect :: "int outcome" where "FileStream_connect = Err ENOTSOCK"
definition FileStream_epoll_ctl :: "int outcome" where "FileStream_epoll_ctl = Err EINVAL"
definition FileStream_epoll_wait :: "int outcome" where "FileStream_epoll_wait = Err EINVAL"
definition FileStream_fdatasync :: "int outcome" where "FileStream_fdatasync = Ret 0"
definition FileStream_fsync :: "int outcome" where "FileStream_fsync = Ret 0"
definition FileStream_ftruncate :: "int outcome" where "FileStream_ftruncate = Err EINVAL"
definition FileStream_getdents :: "int outcome" where "FileStream_getdents = Err ENOTDIR"
definition FileStream_getpeername :: "int outcome" where "FileStream_getpeername = Err ENOTSOCK"
definition FileStream_getsockname :: "int outcome" where "FileStream_getsockname = Err ENOTSOCK"
definition FileStream_getsockopt :: "int outcome" where "FileStream_getsockopt = Err ENOTSOCK"
definition FileStream_ioctl :: "int outcome" where "FileStream_ioctl = Err EINVAL"
definition FileStream_listen :: "int outcome" where "FileStream_listen = Err ENOTSOCK"
definition FileStream_lseek :: "int outcome" where "FileStream_lseek = Err EINVAL"
definition FileStream_mmap :: "int outcome" where "FileStream_mmap = Err ENODEV"
definition FileStream_munmap :: "int outcome" where "FileStream_munmap = Err ENODEV"
definition FileStream_recv :: "int outcome" where "FileStream_recv = Err ENOTSOCK"
definition FileStream_recvfrom :: "int outcome" where "FileStream_recvfrom = Err ENOTSOCK"
definition FileStream_recvmsg :: "int outcome" where "FileStream_recvmsg = Err ENOTSOCK"
definition FileStream_send :: "int outcome" where "FileStream_send = Err ENOTSOCK"
definition FileStream_sendto :: "int outcome" where "FileStream_sendto = Err ENOTSOCK"
definition FileStream_sendmsg :: "int outcome" where "FileStream_sendmsg = Err ENOTSOCK"
definition FileStream_setsockopt :: "int outcome" where "FileStream_setsockopt = Err ENOTSOCK"

definition FileStream_IsSelectReadReady :: bool where "FileStream_IsSelectReadReady = True"
definition FileStream_IsSelectWriteReady :: bool where "FileStream_IsSelectWriteReady = True"
definition FileStream_IsSelectExceptionReady :: bool where "FileStream_IsSelectExceptionReady = False"
definition FileStream_GetSize :: nat where "FileStream_GetSize = 0"

lemmas FileStream_defaults =
  FileStream_accept_def
  FileStream_bind_def
  FileStream_connect_def
  FileStream_epoll_ctl_def
  FileStream_epoll_wait_def
  FileStream_fdatasync_def
  FileStream_fsync_def
  FileStream_ftruncate_def
  FileStream_getdents_def
  FileStream_getpeername_def
  FileStream_getsockname_def
  FileStream_getsockopt_def
  FileStream_ioctl_def
  FileStream_listen_def
  FileStream_lseek_def
  FileStream_mmap_def
  FileStream_munmap_def
  FileStream_recv_def
  FileStream_recvfrom_def
  FileStream_recvmsg_def
  FileStream_send_def
  FileStream_sendto_def
  FileStream_sendmsg_def
  FileStream_setsockopt_def

text \<open>
  \<^verbatim>\<open>F_GETLK\<close> carries whether a lock record was passed; the second component of the result
  says that the record was reset to an unlocked one.
\<close>

datatype fcntl_cmd = F_GETFD | F_SETFD | F_GETLK bool | F_SETLK | F_SETLKW | F_SETLK64 | F_SETLKW64
  | F_GETFL | F_SETFL u32 | F_other int

definition FileStream_fcntl :: "fcntl_cmd \<Rightarrow> file_stream \<Rightarrow> (u32 \<times> bool) outcome \<times> file_stream" where
  "FileStream_fcntl cmd f =
     (case cmd of
        F_GETLK lk \<Rightarrow> (Ret (0, lk), f)
      | F_GETFL \<Rightarrow> (Ret (fs_oflag f, False), f)
      | F_SETFL arg \<Rightarrow> (Ret (0, False), f\<lparr>fs_oflag := arg\<rparr>)
      | F_other _ \<Rightarrow> (Err EINVAL, f)
      | _ \<Rightarrow> (Ret (0, False), f))"

datatype madv = MADV_NORMAL | MADV_RANDOM | MADV_SEQUENTIAL | MADV_WILLNEED | MADV_DONTNEED
  | MADV_REMOVE | MADV_DONTFORK | MADV_DOFORK | MADV_SOFT_OFFLINE | MADV_MERGEABLE
  | MADV_UNMERGEABLE | MADV_NOHUGEPAGE | MADV_other int

definition FileStream_madvise :: "madv \<Rightarrow> int outcome" where
  "FileStream_madvise advice =
     (case advice of
        MADV_DONTNEED \<Rightarrow> Err EINVAL
      | MADV_REMOVE \<Rightarrow> Err ENOSYS
      | MADV_other _ \<Rightarrow> Err EINVAL
      | _ \<Rightarrow> Ret 0)"

definition POLLIN :: "16 word" where "POLLIN = 1"
definition POLLOUT :: "16 word" where "POLLOUT = 4"
definition POLLERR :: "16 word" where "POLLERR = 8"
definition POLLHUP :: "16 word" where "POLLHUP = 16"
definition POLLNVAL :: "16 word" where "POLLNVAL = 32"

lemmas poll_bits = POLLIN_def POLLOUT_def POLLERR_def POLLHUP_def POLLNVAL_def

definition FileStream_GetPollEvents :: "16 word" where
  "FileStream_GetPollEvents = POLLIN OR POLLOUT"

definition O_APPEND :: u32 where "O_APPEND = 0x400"
definition O_NONBLOCK :: u32 where "O_NONBLOCK = 0x800"

section \<open>Positioned and vectored I/O\<close>

text \<open>
  \<^verbatim>\<open>pread\<close>, \<^verbatim>\<open>pwrite\<close>, \<^verbatim>\<open>readv\<close> and \<^verbatim>\<open>writev\<close> are written once in the base class on
  top of the virtual \<open>lseek\<close>, \<open>read\<close> and \<open>write\<close>, passed here as arguments acting on the
  stream's own state \<open>'s\<close>.
\<close>

datatype whence = SEEK_SET | SEEK_CUR | SEEK_END

type_synonym 's lseek_op = "int \<Rightarrow> whence \<Rightarrow> 's \<Rightarrow> int outcome \<times> 's"
type_synonym 's read_op = "nat \<Rightarrow> 's \<Rightarrow> byte list outcome \<times> 's"
type_synonym 's write_op = "byte list \<Rightarrow> 's \<Rightarrow> nat outcome \<times> 's"

definition FileStream_pread ::
  "'s lseek_op \<Rightarrow> 's read_op \<Rightarrow> nat \<Rightarrow> int \<Rightarrow> 's \<Rightarrow> byte list outcome \<times> 's" where
  "FileStream_pread lseek rd count offset s =
     (case lseek 0 SEEK_CUR s of
        (Ret original, s1) \<Rightarrow>
          (case lseek offset SEEK_SET s1 of
             (Ret _, s2) \<Rightarrow>
               let (result, s3) = rd count s2;
                   (now, s4) = lseek original SEEK_SET s3
               in (result, s4)
           | (Err e, s2) \<Rightarrow> (Err e, s2)
           | (Fatal, s2) \<Rightarrow> (Fatal, s2))
      | (Err e, s1) \<Rightarrow> (Err e, s1)
      | (Fatal, s1) \<Rightarrow> (Fatal, s1))"

definition FileStream_PwriteImpl ::
  "'s lseek_op \<Rightarrow> 's write_op \<Rightarrow> byte list \<Rightarrow> int \<Rightarrow> 's \<Rightarrow> nat outcome \<times> 's" where
  "FileStream_PwriteImpl lseek wr buf offset s =
     (case lseek 0 SEEK_CUR s of
        (Ret original, s1) \<Rightarrow>
          (case lseek offset SEEK_SET s1 of
             (Ret _, s2) \<Rightarrow>
               let (result, s3) = wr buf s2;
                   (now, s4) = lseek original SEEK_SET s3
               in (result, s4)
           | (Err e, s2) \<Rightarrow> (Err e, s2)
           | (Fatal, s2) \<Rightarrow> (Fatal, s2))
      | (Err e, s1) \<Rightarrow> (Err e, s1)
      | (Fatal, s1) \<Rightarrow> (Fatal, s1))"

definition FileStream_pwrite ::
  "u32 \<Rightarrow> 's lseek_op \<Rightarrow> 's write_op \<Rightarrow> byte list \<Rightarrow> int \<Rightarrow> 's \<Rightarrow> nat outcome \<times> 's" where
  "FileStream_pwrite oflag lseek wr buf offset s =
     (if oflag AND O_APPEND \<noteq> 0 then wr buf s
      else FileStream_PwriteImpl lseek wr buf offset s)"

definition UIO_MAXIOV :: int where "UIO_MAXIOV = 1024"
definition SSIZE_MAX :: nat where "SSIZE_MAX = 2 ^ 31 - 1"

text \<open>The loop over the vector; \<open>iov_len\<close> values as naturals (\<^verbatim>\<open>size_t\<close>).\<close>

fun verify_sizes :: "nat list \<Rightarrow> nat \<Rightarrow> errno + nat" where
  "verify_sizes [] total_size = Inr total_size"
| "verify_sizes (iov_len # iov) total_size =
     (if SSIZE_MAX - total_size < iov_len then Inl EINVAL
      else verify_sizes iov (total_size + iov_len))"

definition VerifyIoVec :: "nat list \<Rightarrow> int \<Rightarrow> errno + nat" where
  "VerifyIoVec iov iovcnt =
     (if iovcnt < 0 \<or> UIO_MAXIOV < iovcnt then Inl EINVAL
      else verify_sizes (take (nat iovcnt) iov) 0)"

text \<open>Copying the bytes read out to the pieces of the vector, while bytes are left.\<close>

fun copy_to_iov :: "nat list \<Rightarrow> byte list \<Rightarrow> byte list list" where
  "copy_to_iov [] data = []"
| "copy_to_iov (iov_len # iov) data =
     (if data = [] then []
      else take (min (length data) iov_len) data #
           copy_to_iov iov (drop (min (length data) iov_len) data))"

definition FileStream_readv ::
  "'s read_op \<Rightarrow> nat list \<Rightarrow> int \<Rightarrow> 's \<Rightarrow> (nat \<times> byte list list) outcome \<times> 's" where
  "FileStream_readv rd iov count s =
     (case VerifyIoVec iov count of
        Inl e \<Rightarrow> (Err e, s)
      | Inr total_size \<Rightarrow>
          if total_size = 0 then (Ret (0, []), s)
          else (case rd total_size s of
                  (Ret data, s') \<Rightarrow>
                    (Ret (length data, copy_to_iov (take (nat count) iov) data), s')
                | (Err e, s') \<Rightarrow> (Err e, s')
                | (Fatal, s') \<Rightarrow> (Fatal, s')))"

definition FileStream_writev ::
  "'s write_op \<Rightarrow> byte list list \<Rightarrow> int \<Rightarrow> 's \<Rightarrow> nat outcome \<times> 's" where
  "FileStream_writev wr iov count s =
     (case VerifyIoVec (map length iov) count of
        Inl e \<Rightarrow> (Err e, s)
      | Inr total_size \<Rightarrow>
          if total_size = 0 then (Ret 0, s)
          else wr (concat (take (nat count) iov)) s)"

section \<open>Library lemmas\<close>

lemma w_streams_upd_stream [simp]:
  "w_streams (upd_stream s f w) = (w_streams w)(s := f (w_streams w s))"
  by (simp add: upd_stream_def)

lemma more_upd_stream [simp]: "world.more (upd_stream s f w) = world.more w"
  by (simp add: upd_stream_def)

lemma verify_sizes_eq:
  "t \<le> SSIZE_MAX \<Longrightarrow>
   verify_sizes iov t = (if t + sum_list iov \<le> SSIZE_MAX then Inr (t + sum_list iov) else Inl EINVAL)"
  by (induction iov t rule: verify_sizes.induct) (auto simp: add.assoc)

lemma VerifyIoVec_eq:
  "VerifyIoVec iov iovcnt =
     (if 0 \<le> iovcnt \<and> iovcnt \<le> UIO_MAXIOV \<and> sum_list (take (nat iovcnt) iov) \<le> SSIZE_MAX
      then Inr (sum_list (take (nat iovcnt) iov)) else Inl EINVAL)"
  by (auto simp: VerifyIoVec_def verify_sizes_eq)

lemma copy_to_iov_concat:
  "length data \<le> sum_list iov \<Longrightarrow> concat (copy_to_iov iov data) = data"
  by (induction iov data rule: copy_to_iov.induct) (auto simp: min_def)

lemma copy_to_iov_fits:
  "i < length (copy_to_iov iov data) \<Longrightarrow> i < length iov \<and> length (copy_to_iov iov data ! i) \<le> iov ! i"
proof (induction iov data arbitrary: i rule: copy_to_iov.induct)
  case (2 iov_len iov data)
  then show ?case by (cases i) (auto split: if_splits)
qed simp

section \<open>Properties\<close>

text \<open>
  \<open>VerifyIoVec\<close> accepts exactly the vectors with a count between 0 and \<open>UIO_MAXIOV\<close>
  whose total size fits \<open>ssize_t\<close>, and then returns that total; it never overflows on the
  way.
\<close>

theorem VerifyIoVec_correct:
  "VerifyIoVec iov iovcnt =
     (if 0 \<le> iovcnt \<and> iovcnt \<le> UIO_MAXIOV \<and> sum_list (take (nat iovcnt) iov) \<le> SSIZE_MAX
      then Inr (sum_list (take (nat iovcnt) iov)) else Inl EINVAL)"
  by (rule VerifyIoVec_eq)

text \<open>
  \<open>FileStream::readv\<close>: given a virtual \<open>read\<close> that never returns more bytes than asked
  for, a successful call distributes exactly the bytes of one \<open>read\<close> over the vector, in
  order, and never writes past the end of a piece.
\<close>

theorem readv_scatters:
  assumes rd: "\<And>k u data u'. rd k u = (Ret data, u') \<Longrightarrow> length data \<le> k"
    and ok: "FileStream_readv rd iov count s = (Ret (n, pieces), s')"
    and pos: "0 < n"
  shows "(\<exists>data. rd (sum_list (take (nat count) iov)) s = (Ret data, s') \<and>
            concat pieces = data \<and> n = length data)
    \<and> (\<forall>i < length pieces. length (pieces ! i) \<le> iov ! i)"
proof -
  let ?iov = "take (nat count) iov"
  from ok pos have v: "VerifyIoVec iov count = Inr (sum_list ?iov)"
    by (auto simp: FileStream_readv_def VerifyIoVec_eq split: if_splits)
  from ok pos v obtain data where d: "rd (sum_list ?iov) s = (Ret data, s')"
    and p: "n = length data" "pieces = copy_to_iov ?iov data"
    by (auto simp: FileStream_readv_def split: if_splits prod.splits outcome.splits)
  have "concat pieces = data"
    using rd [OF d] p by (simp add: copy_to_iov_concat)
  moreover have "length (pieces ! i) \<le> iov ! i" if "i < length pieces" for i
    using copy_to_iov_fits [of i ?iov data] that p by auto
  ultimately show ?thesis using d p(1) by blast
qed

theorem readv_scatters_witness:
  "FileStream_readv (\<lambda>k u. (Ret (take k [1, 2, 3]), u)) [2, 5] 2 () = (Ret (3, [[1, 2], [3]]), ())
   \<and> length ([[1, 2], [3 :: byte]] ! 0) \<le> [2, 5 :: nat] ! 0 \<and> length ([[1, 2], [3 :: byte]] ! 1) \<le> [2, 5 :: nat] ! 1"
proof -
  let ?rd = "\<lambda>k u. (Ret (take k [1, 2, 3 :: byte]), u :: unit)"
  have ok: "FileStream_readv ?rd [2, 5] 2 () = (Ret (3, [[1, 2], [3]]), ())"
    by (simp add: FileStream_readv_def VerifyIoVec_eq UIO_MAXIOV_def SSIZE_MAX_def)
  have "\<forall>i < length [[1, 2], [3 :: byte]]. length ([[1, 2], [3 :: byte]] ! i) \<le> [2, 5 :: nat] ! i"
    using readv_scatters [of ?rd, OF _ ok] by simp
  with ok show ?thesis by auto
qed

end
