(* ===== verification/Fd_Map.thy ===== *)
theory Fd_Map
  imports File_Stream
begin

text \<open>
  The descriptor table: \<^verbatim>\<open>src/src/posix_translation/fd_to_file_stream_map.cc\<close>.
  A reserved descriptor without a stream (the code's NULL) is mapped to \<open>None\<close>. The
  vector of free descriptors is kept as a binary heap in the code; only its least element
  is ever observed, so the model keeps the elements and takes their minimum.
\<close>

section \<open>The table\<close>

record fd_map =
  fm_streams :: "(int, sid option) smap"
  fm_unused_fds :: "int list"
  fm_min_file_id :: int
  fm_max_file_id :: int

definition FdToFileStreamMap :: "int \<Rightarrow> int \<Rightarrow> fd_map" where
  "FdToFileStreamMap min_file_id max_file_id =
     \<lparr>fm_streams = [], fm_unused_fds = [min_file_id .. max_file_id],
      fm_min_file_id = min_file_id, fm_max_file_id = max_file_id\<rparr>"

text \<open>\<^verbatim>\<open>front\<close>, \<^verbatim>\<open>pop_heap\<close> with \<^verbatim>\<open>pop_back\<close>, and \<^verbatim>\<open>push_heap\<close> on the min-heap.\<close>

definition heap_front :: "int list \<Rightarrow> int" where
  "heap_front h = Min (set h)"

definition heap_pop :: "int list \<Rightarrow> int list" where
  "heap_pop h = remove1 (heap_front h) h"

definition heap_push :: "int \<Rightarrow> int list \<Rightarrow> int list" where
  "heap_push fd h = h @ [fd]"

definition AddFileStream :: "int \<Rightarrow> sid option \<Rightarrow> fd_map \<times> 'a world_scheme \<Rightarrow> fd_map \<times> 'a world_scheme" where
  "AddFileStream fd stream = (\<lambda>(m, w).
     let w' = (case stream of Some s \<Rightarrow> AddFileRef s w | None \<Rightarrow> w) in
     case map_of (fm_streams m) fd of
       None \<Rightarrow>
         (m\<lparr>fm_streams := smap_put fd stream (fm_streams m),
            fm_unused_fds := filter (\<lambda>x. x \<noteq> fd) (fm_unused_fds m)\<rparr>, w')
     | Some _ \<Rightarrow> (m\<lparr>fm_streams := smap_put fd stream (fm_streams m)\<rparr>, w'))"

definition ReplaceFileStream ::
  "'a world_scheme vtable \<Rightarrow> int \<Rightarrow> sid \<Rightarrow> fd_map \<times> 'a world_scheme \<Rightarrow> (fd_map \<times> 'a world_scheme) outcome" where
  "ReplaceFileStream vt fd stream = (\<lambda>(m, w).
     case map_of (fm_streams m) fd of
       Some (Some old_stream) \<Rightarrow>
         if stream \<noteq> old_stream then
           Ret (m\<lparr>fm_streams := smap_put fd (Some stream) (fm_streams m)\<rparr>,
                ReleaseFileRef vt old_stream (AddFileRef stream w))
         else Ret (m, w)
     | _ \<Rightarrow> Fatal)"

definition RemoveFileStream ::
  "'a world_scheme vtable \<Rightarrow> int \<Rightarrow> fd_map \<times> 'a world_scheme \<Rightarrow> (fd_map \<times> 'a world_scheme) outcome" where
  "RemoveFileStream vt fd = (\<lambda>(m, w).
     case map_of (fm_streams m) fd of
       None \<Rightarrow> Fatal
     | Some old_stream \<Rightarrow>
         let m' = m\<lparr>fm_streams := smap_del fd (fm_streams m),
                     fm_unused_fds := heap_push fd (fm_unused_fds m)\<rparr>
         in case old_stream of
              None \<Rightarrow> Ret (m', w)
            | Some s \<Rightarrow> Ret (m', ReleaseFileRef vt s w))"

definition GetFirstUnusedDescriptor :: "fd_map \<times> 'a world_scheme \<Rightarrow> int \<times> fd_map \<times> 'a world_scheme" where
  "GetFirstUnusedDescriptor = (\<lambda>(m, w).
     let fd = (if fm_unused_fds m = [] then - 1 else heap_front (fm_unused_fds m)) in
     if fd \<noteq> - 1
     then (fd, AddFileStream fd None (m\<lparr>fm_unused_fds := heap_pop (fm_unused_fds m)\<rparr>, w))
     else (fd, m, w))"

definition IsKnownDescriptor :: "int \<Rightarrow> fd_map \<Rightarrow> bool" where
  "IsKnownDescriptor fd m \<longleftrightarrow> map_of (fm_streams m) fd \<noteq> None"

definition GetStream :: "int \<Rightarrow> fd_map \<Rightarrow> sid option" where
  "GetStream fd m = (case map_of (fm_streams m) fd of Some s \<Rightarrow> s | None \<Rightarrow> None)"

text \<open>The destructor releases the file reference of every stream still in the table.\<close>

definition FdToFileStreamMap_destroy :: "'a world_scheme vtable \<Rightarrow> fd_map \<times> 'a world_scheme \<Rightarrow> 'a world_scheme" where
  "FdToFileStreamMap_destroy vt = (\<lambda>(m, w).
     fold (\<lambda>(fd, stream) w. case stream of Some s \<Rightarrow> ReleaseFileRef vt s w | None \<Rightarrow> w)
       (fm_streams m) w)"

section \<open>Invariants\<close>

definition fd_inv :: "fd_map \<Rightarrow> bool" where
  "fd_inv m \<longleftrightarrow> smap_ok (fm_streams m) \<and> distinct (fm_unused_fds m) \<and>
     set (fm_unused_fds m) \<inter> dom (map_of (fm_streams m)) = {} \<and>
     {fm_min_file_id m .. fm_max_file_id m} \<subseteq> set (fm_unused_fds m) \<union> dom (map_of (fm_streams m))"

text \<open>Only descriptors between the two limits have been handed to the table so far.\<close>

definition fd_in_range :: "fd_map \<Rightarrow> bool" where
  "fd_in_range m \<longleftrightarrow>
     set (fm_unused_fds m) \<union> dom (map_of (fm_streams m)) \<subseteq> {fm_min_file_id m .. fm_max_file_id m}"

definition fd_count :: "fd_map \<Rightarrow> sid \<Rightarrow> nat" where
  "fd_count m s = length (filter (\<lambda>p. snd p = Some s) (fm_streams m))"

text \<open>The file reference count of a stream is the number of descriptors bound to it.\<close>

definition refs_exact :: "fd_map \<Rightarrow> 'a world_scheme \<Rightarrow> bool" where
  "refs_exact m w \<longleftrightarrow>
     (\<forall>s. fs_file_ref_count (w_streams w s) = int (fd_count m s) \<and>
          (0 < fd_count m s \<longrightarrow> fs_had_file_refs (w_streams w s)))"

lemma heap_front_in: "h \<noteq> [] \<Longrightarrow> heap_front h \<in> set h"
  by (simp add: heap_front_def)

lemma heap_front_le: "x \<in> set h \<Longrightarrow> heap_front h \<le> x"
  by (simp add: heap_front_def)

lemma set_heap_pop: "distinct h \<Longrightarrow> set (heap_pop h) = set h - {heap_front h}"
  by (simp add: heap_pop_def)

lemma count_put:
  "smap_ok m \<Longrightarrow>
   length (filter (\<lambda>p. P (snd p)) (smap_put k v m)) +
     (case map_of m k of Some u \<Rightarrow> if P u then 1 else 0 | None \<Rightarrow> 0) =
   length (filter (\<lambda>p. P (snd p)) m) + (if P v then 1 else 0)"
proof (induction k v m rule: smap_put.induct)
  case (2 k v a b m)
  then show ?case
    using smap_ok_less_notin [of a b m k] by auto
qed simp

lemma count_del:
  "smap_ok m \<Longrightarrow>
   length (filter (\<lambda>p. P (snd p)) (smap_del k m)) +
     (case map_of m k of Some u \<Rightarrow> if P u then 1 else 0 | None \<Rightarrow> 0) =
   length (filter (\<lambda>p. P (snd p)) m)"
  by (induction k m rule: smap_del.induct) auto

lemma fd_count_put:
  assumes "fd_inv m"
  shows "fd_count (m\<lparr>fm_streams := smap_put fd v (fm_streams m)\<rparr>) s
      + (if map_of (fm_streams m) fd = Some (Some s) then 1 else 0) =
    fd_count m s + (if v = Some s then 1 else 0)"
  using assms count_put [of "fm_streams m" "\<lambda>u. u = Some s" fd v]
  by (auto simp: fd_inv_def fd_count_def split: option.splits if_splits)

lemma fd_count_del:
  assumes "fd_inv m"
  shows "fd_count (m\<lparr>fm_streams := smap_del fd (fm_streams m)\<rparr>) s
      + (if map_of (fm_streams m) fd = Some (Some s) then 1 else 0) = fd_count m s"
  using assms count_del [of "fm_streams m" "\<lambda>u. u = Some s" fd]
  by (auto simp: fd_inv_def fd_count_def split: option.splits if_splits)

lemma fd_count_unused [simp]: "fd_count (m\<lparr>fm_unused_fds := u\<rparr>) s = fd_count m s"
  by (simp add: fd_count_def)

lemma fd_count_pos: "map_of (fm_streams m) fd = Some (Some s) \<Longrightarrow> 0 < fd_count m s"
  by (force simp: fd_count_def filter_empty_conv dest: map_of_SomeD)

section \<open>Virtual functions leave the reference counts alone\<close>

text \<open>
  What the table needs of the callbacks that a closing stream runs: they do not touch any
  stream's reference count.
\<close>

locale quiet_vtable =
  fixes vt :: "'a world_scheme vtable"
  assumes notify_refs:
      "fs_file_ref_count (w_streams (vt_HandleNotificationFrom vt l s c w) t) =
         fs_file_ref_count (w_streams w t)"
    and notify_had:
      "fs_had_file_refs (w_streams (vt_HandleNotificationFrom vt l s c w) t) =
         fs_had_file_refs (w_streams w t)"
    and last_refs:
      "fs_file_ref_count (w_streams (vt_OnLastFileRef vt s w) t) = fs_file_ref_count (w_streams w t)"
    and last_had:
      "fs_had_file_refs (w_streams (vt_OnLastFileRef vt s w) t) = fs_had_file_refs (w_streams w t)"
begin

lemma fold_notify:
  "fs_file_ref_count (w_streams (fold (\<lambda>l. vt_HandleNotificationFrom vt l s c) ls w) t) =
     fs_file_ref_count (w_streams w t) \<and>
   fs_had_file_refs (w_streams (fold (\<lambda>l. vt_HandleNotificationFrom vt l s c) ls w) t) =
     fs_had_file_refs (w_streams w t)"
  by (induction ls arbitrary: w) (simp_all add: notify_refs notify_had)

lemma ReleaseFileRef_refs:
  "fs_file_ref_count (w_streams (ReleaseFileRef vt s w) t) =
     fs_file_ref_count (w_streams w t) - (if t = s then 1 else 0)"
  "fs_had_file_refs (w_streams (ReleaseFileRef vt s w) t) = fs_had_file_refs (w_streams w t)"
  by (auto simp: ReleaseFileRef_def Let_def last_refs last_had fold_notify)

lemma remove_keeps_refs:
  assumes "fd_inv m" "refs_exact m w" "RemoveFileStream vt fd (m, w) = Ret (m', w')"
  shows "refs_exact m' w'"
proof -
  have c: "fd_count m' s + (if map_of (fm_streams m) fd = Some (Some s) then 1 else 0) = fd_count m s" for s
    using fd_count_del [OF assms(1), of fd s] assms(3)
    by (auto simp: RemoveFileStream_def Let_def fd_count_def split: option.splits)
  have r: "fs_file_ref_count (w_streams w' s) = fs_file_ref_count (w_streams w s)
      - (if map_of (fm_streams m) fd = Some (Some s) then 1 else 0)"
    "fs_had_file_refs (w_streams w' s) = fs_had_file_refs (w_streams w s)" for s
    using assms(3)
    by (auto simp: RemoveFileStream_def Let_def ReleaseFileRef_refs split: option.splits)
  show ?thesis
    unfolding refs_exact_def
  proof (intro allI conjI impI)
    fix s
    show "fs_file_ref_count (w_streams w' s) = int (fd_count m' s)"
      using assms(2) c [of s] r(1) [of s] by (auto simp: refs_exact_def split: if_splits)
    assume "0 < fd_count m' s"
    then have "0 < fd_count m s" using c [of s] by linarith
    then show "fs_had_file_refs (w_streams w' s)"
      using assms(2) r(2) by (simp add: refs_exact_def)
  qed
qed

lemma replace_keeps_refs:
  assumes "fd_inv m" "refs_exact m w" "ReplaceFileStream vt fd s0 (m, w) = Ret (m', w')"
  shows "refs_exact m' w'"
proof (cases "map_of (fm_streams m) fd = Some (Some s0)")
  case True
  with assms show ?thesis by (simp add: ReplaceFileStream_def)
next
  case False
  with assms(3) obtain old where old: "map_of (fm_streams m) fd = Some (Some old)" "s0 \<noteq> old"
    and m': "m' = m\<lparr>fm_streams := smap_put fd (Some s0) (fm_streams m)\<rparr>"
    and w': "w' = ReleaseFileRef vt old (AddFileRef s0 w)"
    by (auto simp: ReplaceFileStream_def split: option.splits if_splits)
  have c: "fd_count m' s + (if s = old then 1 else 0) = fd_count m s + (if s = s0 then 1 else 0)" for s
    using fd_count_put [OF assms(1), of fd "Some s0" s] old by (simp add: m' split: if_splits)
  show ?thesis
    unfolding refs_exact_def
  proof (intro allI conjI impI)
    fix s
    show "fs_file_ref_count (w_streams w' s) = int (fd_count m' s)"
      using assms(2) c [of s] old(2)
      by (auto simp: refs_exact_def w' ReleaseFileRef_refs AddFileRef_def split: if_splits)
    assume "0 < fd_count m' s"
    then show "fs_had_file_refs (w_streams w' s)"
      using assms(2) c [of s]
      by (auto simp: refs_exact_def w' ReleaseFileRef_refs AddFileRef_def split: if_splits)
  qed
qed

end

text \<open>The base class's own virtual functions do nothing.\<close>

definition FileStream_vtable :: "'w vtable" where
  "FileStream_vtable = \<lparr>vt_HandleNotificationFrom = (\<lambda>l s c w. w), vt_OnLastFileRef = (\<lambda>s w. w)\<rparr>"

interpretation base_vt: quiet_vtable FileStream_vtable
  by unfold_locales (simp_all add: FileStream_vtable_def)

section \<open>Operations keep the invariants\<close>

lemma FdToFileStreamMap_inv:
  "fd_inv (FdToFileStreamMap a b)" "fd_in_range (FdToFileStreamMap a b)"
  "fd_count (FdToFileStreamMap a b) s = 0"
  by (auto simp: FdToFileStreamMap_def fd_inv_def fd_in_range_def fd_count_def)

lemma fst_AddFileStream:
  "fst (AddFileStream fd st (m, w)) =
     (if fd \<in> dom (map_of (fm_streams m)) then m\<lparr>fm_streams := smap_put fd st (fm_streams m)\<rparr>
      else m\<lparr>fm_streams := smap_put fd st (fm_streams m),
             fm_unused_fds := filter (\<lambda>x. x \<noteq> fd) (fm_unused_fds m)\<rparr>)"
  by (auto simp: AddFileStream_def Let_def split: option.splits)

lemma add_inv: "fd_inv m \<Longrightarrow> fd_inv (fst (AddFileStream fd st (m, w)))"
  unfolding fst_AddFileStream by (auto simp: fd_inv_def smap_simps)

lemma add_keeps_refs:
  assumes "fd_inv m" "refs_exact m w" "map_of (fm_streams m) fd \<in> {None, Some None}"
    and "AddFileStream fd st (m, w) = (m', w')"
  shows "refs_exact m' w'"
proof -
  have "fd_count m' s = fd_count m s + (if st = Some s then 1 else 0)" for s
  proof -
    have "m' = fst (AddFileStream fd st (m, w))" using assms(4) by simp
    then have "fd_count m' s = fd_count (m\<lparr>fm_streams := smap_put fd st (fm_streams m)\<rparr>) s"
      by (simp add: fst_AddFileStream fd_count_def)
    then show ?thesis using fd_count_put [OF assms(1), of fd st s] assms(3) by auto
  qed
  moreover have "w' = (case st of Some s \<Rightarrow> AddFileRef s w | None \<Rightarrow> w)"
    using assms(4) by (auto simp: AddFileStream_def Let_def split: option.splits)
  ultimately show ?thesis
    using assms(2) by (auto simp: refs_exact_def AddFileRef_def split: option.splits)
qed

lemma RemoveFileStream_table:
  "RemoveFileStream vt fd (m, w) = Ret (m', w') \<Longrightarrow>
   map_of (fm_streams m) fd \<noteq> None \<and>
   m' = m\<lparr>fm_streams := smap_del fd (fm_streams m), fm_unused_fds := heap_push fd (fm_unused_fds m)\<rparr>"
  by (auto simp: RemoveFileStream_def Let_def split: option.splits)

lemma remove_inv:
  assumes "fd_inv m" "RemoveFileStream vt fd (m, w) = Ret (m', w')"
  shows "fd_inv m'"
proof -
  have d: "dom ((map_of (fm_streams m))(fd := None)) = dom (map_of (fm_streams m)) - {fd}" by auto
  have "fd \<in> dom (map_of (fm_streams m))" using RemoveFileStream_table [OF assms(2)] by auto
  with assms(1) show ?thesis
    unfolding fd_inv_def
    using RemoveFileStream_table [OF assms(2)]
    by (auto simp: map_of_smap_del heap_push_def smap_simps d)
qed

lemma replace_inv:
  "fd_inv m \<Longrightarrow> ReplaceFileStream vt fd s (m, w) = Ret (m', w') \<Longrightarrow> fd_inv m'"
  by (auto simp: ReplaceFileStream_def fd_inv_def smap_simps split: option.splits if_splits)

lemma GetFirstUnusedDescriptor_table:
  assumes inv: "fd_inv m" and ne: "fm_unused_fds m \<noteq> []" and m1: "heap_front (fm_unused_fds m) \<noteq> - 1"
  shows "GetFirstUnusedDescriptor (m, w) =
    (heap_front (fm_unused_fds m),
     m\<lparr>fm_streams := smap_put (heap_front (fm_unused_fds m)) None (fm_streams m),
       fm_unused_fds := heap_pop (fm_unused_fds m)\<rparr>, w)"
proof -
  let ?fd = "heap_front (fm_unused_fds m)"
  have "?fd \<notin> dom (map_of (fm_streams m))"
    using inv heap_front_in [OF ne] by (auto simp: fd_inv_def)
  then have "map_of (fm_streams m) ?fd = None" by auto
  moreover have "filter (\<lambda>x. x \<noteq> ?fd) (heap_pop (fm_unused_fds m)) = heap_pop (fm_unused_fds m)"
    using inv by (auto simp: fd_inv_def set_heap_pop intro!: filter_True)
  ultimately show ?thesis
    using ne m1 by (simp add: GetFirstUnusedDescriptor_def AddFileStream_def Let_def)
qed

lemma get_first_inv:
  assumes "fd_inv m" "refs_exact m w" "GetFirstUnusedDescriptor (m, w) = (fd, m', w')"
  shows "fd_inv m'" "refs_exact m' w'"
proof -
  have "fd_inv m' \<and> refs_exact m' w'"
  proof (cases "fm_unused_fds m = [] \<or> heap_front (fm_unused_fds m) = - 1")
    case True
    with assms show ?thesis by (auto simp: GetFirstUnusedDescriptor_def Let_def split: if_splits)
  next
    case b: False
    then have False: "fm_unused_fds m \<noteq> []" by simp
    let ?fd = "heap_front (fm_unused_fds m)"
    note eq = GetFirstUnusedDescriptor_table [OF assms(1) False, of w, THEN trans [OF sym [OF assms(3)]]]
    have n: "map_of (fm_streams m) ?fd = None"
      using assms(1) heap_front_in [OF False] by (auto simp: fd_inv_def)
    have d: "distinct (fm_unused_fds m)" using assms(1) by (simp add: fd_inv_def)
    have m': "m' = m\<lparr>fm_streams := smap_put ?fd None (fm_streams m),
                      fm_unused_fds := heap_pop (fm_unused_fds m)\<rparr>"
      using eq b by simp
    have "distinct (heap_pop (fm_unused_fds m))" using d by (simp add: heap_pop_def)
    moreover have "dom (map_of (fm_streams m')) = insert ?fd (dom (map_of (fm_streams m)))"
      by (simp add: m' map_of_smap_put)
    moreover have "smap_ok (fm_streams m')" using assms(1) by (simp add: m' smap_simps fd_inv_def)
    moreover have "?fd \<in> set (fm_unused_fds m)" by (rule heap_front_in [OF False])
    ultimately have "fd_inv m'"
      using assms(1) set_heap_pop [OF d] unfolding fd_inv_def m' by auto
    moreover have "fd_count m' s = fd_count m s" for s
      using fd_count_put [OF assms(1), of ?fd None s] n by (simp add: m')
    ultimately show ?thesis using assms(2) eq b by (simp add: refs_exact_def)
  qed
  then show "fd_inv m'" "refs_exact m' w'" by auto
qed

section \<open>Runs of the table\<close>

text \<open>
  One step is one call on the table, guarded by the assertions of the code: a stream is only
  put under a descriptor that holds none, and \<open>ReplaceFileStream\<close> and \<open>RemoveFileStream\<close> are
  only called on known descriptors (otherwise they are \<open>Fatal\<close>).
\<close>

inductive fd_step :: "'a world_scheme vtable \<Rightarrow> fd_map \<times> 'a world_scheme \<Rightarrow> fd_map \<times> 'a world_scheme \<Rightarrow> bool"
  for vt :: "'a world_scheme vtable" where
  step_add: "GetStream fd (fst c) = None \<Longrightarrow> fd_step vt c (AddFileStream fd st c)"
| step_replace: "ReplaceFileStream vt fd s c = Ret c' \<Longrightarrow> fd_step vt c c'"
| step_remove: "RemoveFileStream vt fd c = Ret c' \<Longrightarrow> fd_step vt c c'"
| step_reserve: "GetFirstUnusedDescriptor c = (fd, c') \<Longrightarrow> fd_step vt c c'"

inductive_cases fd_stepE: "fd_step vt c c'"

lemma GetStream_None: "GetStream fd m = None \<longleftrightarrow> map_of (fm_streams m) fd \<in> {None, Some None}"
  by (auto simp: GetStream_def split: option.splits)

lemma fd_step_inv: "fd_step vt c c' \<Longrightarrow> fd_inv (fst c) \<Longrightarrow> refs_exact (fst c) (snd c) \<Longrightarrow> fd_inv (fst c')"
proof (induction rule: fd_step.induct)
  case (step_add fd c st)
  then show ?case using add_inv [of "fst c" fd st "snd c"] by simp
next
  case (step_replace fd s c c')
  then show ?case using replace_inv [of "fst c" vt fd s "snd c" "fst c'" "snd c'"] by simp
next
  case (step_remove fd c c')
  then show ?case using remove_inv [of "fst c" vt fd "snd c" "fst c'" "snd c'"] by simp
next
  case (step_reserve c fd c')
  then show ?case using get_first_inv(1) [of "fst c" "snd c" fd "fst c'" "snd c'"] by simp
qed

context quiet_vtable
begin

lemma fd_step_refs:
  "fd_step vt c c' \<Longrightarrow> fd_inv (fst c) \<Longrightarrow> refs_exact (fst c) (snd c) \<Longrightarrow> refs_exact (fst c') (snd c')"
proof (induction rule: fd_step.induct)
  case (step_add fd c st)
  then show ?case
    using add_keeps_refs [of "fst c" "snd c" fd st "fst (AddFileStream fd st c)" "snd (AddFileStream fd st c)"]
    by (simp add: GetStream_None)
next
  case (step_replace fd s c c')
  then show ?case using replace_keeps_refs [of "fst c" "snd c" fd s "fst c'" "snd c'"] by simp
next
  case (step_remove fd c c')
  then show ?case using remove_keeps_refs [of "fst c" "snd c" fd "fst c'" "snd c'"] by simp
next
  case (step_reserve c fd c')
  then show ?case using get_first_inv(2) [of "fst c" "snd c" fd "fst c'" "snd c'"] by simp
qed

lemma fd_run:
  assumes "(fd_step vt)\<^sup>*\<^sup>* c c'" "fd_inv (fst c)" "refs_exact (fst c) (snd c)"
  shows "fd_inv (fst c') \<and> refs_exact (fst c') (snd c')"
  using assms by (induction rule: rtranclp_induct) (auto dest: fd_step_inv fd_step_refs)

end

section \<open>Properties\<close>

text \<open>
  When no free descriptor is negative, \<open>GetFirstUnusedDescriptor\<close> returns -1 without any effect exactly when no descriptor is
  free; otherwise it returns the least free descriptor, which was unknown before and is known
  (with no stream) afterwards, and every other descriptor keeps its binding. If some
  descriptor between the limits is unbound, the call cannot fail and its result is no larger.
\<close>

theorem GetFirstUnusedDescriptor_lowest:
  assumes inv: "fd_inv m" and res: "GetFirstUnusedDescriptor (m, w) = (fd, m', w')"
    and nonneg: "\<forall>x \<in> set (fm_unused_fds m). 0 \<le> x"
  shows "w' = w \<and>
    (if fm_unused_fds m = [] then fd = - 1 \<and> m' = m
     else \<not> IsKnownDescriptor fd m \<and> IsKnownDescriptor fd m' \<and> GetStream fd m' = None \<and>
          (\<forall>x. x \<noteq> fd \<longrightarrow> map_of (fm_streams m') x = map_of (fm_streams m) x)) \<and>
    (\<forall>x. fm_min_file_id m \<le> x \<and> x \<le> fm_max_file_id m \<and> \<not> IsKnownDescriptor x m \<longrightarrow>
       fm_unused_fds m \<noteq> [] \<and> fd \<le> x)"
proof (intro conjI allI impI)
  show "w' = w" using res
    by (auto simp: GetFirstUnusedDescriptor_def AddFileStream_def Let_def split: if_splits option.splits)
  have eq: "fd = heap_front (fm_unused_fds m)"
      "m' = m\<lparr>fm_streams := smap_put fd None (fm_streams m), fm_unused_fds := heap_pop (fm_unused_fds m)\<rparr>"
    if "fm_unused_fds m \<noteq> []"
    using GetFirstUnusedDescriptor_table [OF inv that, of w] heap_front_in [OF that] nonneg res
    by auto
  have unknown: "fd \<notin> dom (map_of (fm_streams m))" if "fm_unused_fds m \<noteq> []"
    using eq(1) [OF that] heap_front_in [OF that] inv by (auto simp only: fd_inv_def)
  show "if fm_unused_fds m = [] then fd = - 1 \<and> m' = m
     else \<not> IsKnownDescriptor fd m \<and> IsKnownDescriptor fd m' \<and> GetStream fd m' = None \<and>
          (\<forall>x. x \<noteq> fd \<longrightarrow> map_of (fm_streams m') x = map_of (fm_streams m) x)"
  proof (cases "fm_unused_fds m = []")
    case True
    with res show ?thesis by (simp add: GetFirstUnusedDescriptor_def)
  next
    case False
    then show ?thesis
      using eq(2) unknown by (simp add: IsKnownDescriptor_def GetStream_def map_of_smap_put domIff)
  qed
next
  fix x
  assume "fm_min_file_id m \<le> x \<and> x \<le> fm_max_file_id m \<and> \<not> IsKnownDescriptor x m"
  then have x: "x \<in> set (fm_unused_fds m)"
    using inv by (auto simp: fd_inv_def IsKnownDescriptor_def)
  then show ne: "fm_unused_fds m \<noteq> []" by auto
  show "fd \<le> x"
    using GetFirstUnusedDescriptor_table [OF inv ne, of w] heap_front_in [OF ne] nonneg res heap_front_le [OF x]
    by auto
qed

text \<open>A small table: descriptor 0 is bound to stream 7, descriptors 1 and 2 are free.\<close>

definition small_table :: fd_map where
  "small_table = \<lparr>fm_streams = [(0, Some 7)], fm_unused_fds = [2, 1], fm_min_file_id = 0, fm_max_file_id = 2\<rparr>"

lemma small_table_inv: "fd_inv small_table"
proof -
  have "{0 .. 2 :: int} = {0, 1, 2}" by auto
  then show ?thesis by (auto simp: small_table_def fd_inv_def)
qed

theorem GetFirstUnusedDescriptor_lowest_witness:
  "fst (GetFirstUnusedDescriptor (small_table, \<lparr>w_streams = \<lambda>_. FileStream 0 [] 0\<rparr>)) = 1 \<and>
   IsKnownDescriptor 1 (fst (snd (GetFirstUnusedDescriptor (small_table, \<lparr>w_streams = \<lambda>_. FileStream 0 [] 0\<rparr>))))"
proof -
  let ?w = "\<lparr>w_streams = \<lambda>_. FileStream 0 [] 0\<rparr>"
  have fd: "fst (GetFirstUnusedDescriptor (small_table, ?w)) = 1"
    by (simp add: GetFirstUnusedDescriptor_def small_table_def heap_front_def heap_pop_def Let_def)
  have ne: "fm_unused_fds small_table \<noteq> []" by (simp add: small_table_def)
  obtain fd m' w' where r: "GetFirstUnusedDescriptor (small_table, ?w) = (fd, m', w')"
    by (metis prod.exhaust)
  show ?thesis
    using GetFirstUnusedDescriptor_lowest [OF small_table_inv r] ne fd r by (simp add: small_table_def)
qed

text \<open>
  C4. In every state reached from a fresh table (with callbacks that leave reference counts
  alone, here those of the base class), the free list and the bound descriptors partition the
  descriptors, and each stream's file reference count is exactly the number of descriptors
  bound to it: no stream is closed while a descriptor still names it, and none is kept open
  by the table after its last descriptor is gone.
\<close>

theorem fd_table_reachable:
  assumes run: "(fd_step FileStream_vtable)\<^sup>*\<^sup>* (FdToFileStreamMap lo hi, w) (m, w')"
    and fresh: "\<forall>s. fs_file_ref_count (w_streams w s) = 0"
  shows "fd_inv m \<and> (\<forall>s. fs_file_ref_count (w_streams w' s) = int (fd_count m s)) \<and>
    (\<forall>fd s. GetStream fd m = Some s \<longrightarrow> \<not> IsClosed (w_streams w' s))"
proof -
  have "refs_exact (FdToFileStreamMap lo hi) w"
    using fresh by (simp add: refs_exact_def FdToFileStreamMap_inv)
  then have inv: "fd_inv m \<and> refs_exact m w'"
    using base_vt.fd_run [OF run] by (simp add: FdToFileStreamMap_inv)
  moreover have "\<not> IsClosed (w_streams w' s)" if "GetStream fd m = Some s" for fd s
  proof -
    from that have "map_of (fm_streams m) fd = Some (Some s)"
      by (auto simp: GetStream_def split: option.splits)
    then have "0 < fd_count m s" by (rule fd_count_pos)
    with inv show ?thesis by (auto simp: refs_exact_def IsClosed_def)
  qed
  ultimately show ?thesis by (auto simp: refs_exact_def)
qed

theorem fd_table_reachable_witness:
  "fs_file_ref_count (w_streams (snd (AddFileStream 0 (Some 7)
      (FdToFileStreamMap 0 1, \<lparr>w_streams = \<lambda>_. FileStream 0 [] 0\<rparr>))) 7) =
   int (fd_count (fst (AddFileStream 0 (Some 7)
      (FdToFileStreamMap 0 1, \<lparr>w_streams = \<lambda>_. FileStream 0 [] 0\<rparr>))) 7)"
proof -
  let ?c = "(FdToFileStreamMap 0 1, \<lparr>w_streams = \<lambda>_. FileStream 0 [] 0\<rparr>)"
  let ?d = "AddFileStream 0 (Some 7) ?c"
  have "fd_step FileStream_vtable ?c ?d"
    by (rule step_add) (simp add: GetStream_def FdToFileStreamMap_def)
  then have "(fd_step FileStream_vtable)\<^sup>*\<^sup>* ?c (fst ?d, snd ?d)" by simp
  then show ?thesis
    using fd_table_reachable [of 0 1 "\<lparr>w_streams = \<lambda>_. FileStream 0 [] 0\<rparr>" "fst ?d" "snd ?d"]
    by (simp add: FileStream_def)
qed

text \<open>
  The range of the table is not enforced: a descriptor above the maximum that was added
  and removed is put on the free list and handed out once the regular ones are gone.
\<close>

theorem fd_out_of_range_reused:
  "(let w = \<lparr>w_streams = \<lambda>_. FileStream 0 [] 0\<rparr>;
        c = AddFileStream 10 (Some 7) (AddFileStream 3 (Some 7) (FdToFileStreamMap 3 3, w))
    in case RemoveFileStream FileStream_vtable 10 c of
         Ret c' \<Rightarrow> fst (GetFirstUnusedDescriptor c') = 10 \<and> fm_max_file_id (fst c') = 3
       | _ \<Rightarrow> False)"
  by (simp add: AddFileStream_def RemoveFileStream_def FdToFileStreamMap_def heap_push_def
      heap_front_def heap_pop_def GetFirstUnusedDescriptor_def Let_def)

end
