(* ===== verification/Mount_Points.thy ===== *)
theory Mount_Points
  imports Path_Util "HOL-Library.AList"
begin

text \<open>
  Mount points: \<^verbatim>\<open>src/src/posix_translation/mount_point_manager.cc\<close>, and the
  update counters of \<^verbatim>\<open>src/src/common/update_tracking.h\<close> that let other parts poll
  for changes. File system handlers are objects outside this component: their type is a type
  variable, and the callbacks \<^verbatim>\<open>OnMounted\<close> and \<^verbatim>\<open>OnUnmounted\<close> are arguments.
\<close>

section \<open>Update tracking\<close>

text \<open>The producer's number is a signed 32-bit \<^verbatim>\<open>int\<close> that wraps to the initial number.\<close>

record update_producer =
  update_number :: u32

definition kInvalidUpdateNumber :: u32 where
  "kInvalidUpdateNumber = - 1"

definition kInitialUpdateNumber :: u32 where
  "kInitialUpdateNumber = 0"

definition UpdateProducer :: update_producer where
  "UpdateProducer = \<lparr>update_number = kInitialUpdateNumber\<rparr>"

definition ProduceUpdate :: "update_producer \<Rightarrow> update_producer" where
  "ProduceUpdate p =
     (let n = update_number p + 1 in
      if sint n < sint kInitialUpdateNumber then p\<lparr>update_number := kInitialUpdateNumber\<rparr>
      else p\<lparr>update_number := n\<rparr>)"

record update_consumer =
  last_consumed_update_number :: u32

definition UpdateConsumer :: update_consumer where
  "UpdateConsumer = \<lparr>last_consumed_update_number = kInvalidUpdateNumber\<rparr>"

definition AreThereUpdatesAndConsumeIfSo :: "update_producer \<Rightarrow> update_consumer \<Rightarrow> bool \<times> update_consumer" where
  "AreThereUpdatesAndConsumeIfSo producer c =
     (if last_consumed_update_number c \<noteq> update_number producer
      then (True, c\<lparr>last_consumed_update_number := update_number producer\<rparr>)
      else (False, c))"

section \<open>The mount point table\<close>

definition kRootUid :: u32 where
  "kRootUid = 0"

record 'h mount_point =
  mp_handler :: 'h
  mp_owner_uid :: u32

record 'h mount_point_manager =
  mount_point_map :: "(string \<times> 'h mount_point) list"
  update_producer_of :: update_producer

definition MountPointManager :: "'h mount_point_manager" where
  "MountPointManager = \<lparr>mount_point_map = [], update_producer_of = UpdateProducer\<rparr>"

definition mm_produce :: "'h mount_point_manager \<Rightarrow> 'h mount_point_manager" where
  "mm_produce mm = mm\<lparr>update_producer_of := ProduceUpdate (update_producer_of mm)\<rparr>"

text \<open>Adding a mount point that exists already aborts the process.\<close>

definition mm_Add ::
  "('h \<Rightarrow> string \<Rightarrow> 'w \<Rightarrow> 'w) \<Rightarrow> string \<Rightarrow> 'h \<Rightarrow> 'h mount_point_manager \<times> 'w \<Rightarrow>
     ('h mount_point_manager \<times> 'w) outcome" where
  "mm_Add on_mounted path handler = (\<lambda>(mm, w).
     case map_of (mount_point_map mm) path of
       Some _ \<Rightarrow> Fatal
     | None \<Rightarrow>
         Ret (mm_produce (mm\<lparr>mount_point_map :=
                AList.update path \<lparr>mp_handler = handler, mp_owner_uid = kRootUid\<rparr> (mount_point_map mm)\<rparr>),
              on_mounted handler path w))"

definition mm_Remove ::
  "('h \<Rightarrow> string \<Rightarrow> 'w \<Rightarrow> 'w) \<Rightarrow> string \<Rightarrow> 'h mount_point_manager \<times> 'w \<Rightarrow> 'h mount_point_manager \<times> 'w" where
  "mm_Remove on_unmounted path = (\<lambda>(mm, w).
     case map_of (mount_point_map mm) path of
       Some mp \<Rightarrow>
         (mm_produce (mm\<lparr>mount_point_map := AList.delete path (mount_point_map mm)\<rparr>),
          on_unmounted (mp_handler mp) path w)
     | None \<Rightarrow> (mm, w))"

lemma rfind_bound: "rfind c s pos = Some i \<Longrightarrow> i < length s \<and> (\<forall>p. pos = Some p \<longrightarrow> i \<le> p)"
  by (auto simp: rfind_def find_rev_upt_Some simp del: upt_Suc split: option.splits)

lemma GetDirName_shorter:
  assumes "1 < length (GetDirNameInPlace (EnsurePathEndsWithSlash dir))"
  shows "length (GetDirNameInPlace (EnsurePathEndsWithSlash dir)) < length dir"
  using assms
  by (auto simp: GetDirNameInPlace_def EnsurePathEndsWithSlash_def kCurrentDirectory_def Let_def
      split: if_splits option.splits dest!: rfind_bound)

text \<open>
  The loop that strips base names: \<open>Inl\<close> is a mount point found on the way, \<open>Inr\<close> the last
  directory when the loop ends without one.
\<close>

function mount_search :: "'h mount_point_manager \<Rightarrow> string \<Rightarrow> 'h mount_point + string" where
  "mount_search mm dir =
     (let dir1 = EnsurePathEndsWithSlash dir in
      case map_of (mount_point_map mm) dir1 of
        Some mp \<Rightarrow> Inl mp
      | None \<Rightarrow>
          let dir2 = GetDirNameInPlace dir1 in
          if 1 < length dir2 then mount_search mm dir2 else Inr dir2)"
  by pat_completeness auto
termination
  by (relation "measure (\<lambda>(mm, dir). length dir)") (auto intro: GetDirName_shorter)

declare mount_search.simps [simp del]

text \<open>The owner is an out parameter: it is left alone when the path is empty.\<close>

definition mm_GetFileSystemHandler ::
  "'h mount_point_manager \<Rightarrow> string \<Rightarrow> u32 \<Rightarrow> 'h option \<times> u32" where
  "mm_GetFileSystemHandler mm path owner_uid =
     (if path = [] then (None, owner_uid)
      else case map_of (mount_point_map mm) path of
             Some mp \<Rightarrow> (Some (mp_handler mp), mp_owner_uid mp)
           | None \<Rightarrow>
               (case mount_search mm path of
                  Inl mp \<Rightarrow> (Some (mp_handler mp), mp_owner_uid mp)
                | Inr dir \<Rightarrow>
                    if dir = ''/'' then
                      (case map_of (mount_point_map mm) dir of
                         Some mp \<Rightarrow> (Some (mp_handler mp), mp_owner_uid mp)
                       | None \<Rightarrow> (None, kRootUid))
                    else (None, kRootUid)))"

text \<open>A missing handler trips the assertion (and the null dereference in \<open>Add\<close>).\<close>

definition mm_ChangeOwner ::
  "('h \<Rightarrow> string \<Rightarrow> 'w \<Rightarrow> 'w) \<Rightarrow> string \<Rightarrow> u32 \<Rightarrow> 'h mount_point_manager \<times> 'w \<Rightarrow>
     ('h mount_point_manager \<times> 'w) outcome" where
  "mm_ChangeOwner on_mounted path owner_uid = (\<lambda>(mm, w).
     let set_owner = (\<lambda>(mm, w).
           case map_of (mount_point_map mm) path of
             None \<Rightarrow> Fatal
           | Some mp \<Rightarrow>
               Ret (mm_produce (mm\<lparr>mount_point_map :=
                      AList.update path (mp\<lparr>mp_owner_uid := owner_uid\<rparr>) (mount_point_map mm)\<rparr>), w))
     in case map_of (mount_point_map mm) path of
          Some _ \<Rightarrow> set_owner (mm, w)
        | None \<Rightarrow>
            (case mm_GetFileSystemHandler mm path 0 of
               (None, _) \<Rightarrow> Fatal
             | (Some handler, _) \<Rightarrow>
                 (case mm_Add on_mounted path handler (mm, w) of
                    Ret (mm', w') \<Rightarrow> set_owner (mm', w')
                  | Err e \<Rightarrow> Err e
                  | Fatal \<Rightarrow> Fatal)))"

definition mm_GetAllFileSystemHandlers :: "'h mount_point_manager \<Rightarrow> 'h list" where
  "mm_GetAllFileSystemHandlers mm = map (\<lambda>(path, mp). mp_handler mp) (mount_point_map mm)"

definition mm_Clear :: "'h mount_point_manager \<Rightarrow> 'h mount_point_manager" where
  "mm_Clear mm = mm\<lparr>mount_point_map := []\<rparr>"

section \<open>The deepest mount point\<close>

text \<open>An absolute path given by its components, as a file and as a directory.\<close>

definition abs_path :: "string list \<Rightarrow> string" where
  "abs_path cs = CHR ''/'' # join_with CHR ''/'' cs"

definition abs_dir :: "string list \<Rightarrow> string" where
  "abs_dir cs = CHR ''/'' # concat (map (\<lambda>c. c @ ''/'') cs)"

definition good_components :: "string list \<Rightarrow> bool" where
  "good_components cs \<longleftrightarrow> (\<forall>c \<in> set cs. c \<noteq> [] \<and> CHR ''/'' \<notin> set c)"

text \<open>The specification: the path itself, else the longest directory prefix that is mounted.\<close>

fun deepest_mount :: "'h mount_point_manager \<Rightarrow> string list \<Rightarrow> nat \<Rightarrow> 'h mount_point option" where
  "deepest_mount mm cs n =
     (case map_of (mount_point_map mm) (abs_dir (take n cs)) of
        Some mp \<Rightarrow> Some mp
      | None \<Rightarrow> (case n of 0 \<Rightarrow> None | Suc k \<Rightarrow> deepest_mount mm cs k))"

declare deepest_mount.simps [simp del]

definition mount_for :: "'h mount_point_manager \<Rightarrow> string list \<Rightarrow> 'h mount_point option" where
  "mount_for mm cs =
     (case map_of (mount_point_map mm) (abs_path cs) of
        Some mp \<Rightarrow> Some mp | None \<Rightarrow> deepest_mount mm cs (length cs))"

lemma abs_dir_snoc: "abs_dir (cs @ [c]) = abs_dir cs @ c @ ''/''"
  by (simp add: abs_dir_def)

lemma abs_path_snoc: "abs_path (cs @ [c]) = abs_dir cs @ c"
  by (induction cs) (auto simp: abs_path_def abs_dir_def join_with_Cons)

lemma abs_dir_ends: "\<exists>d. abs_dir cs = d @ ''/''"
  by (cases cs rule: rev_cases) (auto simp: abs_dir_def)

lemma EnsurePathEndsWithSlash_abs_path:
  assumes "good_components cs" "cs \<noteq> []"
  shows "EnsurePathEndsWithSlash (abs_path cs) = abs_dir cs"
proof -
  obtain ds c where cs: "cs = ds @ [c]" using assms(2) by (cases cs rule: rev_cases) auto
  have "c \<noteq> []" "CHR ''/'' \<notin> set c" using assms(1) cs by (auto simp: good_components_def)
  then show ?thesis
    using not_EndsWithSlash_append [of c "abs_dir ds"]
    by (simp add: EnsurePathEndsWithSlash_def cs abs_path_snoc abs_dir_snoc)
qed

lemma GetDirName_abs_dir:
  assumes "good_components cs" "cs \<noteq> []"
  shows "GetDirNameInPlace (abs_dir cs) = abs_path (butlast cs)"
proof -
  obtain ds c where cs: "cs = ds @ [c]" using assms(2) by (cases cs rule: rev_cases) auto
  have c: "c \<noteq> []" "CHR ''/'' \<notin> set c" using assms(1) cs by (auto simp: good_components_def)
  show ?thesis
  proof (cases "ds = []")
    case True
    then show ?thesis
      using GetDirName_dir [OF c, of "[]"] by (simp add: cs abs_dir_def abs_path_def GetDirName_def)
  next
    case False
    have "abs_dir ds = abs_path ds @ ''/''"
      using concat_slash [of ds "CHR ''/''"] False by (simp add: abs_dir_def abs_path_def)
    then have "abs_dir cs = abs_path ds @ CHR ''/'' # c @ ''/''" by (simp add: cs abs_dir_snoc)
    then show ?thesis
      using GetDirName_dir [OF c, of "abs_path ds"] by (simp add: cs GetDirName_def abs_path_def)
  qed
qed

lemma mount_search_deepest:
  assumes "good_components cs" "0 < n" "n \<le> length cs"
  shows "(case mount_search mm (abs_path (take n cs)) of
            Inl mp \<Rightarrow> Some mp
          | Inr dir \<Rightarrow> if dir = ''/'' then map_of (mount_point_map mm) dir else None) =
         deepest_mount mm cs n"
  using assms(2,3)
proof (induction n)
  case (Suc k)
  let ?c = "take (Suc k) cs"
  have g: "good_components ?c" "?c \<noteq> []" "butlast ?c = take k cs"
    using assms(1) Suc.prems by (auto simp: good_components_def butlast_take dest: in_set_takeD)
  note dir = EnsurePathEndsWithSlash_abs_path [OF g(1,2)] GetDirName_abs_dir [OF g(1,2), unfolded g(3)]
  have len: "1 < length (abs_path (take k cs)) \<longleftrightarrow> k \<noteq> 0"
    using g(1) Suc.prems join_with_not_Nil [of "take k cs" "CHR ''/''"]
    by (cases cs; cases k) (auto simp: abs_path_def good_components_def)
  have ms: "mount_search mm (abs_path ?c) =
      (case map_of (mount_point_map mm) (abs_dir ?c) of Some mp \<Rightarrow> Inl mp
       | None \<Rightarrow> if k \<noteq> 0 then mount_search mm (abs_path (take k cs)) else Inr (abs_path (take k cs)))"
    by (subst mount_search.simps) (simp only: dir Let_def len)
  have root: "deepest_mount mm cs 0 = map_of (mount_point_map mm) (abs_dir [])"
    by (simp add: deepest_mount.simps split: option.splits)
  have Nil: "abs_path [] = ''/''" "abs_dir [] = ''/''" by (simp_all add: abs_path_def abs_dir_def)
  show ?case
    unfolding ms deepest_mount.simps [of mm cs "Suc k"]
    using Suc root by (cases k) (simp_all add: Nil split: option.splits)
qed simp

lemma deepest_mount_root: "deepest_mount mm cs 0 = map_of (mount_point_map mm) ''/''"
  by (simp add: deepest_mount.simps abs_dir_def split: option.splits)

lemma deepest_mount_Some:
  "deepest_mount mm cs n = Some mp \<longleftrightarrow>
   (\<exists>k \<le> n. map_of (mount_point_map mm) (abs_dir (take k cs)) = Some mp \<and>
       (\<forall>j. k < j \<and> j \<le> n \<longrightarrow> map_of (mount_point_map mm) (abs_dir (take j cs)) = None))"
proof (induction n)
  case 0
  show ?case by (simp add: deepest_mount.simps split: option.splits)
next
  case (Suc n)
  show ?case
    by (subst deepest_mount.simps) (auto simp: Suc le_Suc_eq split: option.splits)
qed

lemma GetFileSystemHandler_mount_for:
  assumes "good_components cs"
  shows "mm_GetFileSystemHandler mm (abs_path cs) uid =
    (case mount_for mm cs of
       Some mp \<Rightarrow> (Some (mp_handler mp), mp_owner_uid mp) | None \<Rightarrow> (None, kRootUid))"
proof (cases "cs = []")
  case True
  have "mount_search mm ''/'' = (case map_of (mount_point_map mm) ''/'' of Some mp \<Rightarrow> Inl mp | None \<Rightarrow> Inr ''/'')"
    by (subst mount_search.simps) (simp add: EnsurePathEndsWithSlash_def EndsWithSlash_def
        GetDirNameInPlace_def rfind_def split: option.splits)
  with True show ?thesis
    by (simp add: mm_GetFileSystemHandler_def mount_for_def abs_path_def deepest_mount_root
        split: option.splits)
next
  case False
  then have d: "deepest_mount mm cs (length cs) =
      (case mount_search mm (abs_path cs) of
         Inl mp \<Rightarrow> Some mp
       | Inr dir \<Rightarrow> if dir = ''/'' then map_of (mount_point_map mm) dir else None)"
    using mount_search_deepest [OF assms, of "length cs" mm] by simp
  have "abs_path cs \<noteq> []" by (simp add: abs_path_def)
  then show ?thesis
    by (simp add: mm_GetFileSystemHandler_def mount_for_def d split: option.splits sum.splits)
qed

section \<open>Properties\<close>

text \<open>
  C27. The handler of an absolute path with ordinary components is that of the mount point on
  the path itself if there is one, else that of the longest mounted directory above (or
  equal to) it, together with that mount point's owner; when there is none, no handler is
  found and the owner is root.
\<close>

theorem GetFileSystemHandler_deepest:
  assumes "good_components cs"
  shows "mm_GetFileSystemHandler mm (abs_path cs) uid = r \<longleftrightarrow>
    (case map_of (mount_point_map mm) (abs_path cs) of
       Some mp \<Rightarrow> r = (Some (mp_handler mp), mp_owner_uid mp)
     | None \<Rightarrow>
         (\<exists>k \<le> length cs. \<exists>mp. map_of (mount_point_map mm) (abs_dir (take k cs)) = Some mp \<and>
            (\<forall>j. k < j \<and> j \<le> length cs \<longrightarrow> map_of (mount_point_map mm) (abs_dir (take j cs)) = None) \<and>
            r = (Some (mp_handler mp), mp_owner_uid mp)) \<or>
         (\<forall>k \<le> length cs. map_of (mount_point_map mm) (abs_dir (take k cs)) = None) \<and>
            r = (None, kRootUid))"
proof (cases "map_of (mount_point_map mm) (abs_path cs)")
  case (Some mp)
  then show ?thesis by (auto simp: GetFileSystemHandler_mount_for [OF assms] mount_for_def)
next
  case None
  show ?thesis
  proof (cases "deepest_mount mm cs (length cs)")
    case n: None
    then have "\<nexists>mp. deepest_mount mm cs (length cs) = Some mp" by simp
    have "map_of (mount_point_map mm) (abs_dir (take k cs)) = None" if "k \<le> length cs" for k
      using that
    proof (induction "length cs - k" arbitrary: k rule: less_induct)
      case less
      then have "map_of (mount_point_map mm) (abs_dir (take j cs)) = None" if "k < j \<and> j \<le> length cs" for j
        using that by auto
      then show ?case
        using n deepest_mount_Some [of mm cs "length cs"] less.prems by (metis option.exhaust)
    qed
    then show ?thesis
      using None n by (auto simp: GetFileSystemHandler_mount_for [OF assms] mount_for_def)
  next
    case (Some mp)
    then obtain k where k: "k \<le> length cs" "map_of (mount_point_map mm) (abs_dir (take k cs)) = Some mp"
      "\<And>j. k < j \<and> j \<le> length cs \<Longrightarrow> map_of (mount_point_map mm) (abs_dir (take j cs)) = None"
      by (auto simp: deepest_mount_Some)
    have "k' = k" if "k' \<le> length cs" "map_of (mount_point_map mm) (abs_dir (take k' cs)) \<noteq> None"
      "\<forall>j. k' < j \<and> j \<le> length cs \<longrightarrow> map_of (mount_point_map mm) (abs_dir (take j cs)) = None" for k'
      using that k by (metis linorder_neqE_nat option.distinct(1))
    then have "(\<exists>k' \<le> length cs. \<exists>mp'. map_of (mount_point_map mm) (abs_dir (take k' cs)) = Some mp' \<and>
            (\<forall>j. k' < j \<and> j \<le> length cs \<longrightarrow> map_of (mount_point_map mm) (abs_dir (take j cs)) = None) \<and>
            r = (Some (mp_handler mp'), mp_owner_uid mp')) \<longleftrightarrow> r = (Some (mp_handler mp), mp_owner_uid mp)"
      using k by (metis option.inject option.distinct(1))
    moreover have "\<not> (\<forall>k \<le> length cs. map_of (mount_point_map mm) (abs_dir (take k cs)) = None)"
      using k by auto
    moreover have "mm_GetFileSystemHandler mm (abs_path cs) uid = (Some (mp_handler mp), mp_owner_uid mp)"
      using None Some by (simp add: GetFileSystemHandler_mount_for [OF assms] mount_for_def)
    ultimately show ?thesis using None by auto
  qed
qed

text \<open>A root file system (handler 0) with a mount of owner 1000 on one directory below it.\<close>

definition sample_mounts :: "nat mount_point_manager" where
  "sample_mounts = \<lparr>mount_point_map =
      [(''/'', \<lparr>mp_handler = 0, mp_owner_uid = 0\<rparr>), (''/data/app/'', \<lparr>mp_handler = 1, mp_owner_uid = 1000\<rparr>)],
    update_producer_of = UpdateProducer\<rparr>"

theorem GetFileSystemHandler_deepest_witness:
  "mm_GetFileSystemHandler sample_mounts ''/data/app/lib/a.so'' 7 = (Some 1, 1000)"
proof -
  let ?cs = "[''data'', ''app'', ''lib'', ''a.so'']"
  let ?M = "map_of (mount_point_map sample_mounts)"
  have g: "good_components ?cs" by (simp add: good_components_def)
  have p: "abs_path ?cs = ''/data/app/lib/a.so''" by (simp add: abs_path_def)
  have n: "?M ''/data/app/lib/a.so'' = None" by (simp add: sample_mounts_def)
  have k: "?M (abs_dir (take 2 ?cs)) = Some \<lparr>mp_handler = 1, mp_owner_uid = 1000\<rparr>"
    by (simp add: sample_mounts_def abs_dir_def)
  have d: "?M (abs_dir (take j ?cs)) = None" if "2 < j \<and> j \<le> length ?cs" for j
  proof -
    from that have "j = 3 \<or> j = 4" by auto
    then show ?thesis by (auto simp: sample_mounts_def abs_dir_def)
  qed
  have "\<exists>k \<le> length ?cs. \<exists>mp. ?M (abs_dir (take k ?cs)) = Some mp \<and>
      (\<forall>j. k < j \<and> j \<le> length ?cs \<longrightarrow> ?M (abs_dir (take j ?cs)) = None) \<and>
      (Some 1, 1000) = (Some (mp_handler mp), mp_owner_uid mp)"
    using k d by (intro exI [of _ 2] exI [of _ "\<lparr>mp_handler = 1, mp_owner_uid = 1000\<rparr>"] conjI) auto
  then show ?thesis
    using GetFileSystemHandler_deepest [OF g, of sample_mounts 7 "(Some 1, 1000)"] n
    unfolding p by simp
qed

lemma ProduceUpdate_eq:
  assumes "unat (update_number p) < 2 ^ 31"
  shows "unat (update_number (ProduceUpdate p)) = (unat (update_number p) + 1) mod 2 ^ 31"
proof -
  let ?n = "update_number p"
  have s: "unat (?n + 1) = unat ?n + 1"
    using assms unat_add_lem [of ?n 1] by simp
  have u: "uint (?n + 1) = int (unat ?n + 1)"
    by (simp only: uint_nat s)
  have i: "sint (?n + 1) = signed_take_bit 31 (int (unat ?n + 1))"
    unfolding sint_uint u by simp
  show ?thesis
  proof (cases "unat ?n + 1 = 2 ^ 31")
    case True
    then have "sint (?n + 1) < 0" by (simp add: i signed_take_bit_eq_take_bit_minus)
    with True show ?thesis by (simp add: ProduceUpdate_def Let_def kInitialUpdateNumber_def)
  next
    case False
    then have lt: "unat ?n + 1 < 2 ^ 31" using assms by simp
    have "int (unat ?n + 1) < 2 ^ 31"
      using lt by (metis of_nat_less_numeral_power_cancel_iff)
    then have "sint (?n + 1) = int (unat ?n + 1)"
      unfolding i by (intro signed_take_bit_int_eq_self) (simp_all del: of_nat_add)
    then have "\<not> sint (?n + 1) < sint kInitialUpdateNumber"
      by (simp only: kInitialUpdateNumber_def signed_0)
    then show ?thesis
      using lt s by (simp add: ProduceUpdate_def Let_def)
  qed
qed

lemma ProduceUpdate_funpow:
  assumes "unat (update_number p) < 2 ^ 31"
  shows "unat (update_number ((ProduceUpdate ^^ k) p)) = (unat (update_number p) + k) mod 2 ^ 31"
proof (induction k)
  case 0
  show ?case using assms by simp
next
  case (Suc k)
  then have "unat (update_number ((ProduceUpdate ^^ k) p)) < 2 ^ 31" by simp
  then show ?case using Suc ProduceUpdate_eq [of "(ProduceUpdate ^^ k) p"] by (simp add: mod_Suc_eq)
qed

text \<open>
  A consumer that has just polled sees \<open>k\<close> further updates exactly when \<open>k\<close> is not a
  multiple of \<open>2 ^ 31\<close>: the counter runs through the non-negative 32-bit numbers and wraps to
  its initial number, and never equals the invalid number a fresh consumer starts from.
\<close>

theorem update_tracking:
  assumes "p = (ProduceUpdate ^^ n) UpdateProducer"
  shows "fst (AreThereUpdatesAndConsumeIfSo p UpdateConsumer) \<and>
    fst (AreThereUpdatesAndConsumeIfSo ((ProduceUpdate ^^ k) p) (snd (AreThereUpdatesAndConsumeIfSo p c)))
      = (\<not> 2 ^ 31 dvd k)"
proof
  have p: "unat (update_number p) < 2 ^ 31"
    using ProduceUpdate_funpow [of UpdateProducer n]
    by (simp add: assms UpdateProducer_def kInitialUpdateNumber_def)
  have "unat kInvalidUpdateNumber = 2 ^ 32 - 1"
    by (simp add: kInvalidUpdateNumber_def unsigned_minus_1_eq_mask mask_eq_exp_minus_1)
  then have "kInvalidUpdateNumber \<noteq> update_number p" using p by auto
  then show "fst (AreThereUpdatesAndConsumeIfSo p UpdateConsumer)"
    by (simp add: AreThereUpdatesAndConsumeIfSo_def UpdateConsumer_def)
  have "update_number ((ProduceUpdate ^^ k) p) = update_number p \<longleftrightarrow>
      (unat (update_number p) + k) mod 2 ^ 31 = unat (update_number p) mod 2 ^ 31"
    using ProduceUpdate_funpow [OF p, of k] p by (metis mod_less word_unat_eq_iff)
  also have "\<dots> \<longleftrightarrow> 2 ^ 31 dvd k"
    by (metis add_diff_cancel_left' le_add1 mod_eq_dvd_iff_nat)
  finally show "fst (AreThereUpdatesAndConsumeIfSo ((ProduceUpdate ^^ k) p)
      (snd (AreThereUpdatesAndConsumeIfSo p c))) = (\<not> 2 ^ 31 dvd k)"
    by (auto simp: AreThereUpdatesAndConsumeIfSo_def)
qed

theorem update_tracking_witness:
  "fst (AreThereUpdatesAndConsumeIfSo (ProduceUpdate UpdateProducer)
     (snd (AreThereUpdatesAndConsumeIfSo UpdateProducer UpdateConsumer)))"
  using update_tracking [of UpdateProducer 0 1 UpdateConsumer] by simp

section \<open>Operations on the table\<close>

lemma map_of_mm_Add:
  "mm_Add f path h (mm, w) = Ret (mm', w') \<Longrightarrow>
   map_of (mount_point_map mm') =
     (map_of (mount_point_map mm))(path \<mapsto> \<lparr>mp_handler = h, mp_owner_uid = kRootUid\<rparr>)"
  by (auto simp: mm_Add_def mm_produce_def update_conv' split: option.splits)

lemma map_of_mm_Remove:
  "map_of (mount_point_map (fst (mm_Remove f path (mm, w)))) = (map_of (mount_point_map mm))(path := None)"
  by (auto simp: mm_Remove_def mm_produce_def delete_conv' split: option.splits)

text \<open>
  Changing the owner of a path touches only the table entry of that path: a registered
  mount point keeps its handler, an unregistered one is created with the handler that served
  the path before, and the call aborts exactly when no handler serves the path.
\<close>

theorem ChangeOwner_entry:
  assumes "path \<noteq> []"
  shows "case mm_ChangeOwner on_mounted path owner (mm, w) of
     Ret (mm', w') \<Rightarrow>
       (\<exists>h. fst (mm_GetFileSystemHandler mm path 0) = Some h \<and>
          map_of (mount_point_map mm') =
            (map_of (mount_point_map mm))(path \<mapsto> \<lparr>mp_handler = h, mp_owner_uid = owner\<rparr>) \<and>
          mm_GetFileSystemHandler mm' path 0 = (Some h, owner))
   | Err e \<Rightarrow> False
   | Fatal \<Rightarrow> fst (mm_GetFileSystemHandler mm path 0) = None"
proof (cases "map_of (mount_point_map mm) path")
  case (Some mp)
  then show ?thesis
    using assms
    by (cases mp) (simp add: mm_ChangeOwner_def Let_def mm_produce_def update_conv' mm_GetFileSystemHandler_def)
next
  case None
  show ?thesis
  proof (cases "mm_GetFileSystemHandler mm path 0")
    case (Pair h' u)
    show ?thesis
    proof (cases h')
      case None
      with Pair \<open>map_of (mount_point_map mm) path = None\<close> show ?thesis
        by (simp add: mm_ChangeOwner_def Let_def)
    next
      case (Some h)
      obtain mm1 w1 where a: "mm_Add on_mounted path h (mm, w) = Ret (mm1, w1)"
        using None by (auto simp: mm_Add_def)
      have m: "map_of (mount_point_map mm1) =
          (map_of (mount_point_map mm))(path \<mapsto> \<lparr>mp_handler = h, mp_owner_uid = kRootUid\<rparr>)"
        by (rule map_of_mm_Add [OF a])
      have "mm_ChangeOwner on_mounted path owner (mm, w) =
          Ret (mm_produce (mm1\<lparr>mount_point_map :=
                 AList.update path \<lparr>mp_handler = h, mp_owner_uid = owner\<rparr> (mount_point_map mm1)\<rparr>), w1)"
        using None Pair Some a m by (simp add: mm_ChangeOwner_def Let_def)
      then show ?thesis
        using Pair Some m assms by (simp add: mm_produce_def update_conv' mm_GetFileSystemHandler_def)
    qed
  qed
qed

theorem ChangeOwner_entry_witness:
  "map_option mp_handler (map_of (mount_point_map (case mm_ChangeOwner (\<lambda>h p w. w) ''/data/x/'' 1001 (sample_mounts, ())
      of Ret (mm', w') \<Rightarrow> mm' | _ \<Rightarrow> sample_mounts)) ''/data/x/'') = Some 0
   \<and> fst (mm_GetFileSystemHandler sample_mounts ''/data/x/'' 0) = Some 0"
proof -
  have h: "mm_GetFileSystemHandler sample_mounts ''/data/x/'' 0 = (Some 0, 0)"
    by code_simp
  show ?thesis
    using ChangeOwner_entry [where path = "''/data/x/''" and on_mounted = "\<lambda>h p w. w" and owner = 1001
        and mm = sample_mounts and w = "()"] h
    by (auto split: outcome.splits)
qed

end
