(* ===== verification/Dir_Manager.thy ===== *)
theory Dir_Manager
  imports Mount_Points "HOL-Library.Char_ord" "HOL-Library.List_Lexorder"
begin

text \<open>
  The in-memory directory tree and directory streams:
  \<^verbatim>\<open>src/src/posix_translation/directory_manager.cc\<close>, \<^verbatim>\<open>dir.h\<close> and
  \<^verbatim>\<open>directory_file_stream.cc\<close>. Hash maps are association lists with distinct keys;
  strings are ordered by their bytes, as \<^verbatim>\<open>std::string\<close> is.
\<close>

section \<open>The directory manager\<close>

datatype dir_type = REGULAR | DIRECTORY | SYMLINK

type_synonym files_in_dir = "(string \<times> dir_type) list"

record dir_manager =
  dir_to_files :: "(string \<times> files_in_dir) list"

text \<open>\<^verbatim>\<open>hash_map::insert\<close> keeps an existing entry and then reports failure.\<close>

definition hash_insert :: "'k \<Rightarrow> 'v \<Rightarrow> ('k \<times> 'v) list \<Rightarrow> bool \<times> ('k \<times> 'v) list" where
  "hash_insert k v m =
     (case map_of m k of Some _ \<Rightarrow> (False, m) | None \<Rightarrow> (True, AList.update k v m))"

definition MakeDirectory :: "string \<Rightarrow> dir_manager \<Rightarrow> bool \<times> dir_manager" where
  "MakeDirectory dirname dm =
     (if \<not> EndsWithSlash dirname then (False, dm)
      else let (inserted, m) = hash_insert dirname [] (dir_to_files dm)
           in (inserted, dm\<lparr>dir_to_files := m\<rparr>))"

definition dm_Clear :: "dir_manager \<Rightarrow> dir_manager" where
  "dm_Clear dm = snd (MakeDirectory ''/'' (dm\<lparr>dir_to_files := []\<rparr>))"

definition DirectoryManager :: dir_manager where
  "DirectoryManager = dm_Clear \<lparr>dir_to_files = []\<rparr>"

definition GetFilesInDir :: "dir_manager \<Rightarrow> string \<Rightarrow> files_in_dir option" where
  "GetFilesInDir dm directory = map_of (dir_to_files dm) directory"

definition put_files :: "string \<Rightarrow> files_in_dir \<Rightarrow> dir_manager \<Rightarrow> dir_manager" where
  "put_files directory files dm = dm\<lparr>dir_to_files := AList.update directory files (dir_to_files dm)\<rparr>"

text \<open>A missing directory is a failed assertion followed by a null dereference.\<close>

definition AddFileInternal :: "string \<Rightarrow> string \<Rightarrow> dir_type \<Rightarrow> dir_manager \<Rightarrow> (bool \<times> dir_manager) outcome" where
  "AddFileInternal directory filename type dm =
     (case GetFilesInDir dm directory of
        None \<Rightarrow> Fatal
      | Some files \<Rightarrow>
          let (inserted, files') = hash_insert filename type files
          in Ret (inserted, put_files directory files' dm))"

definition SplitPath :: "base_lib \<Rightarrow> string \<Rightarrow> string \<times> string" where
  "SplitPath B pathname =
     (if pathname = [] then ([], [])
      else if CHR ''/'' \<notin> set pathname then ([], pathname)
      else if EndsWithSlash pathname then (pathname, [])
      else let paths = SplitString B pathname CHR ''/''
           in (JoinString B (butlast paths) CHR ''/'' @ ''/'', last paths))"

definition StatDirectory :: "dir_manager \<Rightarrow> string \<Rightarrow> bool" where
  "StatDirectory dm dirname \<longleftrightarrow>
     map_of (dir_to_files dm) (EnsurePathEndsWithSlash dirname) \<noteq> None"

definition StatFile :: "base_lib \<Rightarrow> dir_manager \<Rightarrow> string \<Rightarrow> bool" where
  "StatFile B dm pathname \<longleftrightarrow>
     \<not> EndsWithSlash pathname \<and>
     (case GetFilesInDir dm (fst (SplitPath B pathname)) of
        None \<Rightarrow> False
      | Some files \<Rightarrow> map_of files (snd (SplitPath B pathname)) \<noteq> None)"

text \<open>The loop of \<^verbatim>\<open>MakeDirectories\<close>.\<close>

fun make_paths :: "string \<Rightarrow> string list \<Rightarrow> dir_manager \<Rightarrow> dir_manager outcome" where
  "make_paths current_path [] dm = Ret dm"
| "make_paths current_path (p # paths) dm =
     (if p = [] then make_paths current_path paths dm
      else case AddFileInternal current_path (p @ ''/'') DIRECTORY dm of
             Ret (_, dm1) \<Rightarrow>
               make_paths (current_path @ p @ ''/'') paths
                 (snd (MakeDirectory (current_path @ p @ ''/'') dm1))
           | Err e \<Rightarrow> Err e
           | Fatal \<Rightarrow> Fatal)"

definition MakeDirectories :: "base_lib \<Rightarrow> string \<Rightarrow> dir_manager \<Rightarrow> dir_manager outcome" where
  "MakeDirectories B dirname dm =
     make_paths ''/'' (SplitString B (EnsurePathEndsWithSlash dirname) CHR ''/'') dm"

definition AddFileWithType :: "base_lib \<Rightarrow> string \<Rightarrow> dir_type \<Rightarrow> dir_manager \<Rightarrow> (bool \<times> dir_manager) outcome" where
  "AddFileWithType B pathname type dm =
     (if \<not> IsAbsolutePath pathname then Ret (False, dm)
      else if EndsWithSlash pathname then Ret (False, dm)
      else if StatDirectory dm pathname then Ret (False, dm)
      else let (dir, file) = SplitPath B pathname in
           case (if \<not> StatDirectory dm dir then MakeDirectories B dir dm else Ret dm) of
             Ret dm1 \<Rightarrow> AddFileInternal dir file type dm1
           | Err e \<Rightarrow> Err e
           | Fatal \<Rightarrow> Fatal)"

definition dm_AddFile :: "base_lib \<Rightarrow> string \<Rightarrow> dir_manager \<Rightarrow> (bool \<times> dir_manager) outcome" where
  "dm_AddFile B pathname dm = AddFileWithType B pathname REGULAR dm"

definition dm_RemoveFile :: "base_lib \<Rightarrow> string \<Rightarrow> dir_manager \<Rightarrow> bool \<times> dir_manager" where
  "dm_RemoveFile B pathname dm =
     (if EndsWithSlash pathname then (False, dm)
      else let (dir, file) = SplitPath B pathname in
           case GetFilesInDir dm dir of
             None \<Rightarrow> (False, dm)
           | Some files \<Rightarrow> (map_of files file \<noteq> None, put_files dir (AList.delete file files) dm))"

text \<open>
  The directory is erased before its parent is looked up, so that a missing parent (a null
  dereference) is \<open>Fatal\<close>.
\<close>

definition dm_RemoveDirectory :: "string \<Rightarrow> dir_manager \<Rightarrow> (bool \<times> dir_manager) outcome" where
  "dm_RemoveDirectory dirname dm =
     (if dirname = ''/'' then Ret (False, dm)
      else let dirname_slash = EnsurePathEndsWithSlash dirname in
           case GetFilesInDir dm dirname_slash of
             None \<Rightarrow> Ret (False, dm)
           | Some files \<Rightarrow>
               if files \<noteq> [] then Ret (False, dm)
               else
                 let dm1 = dm\<lparr>dir_to_files := AList.delete dirname_slash (dir_to_files dm)\<rparr>;
                     parent_slash = EnsurePathEndsWithSlash (GetDirName dirname_slash)
                 in case GetFilesInDir dm1 parent_slash of
                      None \<Rightarrow> Fatal
                    | Some parent \<Rightarrow>
                        Ret (True, put_files parent_slash
                               (AList.delete (drop (length parent_slash) dirname_slash) parent) dm1))"

section \<open>Directory contents\<close>

record dir_impl =
  di_dirname :: string
  di_files :: "(string \<times> dir_type) list"
  di_pos :: nat

definition DirImpl :: "string \<Rightarrow> files_in_dir \<Rightarrow> dir_impl" where
  "DirImpl dirname files =
     \<lparr>di_dirname = EnsurePathEndsWithSlash dirname,
      di_files = (''./'', DIRECTORY) # (''../'', DIRECTORY) # sort_key fst files,
      di_pos = 0\<rparr>"

definition OpenDirectory :: "base_lib \<Rightarrow> dir_manager \<Rightarrow> string \<Rightarrow> dir_impl outcome" where
  "OpenDirectory B dm dirname =
     (if StatFile B dm dirname then Err ENOTDIR
      else let dirname_slash = EnsurePathEndsWithSlash dirname in
           case GetFilesInDir dm dirname_slash of
             None \<Rightarrow> Err ENOENT
           | Some files \<Rightarrow> Ret (DirImpl dirname_slash files))"

record dirent =
  d_ino :: int
  d_off :: nat
  d_reclen :: nat
  d_type :: dir_type
  d_name :: string

text \<open>
  The layout of \<^verbatim>\<open>struct dirent\<close> comes from the C library: its size and the size of its
  name field. The inode is the virtual file system's, looked up (and possibly assigned) for
  the entry's path.
\<close>

record dirent_abi =
  sizeof_dirent :: nat
  sizeof_d_name :: nat

definition DirImpl_GetNext ::
  "dirent_abi \<Rightarrow> (string \<Rightarrow> 'w \<Rightarrow> int \<times> 'w) \<Rightarrow> dir_impl \<times> 'w \<Rightarrow> dirent option \<times> dir_impl \<times> 'w" where
  "DirImpl_GetNext abi inode_of = (\<lambda>(d, w).
     if length (di_files d) \<le> di_pos d then (None, d, w)
     else
       let (name, type) = di_files d ! di_pos d;
           (ino, w') = inode_of (di_dirname d @ name) w;
           name1 = (if EndsWithSlash name then butlast name else name);
           len = min (sizeof_d_name abi - 1) (length name1)
       in (Some \<lparr>d_ino = ino, d_off = di_pos d, d_reclen = sizeof_dirent abi,
                  d_type = type, d_name = take len name1\<rparr>,
           d\<lparr>di_pos := di_pos d + 1\<rparr>, w'))"

definition DirImpl_rewinddir :: "dir_impl \<Rightarrow> dir_impl" where
  "DirImpl_rewinddir d = d\<lparr>di_pos := 0\<rparr>"

text \<open>\<^verbatim>\<open>std::lower_bound\<close> by halving the range \<open>[first, first + len)\<close>.\<close>

function lower_bound :: "(string \<times> dir_type) list \<Rightarrow> string \<Rightarrow> nat \<Rightarrow> nat \<Rightarrow> nat" where
  "lower_bound files name first len =
     (if len = 0 then first
      else let half = len div 2 in
           if fst (files ! (first + half)) < name
           then lower_bound files name (first + half + 1) (len - half - 1)
           else lower_bound files name first half)"
  by pat_completeness auto
termination
  by (relation "measure (\<lambda>(files, name, first, len). len)") auto

declare lower_bound.simps [simp del]

definition DirImpl_Add :: "string \<Rightarrow> dir_type \<Rightarrow> dir_impl \<Rightarrow> dir_impl" where
  "DirImpl_Add name type d =
     (let files = di_files d; it = lower_bound files name 0 (length files) in
      if it < length files \<and> fst (files ! it) = name
      then d\<lparr>di_files := files[it := (name, type)]\<rparr>
      else d\<lparr>di_files := take it files @ (name, type) # drop it files\<rparr>)"

section \<open>Directory streams\<close>

record dir_stream =
  ds_pathname :: string
  ds_contents :: "dir_impl option"
  ds_mtime :: int

definition kNLinkForDir :: nat where "kNLinkForDir = 32"
definition kSizeForDir :: int where "kSizeForDir = 4096"
definition kBlockSize :: int where "kBlockSize = 4096"

definition DirectoryFileStream :: "string \<Rightarrow> int \<Rightarrow> dir_stream" where
  "DirectoryFileStream pathname mtime = \<lparr>ds_pathname = pathname, ds_contents = None, ds_mtime = mtime\<rparr>"

record dir_stat =
  dst_ino :: int
  dst_is_dir :: bool
  dst_nlink :: nat
  dst_size :: int
  dst_blksize :: int
  dst_mtime :: int

definition DirectoryFileStream_fstat ::
  "(string \<Rightarrow> 'w \<Rightarrow> int \<times> 'w) \<Rightarrow> dir_stream \<Rightarrow> 'w \<Rightarrow> dir_stat outcome \<times> 'w" where
  "DirectoryFileStream_fstat inode_of ds w =
     (let (ino, w') = inode_of (ds_pathname ds) w
      in (Ret \<lparr>dst_ino = ino, dst_is_dir = True, dst_nlink = kNLinkForDir, dst_size = kSizeForDir,
               dst_blksize = kBlockSize, dst_mtime = ds_mtime ds\<rparr>, w'))"

definition DirectoryFileStream_ftruncate :: "int outcome" where
  "DirectoryFileStream_ftruncate = Err EINVAL"

definition DirectoryFileStream_read :: "int outcome" where
  "DirectoryFileStream_read = Err EISDIR"

definition DirectoryFileStream_write :: "int outcome" where
  "DirectoryFileStream_write = Err EBADF"

definition DirectoryFileStream_lseek :: "int \<Rightarrow> bool \<Rightarrow> dir_stream \<Rightarrow> int outcome \<times> dir_stream" where
  "DirectoryFileStream_lseek offset whence_is_set ds =
     (if offset \<noteq> 0 \<or> \<not> whence_is_set then (Fatal, ds)
      else (Ret 0, ds\<lparr>ds_contents := map_option DirImpl_rewinddir (ds_contents ds)\<rparr>))"

text \<open>The loop that fills at most \<open>n\<close> entries of the caller's buffer.\<close>

fun get_entries ::
  "dirent_abi \<Rightarrow> (string \<Rightarrow> 'w \<Rightarrow> int \<times> 'w) \<Rightarrow> nat \<Rightarrow> dir_impl \<times> 'w \<Rightarrow> dirent list \<times> dir_impl \<times> 'w" where
  "get_entries abi inode_of 0 c = ([], c)"
| "get_entries abi inode_of (Suc n) c =
     (case DirImpl_GetNext abi inode_of c of
        (None, c') \<Rightarrow> ([], c')
      | (Some e, c') \<Rightarrow> let (es, c'') = get_entries abi inode_of n c' in (e # es, c''))"

text \<open>The result is the number of bytes and the entries written to the buffer.\<close>

definition DirectoryFileStream_getdents ::
  "dirent_abi \<Rightarrow> (string \<Rightarrow> 'w \<Rightarrow> int \<times> 'w) \<Rightarrow> (string \<Rightarrow> 'w \<Rightarrow> dir_impl option \<times> 'w) \<Rightarrow>
   nat \<Rightarrow> dir_stream \<times> 'w \<Rightarrow> (nat \<times> dirent list) outcome \<times> dir_stream \<times> 'w" where
  "DirectoryFileStream_getdents abi inode_of contents_needed count_bytes = (\<lambda>(ds, w).
     let (contents, w1) =
           (case ds_contents ds of
              None \<Rightarrow> contents_needed (ds_pathname ds) w
            | Some d \<Rightarrow> (Some d, w));
         ds1 = ds\<lparr>ds_contents := contents\<rparr>
     in case contents of
          None \<Rightarrow> (Err ENOENT, ds1, w1)
        | Some d \<Rightarrow>
            let count_entries = count_bytes div sizeof_dirent abi in
            if count_entries < 1 then (Err EINVAL, ds1, w1)
            else let (es, d', w2) = get_entries abi inode_of count_entries (d, w1)
                 in (Ret (length es * sizeof_dirent abi, es), ds1\<lparr>ds_contents := Some d'\<rparr>, w2))"

section \<open>Paths by components\<close>

definition clean_path :: "string list \<Rightarrow> bool" where
  "clean_path cs \<longleftrightarrow> good_components cs \<and> (\<forall>c \<in> set cs. no_outer_white c)"

lemma good_components_simps [simp]:
  "good_components []"
  "good_components (c # cs) \<longleftrightarrow> c \<noteq> [] \<and> CHR ''/'' \<notin> set c \<and> good_components cs"
  "good_components (cs @ ds) \<longleftrightarrow> good_components cs \<and> good_components ds"
  by (auto simp: good_components_def)

lemma clean_path_simps [simp]:
  "clean_path []"
  "clean_path (c # cs) \<longleftrightarrow> c \<noteq> [] \<and> CHR ''/'' \<notin> set c \<and> no_outer_white c \<and> clean_path cs"
  "clean_path (cs @ ds) \<longleftrightarrow> clean_path cs \<and> clean_path ds"
  by (auto simp: clean_path_def good_components_def)

lemma clean_good: "clean_path cs \<Longrightarrow> good_components cs"
  by (simp add: clean_path_def)

lemma split_at_dir: "good_components cs \<Longrightarrow> split_at CHR ''/'' (concat (map (\<lambda>c. c @ ''/'') cs)) = cs @ [[]]"
  by (induction cs) (auto simp: path_simps)

lemma abs_dir_inject: "good_components cs \<Longrightarrow> good_components ds \<Longrightarrow> abs_dir cs = abs_dir ds \<longleftrightarrow> cs = ds"
  by (metis abs_dir_def append_same_eq list.inject split_at_dir)

lemma abs_dir_Nil: "abs_dir [] = ''/''"
  by (simp add: abs_dir_def)

lemma abs_dir_not_Nil [simp]: "abs_dir cs \<noteq> []"
  by (simp add: abs_dir_def)

lemma EndsWithSlash_abs_dir [simp]: "EndsWithSlash (abs_dir cs)"
  using abs_dir_ends [of cs] by auto

lemma Ensure_abs_dir [simp]: "EnsurePathEndsWithSlash (abs_dir cs) = abs_dir cs"
  by (simp add: EnsurePathEndsWithSlash_def)

lemma abs_path_not_slash: "good_components (cs @ [c]) \<Longrightarrow> \<not> EndsWithSlash (abs_path (cs @ [c]))"
  using not_EndsWithSlash_append [of c "abs_dir cs"] by (simp add: abs_path_snoc)

lemma map_trim_clean: "clean_path cs \<Longrightarrow> map trim cs = cs"
  by (induction cs) (auto simp: no_outer_white_def)

lemma trim_Nil [simp]: "trim [] = []"
  by (simp add: trim_def)

context base_strings
begin

lemma SplitString_path:
  assumes "clean_path cs" "cs \<noteq> []"
  shows "SplitString B (abs_path cs) CHR ''/'' = [] # cs"
proof -
  have "abs_path cs = join_with CHR ''/'' ([] # cs)"
    using assms(2) by (simp add: abs_path_def join_with_Cons)
  moreover have "\<forall>p \<in> set ([] # cs). CHR ''/'' \<notin> set p"
    using assms(1) by (auto simp: clean_path_def good_components_def)
  ultimately have "split_at CHR ''/'' (abs_path cs) = [] # cs"
    by (simp add: split_join_with)
  then show ?thesis using assms map_trim_clean [OF assms(1)] by (simp add: split_doc)
qed

lemma SplitString_dir:
  assumes "clean_path cs"
  shows "SplitString B (abs_dir cs) CHR ''/'' = [] # cs @ [[]]"
  using assms split_at_dir [of cs] map_trim_clean [OF assms]
  by (simp add: split_doc abs_dir_def clean_good)

lemma SplitPath_file:
  assumes "clean_path (cs @ [c])"
  shows "SplitPath B (abs_path (cs @ [c])) = (abs_dir cs, c)"
proof -
  have "join_with CHR ''/'' ([] # cs) @ ''/'' = abs_dir cs"
    using concat_slash [of "[] # cs" "CHR ''/''"] by (simp add: abs_dir_def)
  moreover have "CHR ''/'' \<in> set (abs_path (cs @ [c]))" "abs_path (cs @ [c]) \<noteq> []"
    by (simp_all add: abs_path_def)
  ultimately show ?thesis
    using assms abs_path_not_slash [OF clean_good, OF assms] SplitString_path [OF assms]
    by (simp add: SplitPath_def Let_def join_doc butlast_append)
qed

end

section \<open>The tree invariant\<close>

definition dir_known :: "dir_manager \<Rightarrow> string \<Rightarrow> bool" where
  "dir_known dm d \<longleftrightarrow> GetFilesInDir dm d \<noteq> None"

definition dir_entry :: "dir_manager \<Rightarrow> string \<Rightarrow> string \<Rightarrow> dir_type option" where
  "dir_entry dm d n = (case GetFilesInDir dm d of None \<Rightarrow> None | Some fs \<Rightarrow> map_of fs n)"

text \<open>
  The root exists; every key is an absolute directory; a directory exists exactly when its
  parent lists it with a trailing slash; and an entry's type is \<open>DIRECTORY\<close> exactly when its
  name ends with a slash (asserted by \<^verbatim>\<open>DirImpl::GetNext\<close>).
\<close>

definition dm_ok :: "dir_manager \<Rightarrow> bool" where
  "dm_ok dm \<longleftrightarrow> dir_known dm ''/'' \<and>
     (\<forall>d. dir_known dm d \<longrightarrow> (\<exists>cs. good_components cs \<and> d = abs_dir cs)) \<and>
     (\<forall>cs c. good_components (cs @ [c]) \<longrightarrow>
        (dir_known dm (abs_dir (cs @ [c])) \<longleftrightarrow> dir_entry dm (abs_dir cs) (c @ ''/'') \<noteq> None)) \<and>
     (\<forall>d n t. dir_entry dm d n = Some t \<longrightarrow> (EndsWithSlash n \<longleftrightarrow> t = DIRECTORY))"

lemma dm_ok_type: "dm_ok dm \<Longrightarrow> dir_entry dm d n = Some t \<Longrightarrow> EndsWithSlash n \<longleftrightarrow> t = DIRECTORY"
  by (auto simp: dm_ok_def)

lemma map_of_hash_insert [simp]:
  "map_of (snd (hash_insert k v m)) = (if map_of m k = None then (map_of m)(k \<mapsto> v) else map_of m)"
  "fst (hash_insert k v m) \<longleftrightarrow> map_of m k = None"
  by (auto simp: hash_insert_def update_conv' split: option.splits)

lemma GetFilesInDir_put [simp]:
  "GetFilesInDir (put_files d fs dm) d' = (if d' = d then Some fs else GetFilesInDir dm d')"
  by (simp add: GetFilesInDir_def put_files_def update_conv')

lemma AddFileInternal_effect:
  assumes "dir_known dm d"
  obtains dm' where "AddFileInternal d n t dm = Ret (dir_entry dm d n = None, dm')"
    "\<And>d'. dir_known dm' d' = dir_known dm d'"
    "\<And>d' m. dir_entry dm' d' m =
       (if d' = d \<and> m = n \<and> dir_entry dm d n = None then Some t else dir_entry dm d' m)"
proof -
  obtain fs where fs: "GetFilesInDir dm d = Some fs" using assms by (auto simp: dir_known_def)
  let ?dm = "put_files d (snd (hash_insert n t fs)) dm"
  show ?thesis
  proof (rule that [of ?dm])
    show "AddFileInternal d n t dm = Ret (dir_entry dm d n = None, ?dm)"
      using fs by (simp add: AddFileInternal_def dir_entry_def case_prod_beta)
  qed (use fs in \<open>auto simp: dir_known_def dir_entry_def\<close>)
qed

lemma MakeDirectory_effect:
  assumes "EndsWithSlash d"
  shows "dir_known (snd (MakeDirectory d dm)) d' \<longleftrightarrow> dir_known dm d' \<or> d' = d"
    "dir_entry (snd (MakeDirectory d dm)) d' n = dir_entry dm d' n"
  using assms
  by (auto simp: MakeDirectory_def dir_known_def dir_entry_def GetFilesInDir_def case_prod_beta)

lemma mkdir_step:
  assumes ok: "dm_ok dm" and pre: "dir_known dm (abs_dir pre)" and g: "good_components (pre @ [p])"
  obtains b dm1 where "AddFileInternal (abs_dir pre) (p @ ''/'') DIRECTORY dm = Ret (b, dm1)"
    "dm_ok (snd (MakeDirectory (abs_dir (pre @ [p])) dm1))"
    "\<And>d. dir_known (snd (MakeDirectory (abs_dir (pre @ [p])) dm1)) d \<longleftrightarrow>
           dir_known dm d \<or> d = abs_dir (pre @ [p])"
    "\<And>d n. \<not> EndsWithSlash n \<Longrightarrow>
       dir_entry (snd (MakeDirectory (abs_dir (pre @ [p])) dm1)) d n = dir_entry dm d n"
proof -
  obtain dm1 where a: "AddFileInternal (abs_dir pre) (p @ ''/'') DIRECTORY dm =
        Ret (dir_entry dm (abs_dir pre) (p @ ''/'') = None, dm1)"
    and k: "\<And>d'. dir_known dm1 d' = dir_known dm d'"
    and e: "\<And>d' m. dir_entry dm1 d' m =
       (if d' = abs_dir pre \<and> m = p @ ''/'' \<and> dir_entry dm (abs_dir pre) (p @ ''/'') = None
        then Some DIRECTORY else dir_entry dm d' m)"
    using AddFileInternal_effect [OF pre] by blast
  let ?dm = "snd (MakeDirectory (abs_dir (pre @ [p])) dm1)"
  have k': "dir_known ?dm d \<longleftrightarrow> dir_known dm d \<or> d = abs_dir (pre @ [p])" for d
    by (simp add: MakeDirectory_effect k)
  have e': "dir_entry ?dm d m = (if d = abs_dir pre \<and> m = p @ ''/'' then
      (case dir_entry dm (abs_dir pre) (p @ ''/'') of None \<Rightarrow> Some DIRECTORY | Some t \<Rightarrow> Some t)
      else dir_entry dm d m)" for d m
    by (auto simp: MakeDirectory_effect e split: option.splits)
  have "dm_ok ?dm"
    unfolding dm_ok_def
  proof (intro conjI allI impI)
    show "dir_known ?dm ''/''" using ok by (simp add: k' dm_ok_def)
  next
    fix d assume "dir_known ?dm d"
    then consider "dir_known dm d" | "d = abs_dir (pre @ [p])" by (auto simp: k')
    then show "\<exists>cs. good_components cs \<and> d = abs_dir cs"
      by cases (use ok g in \<open>auto simp only: dm_ok_def\<close>)
  next
    fix cs c assume c: "good_components (cs @ [c])"
    have "abs_dir (cs @ [c]) = abs_dir (pre @ [p]) \<longleftrightarrow> cs = pre \<and> c = p"
      using abs_dir_inject [OF c g] by simp
    moreover have "abs_dir cs = abs_dir pre \<longleftrightarrow> cs = pre"
      using abs_dir_inject [of cs pre] c g by simp
    ultimately show "dir_known ?dm (abs_dir (cs @ [c])) \<longleftrightarrow> dir_entry ?dm (abs_dir cs) (c @ ''/'') \<noteq> None"
      using ok c by (auto simp: k' e' dm_ok_def split: option.splits)
  next
    fix d n t assume "dir_entry ?dm d n = Some t"
    then show "EndsWithSlash n \<longleftrightarrow> t = DIRECTORY"
      using dm_ok_type [OF ok, of d n t] by (auto simp: e' split: if_splits option.splits)
  qed
  then show ?thesis using a k' e' by (intro that) (auto split: option.splits)
qed

lemma make_paths_effect:
  assumes "dm_ok dm" "dir_known dm (abs_dir pre)" "good_components (pre @ suf)"
  obtains dm' where "make_paths (abs_dir pre) (suf @ replicate k []) dm = Ret dm'" "dm_ok dm'"
    "\<And>d. dir_known dm' d \<longleftrightarrow> dir_known dm d \<or> (\<exists>j. 0 < j \<and> j \<le> length suf \<and> d = abs_dir (pre @ take j suf))"
    "\<And>d n. \<not> EndsWithSlash n \<Longrightarrow> dir_entry dm' d n = dir_entry dm d n"
proof -
  have nils: "make_paths c (replicate k []) dm = Ret dm" for c dm by (induction k) auto
  have "\<exists>dm'. make_paths (abs_dir pre) (suf @ replicate k []) dm = Ret dm' \<and> dm_ok dm' \<and>
    (\<forall>d. dir_known dm' d \<longleftrightarrow> dir_known dm d \<or> (\<exists>j. 0 < j \<and> j \<le> length suf \<and> d = abs_dir (pre @ take j suf))) \<and>
    (\<forall>d n. \<not> EndsWithSlash n \<longrightarrow> dir_entry dm' d n = dir_entry dm d n)"
    using assms
  proof (induction suf arbitrary: pre dm)
    case Nil
    then show ?case by (auto simp: nils)
  next
    case (Cons p suf)
    have g: "good_components (pre @ [p])" using Cons.prems(3) by simp
    obtain b dm1 where s: "AddFileInternal (abs_dir pre) (p @ ''/'') DIRECTORY dm = Ret (b, dm1)"
      "dm_ok (snd (MakeDirectory (abs_dir (pre @ [p])) dm1))"
      "\<And>d. dir_known (snd (MakeDirectory (abs_dir (pre @ [p])) dm1)) d \<longleftrightarrow>
             dir_known dm d \<or> d = abs_dir (pre @ [p])"
      "\<And>d n. \<not> EndsWithSlash n \<Longrightarrow>
         dir_entry (snd (MakeDirectory (abs_dir (pre @ [p])) dm1)) d n = dir_entry dm d n"
      using mkdir_step [OF Cons.prems(1,2) g] by blast
    let ?dm1 = "snd (MakeDirectory (abs_dir (pre @ [p])) dm1)"
    obtain dm' where r: "make_paths (abs_dir (pre @ [p])) (suf @ replicate k []) ?dm1 = Ret dm'" "dm_ok dm'"
      "\<And>d. dir_known dm' d \<longleftrightarrow> dir_known ?dm1 d \<or>
         (\<exists>j. 0 < j \<and> j \<le> length suf \<and> d = abs_dir ((pre @ [p]) @ take j suf))"
      "\<And>d n. \<not> EndsWithSlash n \<Longrightarrow> dir_entry dm' d n = dir_entry ?dm1 d n"
      using Cons.IH [of ?dm1 "pre @ [p]"] s(2,3) Cons.prems(3) by auto
    have "make_paths (abs_dir pre) ((p # suf) @ replicate k []) dm = Ret dm'"
      using s(1) r(1) g by (simp add: abs_dir_snoc)
    moreover have "dir_known dm' d \<longleftrightarrow> dir_known dm d \<or>
        (\<exists>j. 0 < j \<and> j \<le> length (p # suf) \<and> d = abs_dir (pre @ take j (p # suf)))" for d
    proof -
      have "(\<exists>j. 0 < j \<and> j \<le> length (p # suf) \<and> d = abs_dir (pre @ take j (p # suf))) \<longleftrightarrow>
          (\<exists>i \<le> length suf. d = abs_dir (pre @ p # take i suf))"
        by (metis Suc_le_mono gr0_conv_Suc length_Cons take_Suc_Cons zero_less_Suc)
      also have "\<dots> \<longleftrightarrow> d = abs_dir (pre @ [p]) \<or> (\<exists>i. 0 < i \<and> i \<le> length suf \<and> d = abs_dir ((pre @ [p]) @ take i suf))"
        by (auto intro: exI [of _ "0 :: nat"]) (metis gr0I take_0)
      finally show ?thesis using r(3) s(3) by blast
    qed
    ultimately show ?case using r(2,4) s(4) by (intro exI [of _ dm']) auto
  qed
  then show ?thesis using that by blast
qed

lemma DirectoryManager_ok: "dm_ok DirectoryManager"
proof -
  have k: "dir_known DirectoryManager d \<longleftrightarrow> d = ''/''" for d
    by (auto simp: DirectoryManager_def dm_Clear_def MakeDirectory_def EndsWithSlash_def hash_insert_def
        dir_known_def GetFilesInDir_def)
  have e: "dir_entry DirectoryManager d n = None" for d n
    by (auto simp: DirectoryManager_def dm_Clear_def MakeDirectory_def EndsWithSlash_def hash_insert_def
        dir_entry_def GetFilesInDir_def)
  have "abs_dir (cs @ [c]) \<noteq> ''/''" if "good_components (cs @ [c])" for cs c
    using abs_dir_inject [OF that, of "[]"] by (simp add: abs_dir_Nil)
  then show ?thesis
    unfolding dm_ok_def by (auto simp: k e abs_dir_Nil intro!: exI [of _ "[]"])
qed

lemma StatDirectory_path:
  assumes "good_components (cs @ [c])"
  shows "StatDirectory dm (abs_path (cs @ [c])) \<longleftrightarrow> dir_known dm (abs_dir (cs @ [c]))"
  using EnsurePathEndsWithSlash_abs_path [OF assms]
  by (simp add: StatDirectory_def dir_known_def GetFilesInDir_def)

lemma StatDirectory_dir: "StatDirectory dm (abs_dir cs) \<longleftrightarrow> dir_known dm (abs_dir cs)"
  by (simp add: StatDirectory_def dir_known_def GetFilesInDir_def)

context base_strings
begin

lemma StatFile_path:
  assumes "clean_path (cs @ [c])"
  shows "StatFile B dm (abs_path (cs @ [c])) \<longleftrightarrow> dir_entry dm (abs_dir cs) c \<noteq> None"
  using abs_path_not_slash [OF clean_good [OF assms]]
  by (auto simp: StatFile_def SplitPath_file [OF assms] dir_entry_def split: option.splits)

lemma MakeDirectories_effect:
  assumes "dm_ok dm" "clean_path cs"
  obtains dm' where "MakeDirectories B (abs_dir cs) dm = Ret dm'" "dm_ok dm'"
    "\<And>d. dir_known dm' d \<longleftrightarrow> dir_known dm d \<or> (\<exists>j \<le> length cs. d = abs_dir (take j cs))"
    "\<And>d n. \<not> EndsWithSlash n \<Longrightarrow> dir_entry dm' d n = dir_entry dm d n"
proof -
  have root: "dir_known dm (abs_dir [])" using assms(1) by (simp add: dm_ok_def abs_dir_Nil)
  obtain dm' where r: "make_paths (abs_dir []) (cs @ replicate 1 []) dm = Ret dm'" "dm_ok dm'"
    "\<And>d. dir_known dm' d \<longleftrightarrow> dir_known dm d \<or> (\<exists>j. 0 < j \<and> j \<le> length cs \<and> d = abs_dir ([] @ take j cs))"
    "\<And>d n. \<not> EndsWithSlash n \<Longrightarrow> dir_entry dm' d n = dir_entry dm d n"
    using make_paths_effect [OF assms(1) root, of cs 1] clean_good [OF assms(2)] by auto
  have "MakeDirectories B (abs_dir cs) dm = Ret dm'"
    using r(1) by (simp add: MakeDirectories_def SplitString_dir [OF assms(2)] abs_dir_Nil)
  moreover have "dir_known dm' d \<longleftrightarrow> dir_known dm d \<or> (\<exists>j \<le> length cs. d = abs_dir (take j cs))" for d
    using r(3) root by (metis append_Nil gr0I take_0)
  ultimately show ?thesis using that r(2,4) by blast
qed

lemma AddFile_new:
  assumes ok: "dm_ok dm" and p: "clean_path (cs @ [c])" and t: "type \<noteq> DIRECTORY"
    and new: "\<not> dir_known dm (abs_dir (cs @ [c]))"
  obtains dm' where
    "AddFileWithType B (abs_path (cs @ [c])) type dm = Ret (dir_entry dm (abs_dir cs) c = None, dm')"
    "dm_ok dm'"
    "\<And>d. dir_known dm' d \<longleftrightarrow> dir_known dm d \<or> (\<exists>j \<le> length cs. d = abs_dir (take j cs))"
    "\<And>d n. \<not> EndsWithSlash n \<Longrightarrow> dir_entry dm' d n =
       (if d = abs_dir cs \<and> n = c \<and> dir_entry dm d n = None then Some type else dir_entry dm d n)"
proof -
  have g: "good_components (cs @ [c])" by (rule clean_good [OF p])
  have c: "\<not> EndsWithSlash c" using p not_EndsWithSlash_append [of c "[]"] by simp
  have take_known: "dir_known dm (abs_dir (take j cs))" if "dir_known dm (abs_dir cs)" "j \<le> length cs" for j
    using that
  proof (induction "length cs - j" arbitrary: j)
    case (Suc n)
    have gt: "good_components (take j cs @ [cs ! j])"
      using g Suc.hyps(2) by (auto simp: good_components_def dest: in_set_takeD)
    have "take (Suc j) cs = take j cs @ [cs ! j]"
      using Suc.hyps(2) by (simp add: take_Suc_conv_app_nth)
    moreover have "dir_known dm (abs_dir (take (Suc j) cs))" using Suc by simp
    ultimately have "dir_entry dm (abs_dir (take j cs)) (cs ! j @ ''/'') \<noteq> None"
      using ok gt by (simp add: dm_ok_def)
    then show ?case by (auto simp: dir_entry_def dir_known_def split: option.splits)
  qed simp
  obtain dm1 where m: "(if \<not> StatDirectory dm (abs_dir cs) then MakeDirectories B (abs_dir cs) dm else Ret dm) = Ret dm1"
    "dm_ok dm1"
    "\<And>d. dir_known dm1 d \<longleftrightarrow> dir_known dm d \<or> (\<exists>j \<le> length cs. d = abs_dir (take j cs))"
    "\<And>d n. \<not> EndsWithSlash n \<Longrightarrow> dir_entry dm1 d n = dir_entry dm d n"
  proof (cases "dir_known dm (abs_dir cs)")
    case True
    then show ?thesis using that [of dm] ok take_known by (auto simp: StatDirectory_dir)
  next
    case False
    then show ?thesis
      using MakeDirectories_effect [OF ok, of cs] p that by (auto simp: StatDirectory_dir)
  qed
  have known: "dir_known dm1 (abs_dir cs)" using m(3) by auto
  obtain dm' where a: "AddFileInternal (abs_dir cs) c type dm1 = Ret (dir_entry dm1 (abs_dir cs) c = None, dm')"
    and k: "\<And>d'. dir_known dm' d' = dir_known dm1 d'"
    and e: "\<And>d' n. dir_entry dm' d' n =
       (if d' = abs_dir cs \<and> n = c \<and> dir_entry dm1 (abs_dir cs) c = None then Some type else dir_entry dm1 d' n)"
    using AddFileInternal_effect [OF known] by blast
  have "IsAbsolutePath (abs_path (cs @ [c]))" by (simp add: IsAbsolutePath_def abs_path_def)
  then have "AddFileWithType B (abs_path (cs @ [c])) type dm = Ret (dir_entry dm (abs_dir cs) c = None, dm')"
    using new m(1) a abs_path_not_slash [OF g] m(4) [OF c]
    by (simp add: AddFileWithType_def SplitPath_file [OF p] StatDirectory_path [OF g])
  moreover have "dm_ok dm'"
    using m(2) t c unfolding dm_ok_def k e by (auto split: if_splits)
  moreover have "dir_entry dm' d n =
      (if d = abs_dir cs \<and> n = c \<and> dir_entry dm d n = None then Some type else dir_entry dm d n)"
    if "\<not> EndsWithSlash n" for d n
    using m(4) [OF that] m(4) [OF c] by (auto simp: e)
  ultimately show ?thesis using that m(3) k by simp
qed

end

section \<open>Properties of the directory manager\<close>

text \<open>
  C23. Adding a file at a clean absolute path keeps the tree invariant and never aborts. It
  does nothing when the path is a directory; otherwise the path is a registered file
  afterwards, all its parents are directories, the result says whether the file is new, and
  every other file and directory stays as it was.
\<close>

theorem AddFile_correct:
  assumes B: "base_strings B" and ok: "dm_ok dm" and p: "clean_path (cs @ [c])" and t: "type \<noteq> DIRECTORY"
  shows "\<exists>new dm'. AddFileWithType B (abs_path (cs @ [c])) type dm = Ret (new, dm') \<and> dm_ok dm' \<and>
    (if StatDirectory dm (abs_path (cs @ [c])) then \<not> new \<and> dm' = dm
     else new = (\<not> StatFile B dm (abs_path (cs @ [c]))) \<and>
       (\<forall>ds d. clean_path (ds @ [d]) \<longrightarrow>
          StatFile B dm' (abs_path (ds @ [d])) = (StatFile B dm (abs_path (ds @ [d])) \<or> ds @ [d] = cs @ [c])) \<and>
       (\<forall>ds. good_components ds \<longrightarrow>
          StatDirectory dm' (abs_dir ds) = (StatDirectory dm (abs_dir ds) \<or> (\<exists>j \<le> length cs. ds = take j cs))))"
proof (cases "dir_known dm (abs_dir (cs @ [c]))")
  case True
  then show ?thesis
    using ok abs_path_not_slash [OF clean_good [OF p]]
    by (auto simp: AddFileWithType_def StatDirectory_path [OF clean_good [OF p]])
next
  case False
  obtain dm' where a: "AddFileWithType B (abs_path (cs @ [c])) type dm = Ret (dir_entry dm (abs_dir cs) c = None, dm')"
    "dm_ok dm'"
    and k: "\<And>d. dir_known dm' d \<longleftrightarrow> dir_known dm d \<or> (\<exists>j \<le> length cs. d = abs_dir (take j cs))"
    and e: "\<And>d n. \<not> EndsWithSlash n \<Longrightarrow> dir_entry dm' d n =
       (if d = abs_dir cs \<and> n = c \<and> dir_entry dm d n = None then Some type else dir_entry dm d n)"
    using base_strings.AddFile_new [OF B ok p t False] by blast
  note stat = base_strings.StatFile_path [OF B]
  have "StatFile B dm' (abs_path (ds @ [d])) = (StatFile B dm (abs_path (ds @ [d])) \<or> ds @ [d] = cs @ [c])"
    if q: "clean_path (ds @ [d])" for ds d
  proof -
    have "\<not> EndsWithSlash d" using q not_EndsWithSlash_append [of d "[]"] by simp
    then show ?thesis
      using abs_dir_inject [of ds cs] q p by (auto simp: stat [OF q] e clean_good)
  qed
  moreover have "StatDirectory dm' (abs_dir ds) = (StatDirectory dm (abs_dir ds) \<or> (\<exists>j \<le> length cs. ds = take j cs))"
    if "good_components ds" for ds
  proof -
    have "good_components (take j cs)" for j
      using p by (auto simp: clean_path_def good_components_def dest: in_set_takeD)
    then show ?thesis using that by (simp add: StatDirectory_dir k abs_dir_inject)
  qed
  ultimately show ?thesis
    using a False by (simp add: StatDirectory_path [OF clean_good [OF p]] stat [OF p])
qed

theorem AddFile_correct_witness:
  "\<exists>dm'. AddFileWithType chromium_base ''/system/lib/libc.so'' REGULAR DirectoryManager = Ret (True, dm') \<and>
     dm_ok dm' \<and> StatFile chromium_base dm' ''/system/lib/libc.so'' \<and> StatDirectory dm' ''/system/''"
proof -
  let ?cs = "[''system'', ''lib'']" and ?c = "''libc.so''"
  have p: "abs_path (?cs @ [?c]) = ''/system/lib/libc.so''" "abs_dir [''system''] = ''/system/''"
    by (simp_all add: abs_path_def abs_dir_def)
  have c: "clean_path (?cs @ [?c])" "good_components [''system'']" by code_simp+
  have s: "\<not> StatDirectory DirectoryManager ''/system/lib/libc.so''"
    "\<not> StatFile chromium_base DirectoryManager ''/system/lib/libc.so''" by code_simp+
  obtain new dm' where r: "AddFileWithType chromium_base ''/system/lib/libc.so'' REGULAR DirectoryManager = Ret (new, dm')"
    "dm_ok dm'" "new"
    "\<forall>ds d. clean_path (ds @ [d]) \<longrightarrow> StatFile chromium_base dm' (abs_path (ds @ [d])) =
       (StatFile chromium_base DirectoryManager (abs_path (ds @ [d])) \<or> ds @ [d] = ?cs @ [?c])"
    "\<forall>ds. good_components ds \<longrightarrow> StatDirectory dm' (abs_dir ds) =
       (StatDirectory DirectoryManager (abs_dir ds) \<or> (\<exists>j \<le> length ?cs. ds = take j ?cs))"
    using AddFile_correct [OF chromium.base_strings_axioms DirectoryManager_ok c(1), of REGULAR] s
    unfolding p by auto
  have "StatFile chromium_base dm' ''/system/lib/libc.so''" using r(4) c(1) p(1) by metis
  moreover have "StatDirectory dm' ''/system/''"
    using spec [OF r(5), of "[''system'']"] c(2) unfolding p by (auto intro!: exI [of _ 1])
  ultimately show ?thesis using r(1-3) by auto
qed

lemma GetDirName_slash_abs_dir:
  "good_components (cs @ [c]) \<Longrightarrow> EnsurePathEndsWithSlash (GetDirName (abs_dir (cs @ [c]))) = abs_dir cs"
  using GetDirName_abs_dir [of "cs @ [c]"] EnsurePathEndsWithSlash_abs_path [of cs]
  by (cases "cs = []")
    (simp_all add: GetDirName_def abs_path_def abs_dir_Nil EnsurePathEndsWithSlash_def EndsWithSlash_def)

lemma map_of_Nil_iff: "fs = [] \<longleftrightarrow> (\<forall>n. map_of fs n = None)"
  by (metis map_of_eq_empty_iff)

lemma RemoveDirectory_effect:
  assumes ok: "dm_ok dm" and g: "good_components (cs @ [c])" and k: "dir_known dm (abs_dir (cs @ [c]))"
    and e: "\<And>n. dir_entry dm (abs_dir (cs @ [c])) n = None"
  obtains dm' where "dm_RemoveDirectory (abs_dir (cs @ [c])) dm = Ret (True, dm')"
    "\<And>d. dir_known dm' d \<longleftrightarrow> dir_known dm d \<and> d \<noteq> abs_dir (cs @ [c])"
    "\<And>d n. dir_entry dm' d n = (if d = abs_dir cs \<and> n = c @ ''/'' then None else dir_entry dm d n)"
proof -
  have ne: "abs_dir (cs @ [c]) \<noteq> ''/''" "abs_dir (cs @ [c]) \<noteq> abs_dir cs"
    using abs_dir_inject [OF g, of "[]"] abs_dir_inject [OF g, of cs] g by (auto simp: abs_dir_Nil)
  have dr: "drop (length (abs_dir cs)) (abs_dir (cs @ [c])) = c @ ''/''" by (simp add: abs_dir_snoc)
  obtain fs where fs: "GetFilesInDir dm (abs_dir (cs @ [c])) = Some fs"
    using k by (auto simp: dir_known_def)
  then have Nil: "fs = []" using e map_of_Nil_iff [of fs] by (simp add: dir_entry_def)
  have "dir_entry dm (abs_dir cs) (c @ ''/'') \<noteq> None" using ok g k by (auto simp: dm_ok_def)
  then obtain ps where ps: "GetFilesInDir dm (abs_dir cs) = Some ps"
    by (auto simp: dir_entry_def split: option.splits)
  let ?dm1 = "dm\<lparr>dir_to_files := AList.delete (abs_dir (cs @ [c])) (dir_to_files dm)\<rparr>"
  have f1: "GetFilesInDir ?dm1 d = (if d = abs_dir (cs @ [c]) then None else GetFilesInDir dm d)" for d
    by (simp add: GetFilesInDir_def delete_conv')
  let ?dm' = "put_files (abs_dir cs) (AList.delete (c @ ''/'') ps) ?dm1"
  have f': "GetFilesInDir ?dm' d = (if d = abs_dir cs then Some (AList.delete (c @ ''/'') ps)
      else if d = abs_dir (cs @ [c]) then None else GetFilesInDir dm d)" for d
    by (simp add: f1)
  have "dm_RemoveDirectory (abs_dir (cs @ [c])) dm = Ret (True, ?dm')"
    using ne fs Nil ps
    by (simp add: dm_RemoveDirectory_def Let_def GetDirName_slash_abs_dir [OF g] f1 dr del: GetFilesInDir_put)
  moreover have "dir_known ?dm' d \<longleftrightarrow> dir_known dm d \<and> d \<noteq> abs_dir (cs @ [c])" for d
    using ne ps unfolding dir_known_def f' by auto
  moreover have "dir_entry ?dm' d n = (if d = abs_dir cs \<and> n = c @ ''/'' then None else dir_entry dm d n)" for d n
    using e [of n] ps unfolding dir_entry_def f' by (auto simp: delete_conv' fs split: if_splits)
  ultimately show ?thesis using that by blast
qed


text \<open>A tree with one empty directory below the root.\<close>

definition tmp_tree :: dir_manager where
  "tmp_tree = \<lparr>dir_to_files = [(''/'', [(''tmp/'', DIRECTORY)]), (''/tmp/'', [])]\<rparr>"

lemma tmp_tree_ok: "dm_ok tmp_tree"
proof -
  obtain dm' where r: "make_paths (abs_dir []) ([''tmp''] @ replicate 0 []) DirectoryManager = Ret dm'" "dm_ok dm'"
  proof -
    have k: "dir_known DirectoryManager (abs_dir [])"
      using DirectoryManager_ok by (simp add: dm_ok_def abs_dir_Nil)
    have g: "good_components ([] @ [''tmp''])" by simp
    show ?thesis by (rule make_paths_effect [OF DirectoryManager_ok k g, of 0]) (rule that)
  qed
  have "make_paths (abs_dir []) ([''tmp''] @ replicate 0 []) DirectoryManager = Ret tmp_tree"
    by (simp add: tmp_tree_def DirectoryManager_def dm_Clear_def MakeDirectory_def EndsWithSlash_def
        hash_insert_def AddFileInternal_def GetFilesInDir_def put_files_def abs_dir_def)
  with r show ?thesis by simp
qed


lemma RemoveFile_effect:
  assumes B: "base_strings B" and ok: "dm_ok dm" and p: "clean_path (cs @ [c])"
  shows "fst (dm_RemoveFile B (abs_path (cs @ [c])) dm) = StatFile B dm (abs_path (cs @ [c]))"
    "dm_ok (snd (dm_RemoveFile B (abs_path (cs @ [c])) dm))"
    "\<not> StatFile B (snd (dm_RemoveFile B (abs_path (cs @ [c])) dm)) (abs_path (cs @ [c]))"
proof -
  have c: "\<not> EndsWithSlash c" using p not_EndsWithSlash_append [of c "[]"] by simp
  note def = dm_RemoveFile_def base_strings.SplitPath_file [OF B p] abs_path_not_slash [OF clean_good [OF p]]
  note stat = base_strings.StatFile_path [OF B p]
  let ?dm' = "snd (dm_RemoveFile B (abs_path (cs @ [c])) dm)"
  have k: "dir_known ?dm' d = dir_known dm d" for d
    by (auto simp: def dir_known_def split: option.splits)
  have e: "dir_entry ?dm' d n = (if d = abs_dir cs \<and> n = c then None else dir_entry dm d n)" for d n
    by (auto simp: def dir_entry_def delete_conv' split: option.splits)
  show "fst (dm_RemoveFile B (abs_path (cs @ [c])) dm) = StatFile B dm (abs_path (cs @ [c]))"
    by (auto simp: def stat dir_entry_def split: option.splits)
  show "\<not> StatFile B ?dm' (abs_path (cs @ [c]))" by (simp add: stat e)
  have "x @ ''/'' \<noteq> c" for x using c by auto
  then show "dm_ok ?dm'" using ok c unfolding dm_ok_def k e by auto
qed

text \<open>
  \<open>RemoveDirectory\<close> refuses the root only under the name "/": called with the empty
  string on an empty tree it erases the root's record and then dereferences the missing
  parent.
\<close>

theorem RemoveDirectory_empty_name: "dm_RemoveDirectory [] DirectoryManager = Fatal"
  by code_simp

section \<open>Sorted insertion\<close>

lemma lower_bound_correct:
  assumes "first + len \<le> length files"
    and "\<forall>i < first. fst (files ! i) < name"
    and "\<forall>i. first + len \<le> i \<and> i < length files \<longrightarrow> \<not> fst (files ! i) < name"
    and "\<forall>i j. i < j \<and> j < length files \<and> fst (files ! j) < name \<longrightarrow> fst (files ! i) < name"
  shows "lower_bound files name first len \<le> length files \<and>
    (\<forall>i < lower_bound files name first len. fst (files ! i) < name) \<and>
    (\<forall>i. lower_bound files name first len \<le> i \<and> i < length files \<longrightarrow> \<not> fst (files ! i) < name)"
  using assms
proof (induction files name first len rule: lower_bound.induct)
  case (1 files name first len)
  show ?case
  proof (cases "len = 0")
    case True
    with "1.prems" show ?thesis by (simp add: lower_bound.simps)
  next
    case False
    let ?h = "len div 2"
    have h: "first + ?h < first + len" using False by simp
    show ?thesis
    proof (cases "fst (files ! (first + ?h)) < name")
      case True
      have b: "\<forall>i < first + ?h + 1. fst (files ! i) < name"
        using "1.prems"(1,4) True h by (metis Suc_eq_plus1 less_Suc_eq less_le_trans)
      have eq: "lower_bound files name first len = lower_bound files name (first + ?h + 1) (len - ?h - 1)"
        using True False by (subst lower_bound.simps) (simp only: Let_def if_True if_False)
      have s: "first + ?h + 1 + (len - ?h - 1) = first + len" using h by linarith
      show ?thesis
        unfolding eq
        by (rule "1.IH"(1) [OF False refl True, unfolded s, OF "1.prems"(1) b "1.prems"(3,4)])
    next
      case f: False
      have b: "\<forall>i. first + ?h \<le> i \<and> i < length files \<longrightarrow> \<not> fst (files ! i) < name"
        using "1.prems"(4) f by (metis le_neq_implies_less)
      have eq: "lower_bound files name first len = lower_bound files name first ?h"
        using f False by (subst lower_bound.simps) (simp only: Let_def if_True if_False)
      have s: "first + ?h \<le> length files" using h "1.prems"(1) by linarith
      show ?thesis
        unfolding eq
        by (rule "1.IH"(2) [OF False refl f s "1.prems"(2) b "1.prems"(4)])
    qed
  qed
qed

lemma smap_put_take_drop:
  assumes "smap_ok fs" "k \<le> length fs" "\<forall>i < k. fst (fs ! i) < name"
    "\<forall>i. k \<le> i \<and> i < length fs \<longrightarrow> \<not> fst (fs ! i) < name"
  shows "smap_put name v fs =
    (if k < length fs \<and> fst (fs ! k) = name then fs[k := (name, v)] else take k fs @ (name, v) # drop k fs)"
  using assms
proof (induction fs arbitrary: k)
  case (Cons x fs)
  obtain a b where x: "x = (a, b)" by (cases x)
  show ?case
  proof (cases k)
    case 0
    then have "\<not> a < name" using Cons.prems(4) x by force
    then show ?thesis using 0 x by (auto simp: not_less)
  next
    case (Suc j)
    then have a: "a < name" using Cons.prems(3) x by force
    have "smap_put name v fs =
      (if j < length fs \<and> fst (fs ! j) = name then fs[j := (name, v)] else take j fs @ (name, v) # drop j fs)"
    proof (rule Cons.IH)
      show "smap_ok fs" "j \<le> length fs" using Cons.prems Suc x by auto
      show "\<forall>i < j. fst (fs ! i) < name" using Cons.prems(3) Suc by force
      show "\<forall>i. j \<le> i \<and> i < length fs \<longrightarrow> \<not> fst (fs ! i) < name" using Cons.prems(4) Suc by force
    qed
    then show ?thesis using a x Suc by auto
  qed
qed simp



section \<open>Reading a directory\<close>

text \<open>What an entry of the vector looks like to the caller.\<close>

definition shown_name :: "dirent_abi \<Rightarrow> string \<Rightarrow> string" where
  "shown_name abi name =
     take (sizeof_d_name abi - 1) (if EndsWithSlash name then butlast name else name)"

definition shown :: "dirent_abi \<Rightarrow> string \<times> dir_type \<Rightarrow> string \<times> dir_type" where
  "shown abi = (\<lambda>(name, type). (shown_name abi name, type))"

lemma take_min_length: "take (min k (length xs)) xs = take k xs"
  by (simp add: min_def)

lemma get_entries_shown:
  assumes "get_entries abi f n (d, w) = (es, d', w')" "di_pos d \<le> length (di_files d)"
  shows "map (\<lambda>e. (d_name e, d_type e)) es = map (shown abi) (take n (drop (di_pos d) (di_files d)))"
    "di_files d' = di_files d" "di_dirname d' = di_dirname d" "di_pos d' = di_pos d + length es"
    "map d_off es = [di_pos d ..< di_pos d + length es]"
proof -
  have "map (\<lambda>e. (d_name e, d_type e)) es = map (shown abi) (take n (drop (di_pos d) (di_files d))) \<and>
    di_files d' = di_files d \<and> di_dirname d' = di_dirname d \<and> di_pos d' = di_pos d + length es \<and>
    map d_off es = [di_pos d ..< di_pos d + length es]"
    using assms
  proof (induction n arbitrary: d w es)
    case (Suc n)
    show ?case
    proof (cases "length (di_files d) \<le> di_pos d")
      case True
      with Suc.prems show ?thesis by (auto simp: DirImpl_GetNext_def)
    next
      case False
      obtain name type where nt: "di_files d ! di_pos d = (name, type)" by force
      obtain ino w1 where i: "f (di_dirname d @ name) w = (ino, w1)" by force
      let ?d1 = "d\<lparr>di_pos := di_pos d + 1\<rparr>"
      obtain es1 where e: "get_entries abi f n (?d1, w1) = (es1, d', w')"
        and es: "es = \<lparr>d_ino = ino, d_off = di_pos d, d_reclen = sizeof_dirent abi, d_type = type,
           d_name = shown_name abi name\<rparr> # es1"
        using Suc.prems(1) False nt i
        by (auto simp: DirImpl_GetNext_def Let_def shown_name_def take_min_length split: prod.splits)
      have IH: "map (\<lambda>e. (d_name e, d_type e)) es1 = map (shown abi) (take n (drop (di_pos d + 1) (di_files d))) \<and>
        di_files d' = di_files d \<and> di_dirname d' = di_dirname d \<and> di_pos d' = di_pos d + 1 + length es1 \<and>
        map d_off es1 = [di_pos d + 1 ..< di_pos d + 1 + length es1]"
        using Suc.IH [OF e] False by simp
      have "drop (di_pos d) (di_files d) = (name, type) # drop (di_pos d + 1) (di_files d)"
        using False nt by (simp add: Cons_nth_drop_Suc [symmetric])
      moreover have "[di_pos d ..< di_pos d + length es] = di_pos d # [di_pos d + 1 ..< di_pos d + 1 + length es1]"
        using es by (simp add: upt_conv_Cons del: upt_Suc)
      ultimately show ?thesis
        using IH es by (simp add: shown_def del: upt_Suc)
    qed
  qed auto
  then show "map (\<lambda>e. (d_name e, d_type e)) es = map (shown abi) (take n (drop (di_pos d) (di_files d)))"
    "di_files d' = di_files d" "di_dirname d' = di_dirname d" "di_pos d' = di_pos d + length es"
    "map d_off es = [di_pos d ..< di_pos d + length es]" by auto
qed

text \<open>Calling \<open>getdents\<close> \<open>k\<close> times and collecting the entries it delivers.\<close>

fun read_all ::
  "dirent_abi \<Rightarrow> (string \<Rightarrow> 'w \<Rightarrow> int \<times> 'w) \<Rightarrow> (string \<Rightarrow> 'w \<Rightarrow> dir_impl option \<times> 'w) \<Rightarrow>
   nat \<Rightarrow> nat \<Rightarrow> dir_stream \<times> 'w \<Rightarrow> dirent list" where
  "read_all abi f g bytes 0 c = []"
| "read_all abi f g bytes (Suc k) c =
     (case DirectoryFileStream_getdents abi f g bytes c of
        (Ret (n, es), c') \<Rightarrow> es @ read_all abi f g bytes k c'
      | (_, c') \<Rightarrow> [])"

lemma getdents_contents:
  assumes "ds_contents ds = Some d" "1 \<le> bytes div sizeof_dirent abi"
  shows "DirectoryFileStream_getdents abi f g bytes (ds, w) =
    (case get_entries abi f (bytes div sizeof_dirent abi) (d, w) of
       (es, d', w') \<Rightarrow> (Ret (length es * sizeof_dirent abi, es), ds\<lparr>ds_contents := Some d'\<rparr>, w'))"
  using assms by (cases ds) (simp add: DirectoryFileStream_getdents_def Let_def case_prod_beta)

lemma read_all_shown:
  assumes "ds_contents ds = Some d" "1 \<le> bytes div sizeof_dirent abi" "di_pos d \<le> length (di_files d)"
  shows "map (\<lambda>e. (d_name e, d_type e)) (read_all abi f g bytes k (ds, w)) =
    map (shown abi) (take (k * (bytes div sizeof_dirent abi)) (drop (di_pos d) (di_files d)))"
  using assms
proof (induction k arbitrary: ds d w)
  case (Suc k)
  let ?n = "bytes div sizeof_dirent abi"
  obtain es d' w' where e: "get_entries abi f ?n (d, w) = (es, d', w')" by (metis prod_cases3)
  note r = get_entries_shown [OF e Suc.prems(3)]
  have ge: "DirectoryFileStream_getdents abi f g bytes (ds, w) =
      (Ret (length es * sizeof_dirent abi, es), ds\<lparr>ds_contents := Some d'\<rparr>, w')"
    by (simp only: getdents_contents [OF Suc.prems(1,2)] e prod.case)
  have len: "length es = min ?n (length (di_files d) - di_pos d)"
    using arg_cong [OF r(1), of length] by simp
  have "map (\<lambda>e. (d_name e, d_type e)) (read_all abi f g bytes k (ds\<lparr>ds_contents := Some d'\<rparr>, w')) =
    map (shown abi) (take (k * ?n) (drop (di_pos d') (di_files d')))"
    using Suc.prems(2,3) len r(2,4) by (intro Suc.IH) auto
  moreover have "take (k * ?n) (drop (di_pos d') (di_files d')) = take (k * ?n) (drop ?n (drop (di_pos d) (di_files d)))"
    using r(2,4) len by (cases "?n \<le> length (di_files d) - di_pos d") (simp_all add: ac_simps)
  ultimately have "map (\<lambda>e. (d_name e, d_type e)) (read_all abi f g bytes (Suc k) (ds, w)) =
      map (shown abi) (take ?n (drop (di_pos d) (di_files d)) @
        take (k * ?n) (drop ?n (drop (di_pos d) (di_files d))))"
    using r(1) by (simp add: ge)
  then show ?case by (simp only: take_add [symmetric] mult_Suc)
qed simp

text \<open>
  C33. Reading an open directory with a buffer that holds at least one entry: enough calls of
  \<open>getdents\<close> deliver every entry exactly once and in order ("." and ".." first, then the
  sorted names, each without its directory slash and cut to the size of the name field), and
  a call after the last entry delivers nothing and returns 0.
\<close>

theorem getdents_enumerates:
  assumes room: "1 \<le> bytes div sizeof_dirent abi"
    and first: "contents_needed (ds_pathname ds) w = (Some (DirImpl dir files), w')"
    and fresh: "ds_contents ds = None"
    and enough: "length files + 2 \<le> k * (bytes div sizeof_dirent abi)"
  shows "map (\<lambda>e. (d_name e, d_type e)) (read_all abi f contents_needed bytes k (ds, w)) =
    map (shown abi) ((''./'', DIRECTORY) # (''../'', DIRECTORY) # sort_key fst files)"
proof -
  let ?d = "DirImpl dir files" and ?ds = "ds\<lparr>ds_contents := Some (DirImpl dir files)\<rparr>"
  have k: "k \<noteq> 0" using enough by (cases k) auto
  have "DirectoryFileStream_getdents abi f contents_needed bytes (ds, w) =
      DirectoryFileStream_getdents abi f contents_needed bytes (?ds, w')"
    using first fresh by (simp add: DirectoryFileStream_getdents_def Let_def)
  then have "read_all abi f contents_needed bytes k (ds, w) = read_all abi f contents_needed bytes k (?ds, w')"
    using k by (cases k) simp_all
  then show ?thesis
    using read_all_shown [of ?ds ?d bytes abi f contents_needed k w'] room enough
    by (simp add: DirImpl_def)
qed

theorem getdents_enumerates_witness:
  "map (\<lambda>e. (d_name e, d_type e)) (read_all \<lparr>sizeof_dirent = 280, sizeof_d_name = 256\<rparr> (\<lambda>p w. (1, w))
      (\<lambda>p w. (Some (DirImpl ''/'' [(''b'', REGULAR), (''a/'', DIRECTORY)]), w)) 300 4
      (DirectoryFileStream ''/'' 0, ())) =
   [(''.'', DIRECTORY), (''..'', DIRECTORY), (''a'', DIRECTORY), (''b'', REGULAR)]"
proof -
  have s: "sort_key fst [(''b'', REGULAR), (''a/'', DIRECTORY)] = [(''a/'', DIRECTORY), (''b'', REGULAR)]"
    by (simp add: less_eq_char_def less_char_def)
  show ?thesis
    by (subst getdents_enumerates [where w' = "()" and dir = "''/''" and files = "[(''b'', REGULAR), (''a/'', DIRECTORY)]"])
      (simp_all only: s, simp_all add: DirectoryFileStream_def shown_def shown_name_def EndsWithSlash_def)
qed

end
