(* ===== verification/Epoll_Stream.thy ===== *)
theory Epoll_Stream
  imports Fd_Map
begin

text \<open>
  Event polling: \<^verbatim>\<open>src/src/posix_translation/epoll_stream.cc\<close>. An epoll stream keeps a
  map from the streams it watches to the events asked for, and registers itself as a listener
  of each. The condition variable is a count of broadcasts.
\<close>

section \<open>State\<close>

record epoll_event =
  ev_events :: u32
  ev_data :: "64 word"

record epoll_state =
  ep_map :: "(sid, epoll_event) smap"
  ep_broadcasts :: nat

record epoll_world = world +
  w_epoll :: "sid \<Rightarrow> epoll_state option"

definition EPollStream :: "u32 \<Rightarrow> file_stream \<times> epoll_state" where
  "EPollStream oflag = (FileStream oflag [] 0, \<lparr>ep_map = [], ep_broadcasts = 0\<rparr>)"

definition upd_epoll :: "sid \<Rightarrow> (epoll_state \<Rightarrow> epoll_state) \<Rightarrow> 'a epoll_world_scheme \<Rightarrow> 'a epoll_world_scheme" where
  "upd_epoll e f w = w\<lparr>w_epoll := (w_epoll w)(e := map_option f (w_epoll w e))\<rparr>"

definition ep_broadcast :: "epoll_state \<Rightarrow> epoll_state" where
  "ep_broadcast st = st\<lparr>ep_broadcasts := ep_broadcasts st + 1\<rparr>"

section \<open>Callbacks\<close>

definition EPollStream_OnLastFileRef :: "sid \<Rightarrow> 'a epoll_world_scheme \<Rightarrow> 'a epoll_world_scheme" where
  "EPollStream_OnLastFileRef e w =
     (case w_epoll w e of
        None \<Rightarrow> w
      | Some st \<Rightarrow>
          upd_epoll e (\<lambda>st. st\<lparr>ep_map := []\<rparr>) (fold (\<lambda>s. StopListeningTo e s) (keys (ep_map st)) w))"

definition EPollStream_HandleNotificationFrom :: "sid \<Rightarrow> sid \<Rightarrow> bool \<Rightarrow> 'a epoll_world_scheme \<Rightarrow> 'a epoll_world_scheme" where
  "EPollStream_HandleNotificationFrom e file is_closing w =
     upd_epoll e (\<lambda>st. ep_broadcast (if is_closing then st\<lparr>ep_map := smap_del file (ep_map st)\<rparr> else st)) w"

text \<open>Streams of other classes inherit the do-nothing \<^verbatim>\<open>OnLastFileRef\<close> and never listen.\<close>

definition epoll_vtable :: "'a epoll_world_scheme vtable" where
  "epoll_vtable =
     \<lparr>vt_HandleNotificationFrom = EPollStream_HandleNotificationFrom,
      vt_OnLastFileRef = EPollStream_OnLastFileRef\<rparr>"

section \<open>Operations\<close>

definition EPOLL_CTL_ADD :: int where "EPOLL_CTL_ADD = 1"
definition EPOLL_CTL_DEL :: int where "EPOLL_CTL_DEL = 2"
definition EPOLL_CTL_MOD :: int where "EPOLL_CTL_MOD = 3"

lemmas epoll_ops = EPOLL_CTL_ADD_def EPOLL_CTL_DEL_def EPOLL_CTL_MOD_def

definition EPollStream_epoll_ctl ::
  "sid \<Rightarrow> int \<Rightarrow> sid \<Rightarrow> epoll_event \<Rightarrow> 'a epoll_world_scheme \<Rightarrow> int outcome \<times> 'a epoll_world_scheme" where
  "EPollStream_epoll_ctl e op file event w =
     (case w_epoll w e of
        None \<Rightarrow> (Fatal, w)
      | Some st \<Rightarrow>
          if op = EPOLL_CTL_ADD then
            (case smap_insert file event (ep_map st) of
               (m, inserted) \<Rightarrow>
                 if \<not> inserted then (Err EEXIST, w)
                 else
                   let w1 = upd_epoll e (\<lambda>st. st\<lparr>ep_map := m\<rparr>) w in
                   case StartListeningTo e file w1 of
                     (False, w2) \<Rightarrow> (Err EPERM, w2)
                   | (True, w2) \<Rightarrow> (Ret 0, upd_epoll e ep_broadcast w2))
          else if op = EPOLL_CTL_MOD then
            (case map_of (ep_map st) file of
               None \<Rightarrow> (Err ENOENT, w)
             | Some _ \<Rightarrow>
                 (Ret 0, upd_epoll e (\<lambda>st. ep_broadcast (st\<lparr>ep_map := smap_put file event (ep_map st)\<rparr>)) w))
          else if op = EPOLL_CTL_DEL then
            (case map_of (ep_map st) file of
               None \<Rightarrow> (Err ENOENT, w)
             | Some _ \<Rightarrow>
                 (Ret 0, StopListeningTo e file (upd_epoll e (\<lambda>st. st\<lparr>ep_map := smap_del file (ep_map st)\<rparr>) w)))
          else (Err EINVAL, w))"

text \<open>
  One scan over the map: \<open>poll_events\<close> is the virtual \<^verbatim>\<open>GetPollEvents\<close>. The scan stops as
  soon as \<open>maxevents\<close> events are found.
\<close>

definition entry_events :: "(sid \<Rightarrow> 16 word) \<Rightarrow> sid \<times> epoll_event \<Rightarrow> u32" where
  "entry_events poll_events = (\<lambda>(s, ev).
     scast (poll_events s) AND (ev_events ev OR ucast POLLERR OR ucast POLLHUP OR ucast POLLNVAL))"

fun epoll_scan :: "(sid \<Rightarrow> 16 word) \<Rightarrow> nat \<Rightarrow> nat \<Rightarrow> (sid, epoll_event) smap \<Rightarrow> epoll_event list" where
  "epoll_scan poll_events maxevents count [] = []"
| "epoll_scan poll_events maxevents count (x # m) =
     (let found_events = entry_events poll_events x in
      if found_events \<noteq> 0 then
        \<lparr>ev_events = found_events, ev_data = ev_data (snd x)\<rparr> #
        (if count + 1 = maxevents then [] else epoll_scan poll_events maxevents (count + 1) m)
      else epoll_scan poll_events maxevents count m)"

text \<open>
  The waiting loop. Other threads act while it waits, so the history of the wait is an
  argument: for each wake-up, whether the time limit has passed and what map and readiness
  the loop sees then. \<open>None\<close> means that the call is still waiting at the end of the history.
\<close>

type_synonym epoll_view = "(sid, epoll_event) smap \<times> (sid \<Rightarrow> 16 word)"

fun epoll_wait_loop :: "nat \<Rightarrow> bool \<Rightarrow> epoll_view \<Rightarrow> (bool \<times> epoll_view) list \<Rightarrow> epoll_event list option" where
  "epoll_wait_loop maxevents is_timedout (m, poll_events) wakeups =
     (let found = epoll_scan poll_events maxevents 0 m in
      if is_timedout \<or> found \<noteq> [] then Some found
      else case wakeups of
             [] \<Rightarrow> None
           | (timedout, view) # rest \<Rightarrow> epoll_wait_loop maxevents timedout view rest)"

definition EPollStream_epoll_wait ::
  "bool \<Rightarrow> int \<Rightarrow> int \<Rightarrow> epoll_view \<Rightarrow> (bool \<times> epoll_view) list \<Rightarrow> epoll_event list outcome option" where
  "EPollStream_epoll_wait events_ok maxevents timeout view wakeups =
     (if \<not> events_ok then Some (Err EFAULT)
      else if maxevents \<le> 0 then Some (Err EINVAL)
      else map_option Ret (epoll_wait_loop (nat maxevents) (timeout = 0) view wakeups))"

definition EPollStream_read :: "int outcome" where "EPollStream_read = Err EINVAL"
definition EPollStream_write :: "int outcome" where "EPollStream_write = Err EINVAL"

section \<open>Library lemmas\<close>

lemma w_epoll_upd_epoll [simp]:
  "w_epoll (upd_epoll e f w) = (w_epoll w)(e := map_option f (w_epoll w e))"
  "w_streams (upd_epoll e f w) = w_streams w"
  by (simp_all add: upd_epoll_def)

lemma w_epoll_upd_stream [simp]: "w_epoll (upd_stream s f w) = w_epoll w"
  by (simp add: upd_stream_def)

lemma fold_stop_streams:
  "w_streams (fold (\<lambda>s. StopListeningTo e s) ss w) t =
     (if t \<in> set ss then (w_streams w t)\<lparr>fs_listeners := removeAll e (fs_listeners (w_streams w t))\<rparr>
      else w_streams w t)"
  "w_epoll (fold (\<lambda>s. StopListeningTo e s) ss w) = w_epoll w"
  by (induction ss arbitrary: w) (auto simp: StopListeningTo_def)

lemma handle_simps [simp]:
  "w_streams (EPollStream_HandleNotificationFrom e s c w) = w_streams w"
  "w_epoll (EPollStream_HandleNotificationFrom e s c w) =
     (w_epoll w)(e := map_option (\<lambda>st. ep_broadcast (if c then st\<lparr>ep_map := smap_del s (ep_map st)\<rparr> else st)) (w_epoll w e))"
  by (simp_all add: EPollStream_HandleNotificationFrom_def)

lemma ep_map_broadcast [simp]: "ep_map (ep_broadcast st) = ep_map st"
  by (simp add: ep_broadcast_def)

lemma OnLast_streams:
  "fs_file_ref_count (w_streams (EPollStream_OnLastFileRef e w) t) = fs_file_ref_count (w_streams w t)"
  "fs_had_file_refs (w_streams (EPollStream_OnLastFileRef e w) t) = fs_had_file_refs (w_streams w t)"
  by (auto simp: EPollStream_OnLastFileRef_def fold_stop_streams split: option.splits)

interpretation epoll_vt: quiet_vtable "epoll_vtable :: 'a epoll_world_scheme vtable"
  by unfold_locales (simp_all add: epoll_vtable_def OnLast_streams)

section \<open>The registration invariant\<close>

text \<open>
  The epoll maps and the listener sets describe the same relation: an epoll stream watches a
  stream exactly when it is among that stream's listeners. The assertion of
  \<^verbatim>\<open>HandleNotificationFrom\<close> (a notification only comes from a registered file) is one half.
\<close>

definition watches :: "'a epoll_world_scheme \<Rightarrow> sid \<Rightarrow> sid \<Rightarrow> bool" where
  "watches w e s \<longleftrightarrow> (case w_epoll w e of None \<Rightarrow> False | Some st \<Rightarrow> s \<in> set (keys (ep_map st)))"

definition epoll_sync :: "'a epoll_world_scheme \<Rightarrow> bool" where
  "epoll_sync w \<longleftrightarrow>
     (\<forall>e st. w_epoll w e = Some st \<longrightarrow> smap_ok (ep_map st)) \<and>
     (\<forall>s. distinct (fs_listeners (w_streams w s))) \<and>
     (\<forall>e s. watches w e s \<longleftrightarrow> e \<in> set (fs_listeners (w_streams w s)))"

lemma keys_smap_del: "smap_ok m \<Longrightarrow> set (keys (smap_del k m)) = set (keys m) - {k}"
  using map_of_smap_del [of m k] by (metis dom_fun_upd dom_map_of_conv_image_fst list.set_map)

lemma keys_smap_put: "set (keys (smap_put k v m)) = insert k (set (keys m))"
  by (simp add: set_smap_put)

lemma watches_epoll_map:
  "w_epoll w e = Some st \<Longrightarrow> watches w e s \<longleftrightarrow> s \<in> set (keys (ep_map st))"
  by (simp add: watches_def)

lemma epoll_syncD:
  assumes "epoll_sync w"
  shows "w_epoll w e = Some st \<Longrightarrow> smap_ok (ep_map st)"
    "distinct (fs_listeners (w_streams w s))"
    "watches w e s \<longleftrightarrow> e \<in> set (fs_listeners (w_streams w s))"
  using assms by (auto simp: epoll_sync_def)

lemma ctl_sync:
  assumes sync: "epoll_sync w"
    and enabled: "op = EPOLL_CTL_ADD \<Longrightarrow> fs_is_listening_enabled (w_streams w file)"
  shows "epoll_sync (snd (EPollStream_epoll_ctl e op file event w))"
proof (cases "w_epoll w e")
  case None
  with sync show ?thesis by (simp add: EPollStream_epoll_ctl_def)
next
  case (Some st)
  let ?w = "snd (EPollStream_epoll_ctl e op file event w)"
  note ok = epoll_syncD(1) [OF sync Some]
  consider (add) "op = EPOLL_CTL_ADD" "map_of (ep_map st) file = None"
    | (md) "op = EPOLL_CTL_MOD" "map_of (ep_map st) file \<noteq> None"
    | (del) "op = EPOLL_CTL_DEL" "map_of (ep_map st) file \<noteq> None"
    | (err) "?w = w"
    using Some
    by (cases "map_of (ep_map st) file"; cases "op = EPOLL_CTL_ADD"; cases "op = EPOLL_CTL_MOD";
        cases "op = EPOLL_CTL_DEL")
      (auto simp: EPollStream_epoll_ctl_def epoll_ops smap_insert_def)
  then show ?thesis
  proof cases
    case add
    have n: "file \<notin> set (keys (ep_map st))" using add(2) by (simp add: map_of_eq_None_iff)
    then have "e \<notin> set (fs_listeners (w_streams w file))"
      using epoll_syncD(3) [OF sync, of e "file"] by (simp add: watches_epoll_map [OF Some])
    then show ?thesis
      using sync add enabled Some ok n
      by (auto simp: EPollStream_epoll_ctl_def epoll_ops smap_insert_def StartListeningTo_def
          epoll_sync_def watches_def keys_smap_put set_smap_put smap_put_ok split: option.splits if_splits)
  next
    case md
    then have i: "insert file (set (keys (ep_map st))) = set (keys (ep_map st))"
      by (auto simp: map_of_eq_None_iff)
    have "\<And>s. s \<in> fst ` set (smap_put file event (ep_map st)) \<longleftrightarrow> s \<in> fst ` set (ep_map st)"
      using i by (auto simp: set_smap_put)
    then show ?thesis
      using sync md Some ok
      by (auto simp: EPollStream_epoll_ctl_def epoll_ops epoll_sync_def watches_def smap_put_ok
          split: option.splits)
  next
    case del
    have "\<And>s. s \<in> fst ` set (smap_del file (ep_map st)) \<longleftrightarrow> s \<in> fst ` set (ep_map st) \<and> s \<noteq> file"
      using keys_smap_del [OF ok, of "file"] by auto
    then show ?thesis
      using sync del Some ok
      by (auto simp: EPollStream_epoll_ctl_def epoll_ops epoll_sync_def watches_def StopListeningTo_def
          smap_del_ok distinct_removeAll split: option.splits if_splits)
  next
    case err
    with sync show ?thesis by simp
  qed
qed

lemma fold_handle:
  fixes w :: "'a epoll_world_scheme" and s :: sid and ls :: "sid list"
  assumes "\<forall>e st. w_epoll w e = Some st \<longrightarrow> smap_ok (ep_map st)"
  defines "w' \<equiv> fold (\<lambda>l. vt_HandleNotificationFrom epoll_vtable l s True) ls w"
  shows "w_streams w' = w_streams w"
    "\<forall>e st. w_epoll w' e = Some st \<longrightarrow> smap_ok (ep_map st)"
    "watches w' e t \<longleftrightarrow> watches w e t \<and> \<not> (t = s \<and> e \<in> set ls)"
proof -
  have "w_streams w' = w_streams w \<and> (\<forall>e st. w_epoll w' e = Some st \<longrightarrow> smap_ok (ep_map st)) \<and>
    (\<forall>e t. watches w' e t \<longleftrightarrow> watches w e t \<and> \<not> (t = s \<and> e \<in> set ls))"
    using assms(1) unfolding w'_def
  proof (induction ls arbitrary: w)
    case (Cons l ls)
    let ?w1 = "EPollStream_HandleNotificationFrom l s True w"
    have ok: "\<forall>e st. w_epoll ?w1 e = Some st \<longrightarrow> smap_ok (ep_map st)"
      using Cons.prems by (auto simp: smap_del_ok)
    have "watches ?w1 e t \<longleftrightarrow> watches w e t \<and> \<not> (t = s \<and> e = l)" for e t
    proof (cases "w_epoll w l")
      case (Some st)
      then show ?thesis
        using Cons.prems keys_smap_del [of "ep_map st" s] by (auto simp: watches_def)
    qed (auto simp: watches_def)
    then show ?case using Cons.IH [OF ok] by (auto simp: epoll_vtable_def)
  qed simp
  then show "w_streams w' = w_streams w"
    "\<forall>e st. w_epoll w' e = Some st \<longrightarrow> smap_ok (ep_map st)"
    "watches w' e t \<longleftrightarrow> watches w e t \<and> \<not> (t = s \<and> e \<in> set ls)" by auto
qed

lemma watches_upd_stream [simp]: "watches (upd_stream s f w) e t = watches w e t"
  by (simp add: watches_def)

lemma OnLast_effect:
  assumes sync: "epoll_sync w"
  shows "epoll_sync (EPollStream_OnLastFileRef s w)"
    "watches (EPollStream_OnLastFileRef s w) e t \<longleftrightarrow> watches w e t \<and> e \<noteq> s"
proof -
  let ?w = "EPollStream_OnLastFileRef s w"
  have wt: "watches ?w e t \<longleftrightarrow> watches w e t \<and> e \<noteq> s" for e t
    by (auto simp: EPollStream_OnLastFileRef_def watches_def fold_stop_streams split: option.splits)
  have ls: "fs_listeners (w_streams ?w t) =
      (if watches w s t then removeAll s (fs_listeners (w_streams w t)) else fs_listeners (w_streams w t))" for t
    by (auto simp: EPollStream_OnLastFileRef_def watches_def fold_stop_streams split: option.splits)
  have "smap_ok (ep_map st)" if "w_epoll ?w e = Some st" for e st
    using that epoll_syncD(1) [OF sync, of e]
    by (auto simp: EPollStream_OnLastFileRef_def fold_stop_streams split: option.splits if_splits)
  then show "epoll_sync ?w"
    using epoll_syncD(2,3) [OF sync] unfolding epoll_sync_def wt ls
    by (auto simp: distinct_removeAll)
  show "watches ?w e t \<longleftrightarrow> watches w e t \<and> e \<noteq> s" by (rule wt)
qed

lemma release_sync:
  fixes w :: "'a epoll_world_scheme"
  assumes sync: "epoll_sync w"
  shows "epoll_sync (ReleaseFileRef epoll_vtable s w)"
    "fs_file_ref_count (w_streams w s) = 1 \<Longrightarrow>
       watches (ReleaseFileRef epoll_vtable s w) e t \<longleftrightarrow> watches w e t \<and> e \<noteq> s \<and> t \<noteq> s"
proof -
  let ?w1 = "upd_stream s (\<lambda>f. f\<lparr>fs_file_ref_count := fs_file_ref_count f - 1\<rparr>) w"
  let ?ls = "fs_listeners (w_streams ?w1 s)"
  let ?w2 = "fold (\<lambda>l. vt_HandleNotificationFrom epoll_vtable l s True) ?ls ?w1"
  let ?w3 = "upd_stream s (\<lambda>f. f\<lparr>fs_listeners := []\<rparr>) ?w2"
  have sync1: "epoll_sync ?w1" using sync by (simp add: epoll_sync_def)
  have ok1: "\<forall>e st. w_epoll ?w1 e = Some st \<longrightarrow> smap_ok (ep_map st)" using epoll_syncD(1) [OF sync1] by auto
  note h = fold_handle [OF ok1, of s ?ls]
  have w3: "watches ?w3 e t \<longleftrightarrow> watches w e t \<and> t \<noteq> s" for e t
  proof -
    have "watches ?w3 e t \<longleftrightarrow> watches ?w1 e t \<and> \<not> (t = s \<and> e \<in> set ?ls)" using h(3) by simp
    moreover have "watches ?w1 e s \<longleftrightarrow> e \<in> set ?ls" by (rule epoll_syncD(3) [OF sync1])
    ultimately show ?thesis by (auto simp: watches_upd_stream)
  qed
  have "epoll_sync ?w3"
    unfolding epoll_sync_def w3
    using h(1,2) epoll_syncD(2,3) [OF sync] by auto
  then have "epoll_sync (EPollStream_OnLastFileRef s ?w3)"
    "\<And>e t. watches (EPollStream_OnLastFileRef s ?w3) e t \<longleftrightarrow> watches w e t \<and> e \<noteq> s \<and> t \<noteq> s"
    using OnLast_effect [of ?w3] w3 by auto
  moreover have "ReleaseFileRef epoll_vtable s w =
      (if fs_file_ref_count (w_streams ?w1 s) \<noteq> 0 then ?w1 else EPollStream_OnLastFileRef s ?w3)"
    by (simp add: ReleaseFileRef_def Let_def epoll_vtable_def)
  ultimately show "epoll_sync (ReleaseFileRef epoll_vtable s w)"
    "fs_file_ref_count (w_streams w s) = 1 \<Longrightarrow>
       watches (ReleaseFileRef epoll_vtable s w) e t \<longleftrightarrow> watches w e t \<and> e \<noteq> s \<and> t \<noteq> s"
    using sync1 by auto
qed

section \<open>Properties\<close>


text \<open>Stream 1 (listening enabled, one reference) watched by the epoll stream 5.\<close>

definition small_epoll :: epoll_world where
  "small_epoll = \<lparr>w_streams = (\<lambda>_. FileStream 0 [] 0)
       (1 := (FileStream 0 [] 0)\<lparr>fs_is_listening_enabled := True, fs_listeners := [5],
          fs_file_ref_count := 1, fs_had_file_refs := True\<rparr>),
     w_epoll = [5 \<mapsto> \<lparr>ep_map = [(1, \<lparr>ev_events = 1, ev_data = 42\<rparr>)], ep_broadcasts = 0\<rparr>]\<rparr>"

lemma small_epoll_sync: "epoll_sync small_epoll"
  by (auto simp: epoll_sync_def small_epoll_def watches_def FileStream_def)


text \<open>
  C34. Adding a stream that does not support listeners fails with \<open>EPERM\<close>, but the entry is
  already in the map by then and stays there: the epoll stream now watches a stream that
  will never tell it about its closing, and a second attempt reports \<open>EEXIST\<close>.
\<close>

theorem epoll_ctl_add_leaves_entry:
  assumes "w_epoll w e = Some st" and "map_of (ep_map st) file = None"
    and "\<not> fs_is_listening_enabled (w_streams w file)"
  shows "fst (EPollStream_epoll_ctl e EPOLL_CTL_ADD file event w) = Err EPERM \<and>
    watches (snd (EPollStream_epoll_ctl e EPOLL_CTL_ADD file event w)) e file \<and>
    fst (EPollStream_epoll_ctl e EPOLL_CTL_ADD file event
          (snd (EPollStream_epoll_ctl e EPOLL_CTL_ADD file event w))) = Err EEXIST"
  using assms
  by (simp add: EPollStream_epoll_ctl_def smap_insert_def StartListeningTo_def watches_def
      set_smap_put map_of_smap_put)

theorem epoll_ctl_add_leaves_entry_witness:
  "fst (EPollStream_epoll_ctl 5 EPOLL_CTL_ADD 2 \<lparr>ev_events = 1, ev_data = 0\<rparr> small_epoll) = Err EPERM \<and>
   watches (snd (EPollStream_epoll_ctl 5 EPOLL_CTL_ADD 2 \<lparr>ev_events = 1, ev_data = 0\<rparr> small_epoll)) 5 2"
  using epoll_ctl_add_leaves_entry [of small_epoll 5
      "\<lparr>ep_map = [(1, \<lparr>ev_events = 1, ev_data = 42\<rparr>)], ep_broadcasts = 0\<rparr>" 2 "\<lparr>ev_events = 1, ev_data = 0\<rparr>"]
  by (simp add: small_epoll_def FileStream_def)

lemma epoll_scan_eq:
  "count < maxevents \<Longrightarrow> epoll_scan poll maxevents count m =
     take (maxevents - count)
       (map (\<lambda>x. \<lparr>ev_events = entry_events poll x, ev_data = ev_data (snd x)\<rparr>)
         (filter (\<lambda>x. entry_events poll x \<noteq> 0) m))"
proof (induction poll maxevents count m rule: epoll_scan.induct)
  case (2 poll maxevents count x m)
  show ?case
  proof (cases "entry_events poll x \<noteq> 0 \<and> count + 1 \<noteq> maxevents")
    case True
    then have "maxevents - count = Suc (maxevents - (count + 1))" using "2.prems" by simp
    with True 2 show ?thesis by (simp add: Let_def)
  next
    case False
    with 2 show ?thesis by (auto simp: Let_def)
  qed
qed simp

text \<open>
  C36. \<open>epoll_wait\<close>: with a buffer for \<open>maxevents > 0\<close> events it never returns more than that;
  a poll (timeout 0) returns at once; and when a wait returns, it returns the first ready
  entries, in map order, of the view seen at its last wake-up, and either there are some or
  the time limit has passed.
\<close>

theorem epoll_wait_correct:
  assumes "0 < maxevents"
  shows "(timeout = 0 \<longrightarrow> EPollStream_epoll_wait True maxevents timeout view wakeups \<noteq> None) \<and>
    (\<forall>evs. EPollStream_epoll_wait True maxevents timeout view wakeups = Some (Ret evs) \<longrightarrow>
      (\<exists>timedout m poll. (timedout, m, poll) \<in> set ((timeout = 0, view) # wakeups) \<and>
         evs = take (nat maxevents)
           (map (\<lambda>x. \<lparr>ev_events = entry_events poll x, ev_data = ev_data (snd x)\<rparr>)
             (filter (\<lambda>x. entry_events poll x \<noteq> 0) m)) \<and>
         (evs \<noteq> [] \<or> timedout)))"
proof -
  have loop: "\<exists>timedout m poll. (timedout, m, poll) \<in> set ((td, view) # wakeups) \<and>
      evs = epoll_scan poll n 0 m \<and> (evs \<noteq> [] \<or> timedout)"
    if "epoll_wait_loop n td view wakeups = Some evs" for n td evs
    using that
  proof (induction n td view wakeups rule: epoll_wait_loop.induct)
    case (1 n td m poll wakeups)
    show ?case
    proof (cases "td \<or> epoll_scan poll n 0 m \<noteq> []")
      case True
      with "1.prems" show ?thesis by (auto simp: Let_def)
    next
      case False
      with "1.prems" obtain td' view' rest where w: "wakeups = (td', view') # rest"
        and r: "epoll_wait_loop n td' view' rest = Some evs"
        by (auto simp: Let_def split: list.splits)
      obtain td2 m2 poll2 where "(td2, m2, poll2) \<in> set ((td', view') # rest)"
        "evs = epoll_scan poll2 n 0 m2" "evs \<noteq> [] \<or> td2"
        using "1.IH" [OF refl False w refl r] by blast
      then show ?thesis unfolding w by (intro exI [of _ td2] exI [of _ m2] exI [of _ poll2]) auto
    qed
  qed
  have "0 < nat maxevents" using assms by simp
  then show ?thesis
    using loop [of "nat maxevents" "timeout = 0"] assms
    by (cases view) (auto simp: EPollStream_epoll_wait_def epoll_scan_eq Let_def)
qed

theorem epoll_wait_correct_witness:
  "EPollStream_epoll_wait True 2 0 ([(1, \<lparr>ev_events = 1, ev_data = 42\<rparr>)], \<lambda>_. POLLIN) [] \<noteq> None"
  using epoll_wait_correct [of 2 0 "([(1, \<lparr>ev_events = 1, ev_data = 42\<rparr>)], \<lambda>_. POLLIN)" "[]"] by simp

end
