(* ===== verification/Mem_Region.thy ===== *)
theory Mem_Region
  imports File_Stream
begin

text \<open>
  Memory mappings: \<^verbatim>\<open>src/src/posix_translation/memory_region.cc\<close> and
  \<^verbatim>\<open>address_util.cc\<close>. Addresses are natural numbers below \<open>2 ^ 32\<close>, and the arithmetic on
  them wraps as that of 32-bit pointers does. A region \<open>[start, end]\<close> is kept as two nodes of
  an ordered map, the start at an even and the end at an odd address. The operations of the
  mapped streams are fields of a record. The properties are about ranges that do not wrap
  past the top of the address space; what happens to one that does is
  \<open>wrapped_unmap_corrupts\<close>.
\<close>

section \<open>Page arithmetic\<close>

text \<open>\<^verbatim>\<open>size_t\<close> has 32 bits; the page size is the system's.\<close>

definition RoundToPageSize :: "u32 \<Rightarrow> u32 \<Rightarrow> u32" where
  "RoundToPageSize page_size len = (len + page_size - 1) AND NOT (page_size - 1)"

definition IsPageAligned :: "u32 \<Rightarrow> u32 \<Rightarrow> bool" where
  "IsPageAligned page_size addr \<longleftrightarrow> addr AND (page_size - 1) = 0"

text \<open>\<^verbatim>\<open>__builtin_ctz\<close>: the index of the least bit that is set.\<close>

definition CountTrailingZeros :: "u32 \<Rightarrow> nat" where
  "CountTrailingZeros value =
     (if value = 0 then 32 else (case find (bit value) [0 ..< 32] of Some n \<Rightarrow> n | None \<Rightarrow> 32))"

definition GetPageSizeAsNumBits :: "u32 \<Rightarrow> nat" where
  "GetPageSizeAsNumBits page_size = CountTrailingZeros page_size"

section \<open>The map of regions\<close>

record page_map_value =
  pm_ref :: nat
  pm_offset :: int
  pm_stream :: "sid option"

type_synonym page_to_stream = "(nat, page_map_value) smap"

record memory_region =
  mr_map :: page_to_stream
  mr_write_mapped :: "int list"

definition MemoryRegion :: memory_region where
  "MemoryRegion = \<lparr>mr_map = [], mr_write_mapped = []\<rparr>"

definition IsPageEndAddress :: "nat \<Rightarrow> bool" where
  "IsPageEndAddress addr \<longleftrightarrow> odd addr"

definition PROT_WRITE :: u32 where "PROT_WRITE = 2"
definition MAP_FIXED :: u32 where "MAP_FIXED = 0x10"

text \<open>
  What the code calls on mapped streams: \<open>munmap\<close> and \<open>mprotect\<close> report an error number or
  success, \<open>madvise\<close> its integer result with the error number.
\<close>

record 'w mapped_ops =
  mo_munmap :: "sid \<Rightarrow> nat \<Rightarrow> nat \<Rightarrow> 'w \<Rightarrow> errno option \<times> 'w"
  mo_OnUnmapByOverwritingMmap :: "sid \<Rightarrow> nat \<Rightarrow> nat \<Rightarrow> 'w \<Rightarrow> 'w"
  mo_mprotect :: "sid \<Rightarrow> nat \<Rightarrow> nat \<Rightarrow> u32 \<Rightarrow> 'w \<Rightarrow> errno option \<times> 'w"
  mo_madvise :: "sid \<Rightarrow> nat \<Rightarrow> nat \<Rightarrow> madv \<Rightarrow> 'w \<Rightarrow> (int \<times> errno) \<times> 'w"
  mo_ReturnsSameAddressForMultipleMmaps :: "sid \<Rightarrow> bool"
  mo_pathname :: "sid \<Rightarrow> string"
  mo_inode :: "sid \<Rightarrow> int"

text \<open>
  Pointer arithmetic: the last address of a range (\<^verbatim>\<open>addr + length - 1\<close>), the \<^verbatim>\<open>size_t\<close> between
  two addresses, both included, and a difference read as a \<^verbatim>\<open>ptrdiff_t\<close>.
\<close>

definition end_address :: "nat \<Rightarrow> nat \<Rightarrow> nat" where
  "end_address addr len = (addr + len + (2 ^ 32 - 1)) mod 2 ^ 32"

definition range_size :: "nat \<Rightarrow> nat \<Rightarrow> nat" where
  "range_size first_addr last_addr = (last_addr + 2 ^ 32 + 1 - first_addr) mod 2 ^ 32"

definition ptrdiff :: "int \<Rightarrow> int" where
  "ptrdiff d = (d + 2 ^ 31) mod 2 ^ 32 - 2 ^ 31"

text \<open>The node after \<open>addr\<close> must be the end of the very region asked for.\<close>

fun next_node :: "nat \<Rightarrow> page_to_stream \<Rightarrow> nat option" where
  "next_node addr [] = None"
| "next_node addr ((k, v) # m) = (if k = addr then (case m of [] \<Rightarrow> None | (k', _) # _ \<Rightarrow> Some k') else next_node addr m)"

definition FindRegion :: "nat \<Rightarrow> nat \<Rightarrow> page_to_stream \<Rightarrow> page_map_value option" where
  "FindRegion addr len m =
     (case map_of m addr of
        None \<Rightarrow> None
      | Some v \<Rightarrow> if next_node addr m = Some (end_address addr len) then Some v else None)"

text \<open>
  \<open>IsOverlap\<close> looks at the neighbours of the two nodes just inserted: the end must directly
  follow the start, and the node before the start must not be a start.
\<close>

definition prev_node :: "nat \<Rightarrow> page_to_stream \<Rightarrow> nat option" where
  "prev_node addr m = (case filter (\<lambda>k. k < addr) (keys m) of [] \<Rightarrow> None | ks \<Rightarrow> Some (last ks))"

definition IsOverlap :: "nat \<Rightarrow> nat \<Rightarrow> page_to_stream \<Rightarrow> bool" where
  "IsOverlap addr_start addr_end m \<longleftrightarrow>
     next_node addr_start m \<noteq> Some addr_end \<or>
     (case prev_node addr_start m of None \<Rightarrow> False | Some p \<Rightarrow> \<not> IsPageEndAddress p)"

text \<open>
  A region that is found again always has a stream: regions without one exist only while
  \<^verbatim>\<open>IsMemoryRangeAvailable\<close> probes a range, so that a missing one counts as a mismatch.
  When the range wraps past the top of the address space its end node lies before its start
  node, and \<^verbatim>\<open>std::distance\<close> walks past the end of the map: the result is \<open>Fatal\<close>.
\<close>

definition AddFileStreamByAddr ::
  "'w mapped_ops \<Rightarrow> nat \<Rightarrow> nat \<Rightarrow> int \<Rightarrow> u32 \<Rightarrow> u32 \<Rightarrow> sid option \<Rightarrow> memory_region \<Rightarrow> bool outcome \<times> memory_region" where
  "AddFileStreamByAddr ops addr len offset prot flags stream mr =
     (if len = 0 then (Ret False, mr)
      else case (case stream of None \<Rightarrow> None | Some s \<Rightarrow> FindRegion addr len (mr_map mr)) of
        Some region \<Rightarrow>
          if flags AND MAP_FIXED \<noteq> 0 \<or>
             \<not> mo_ReturnsSameAddressForMultipleMmaps ops (the stream) \<or>
             (case pm_stream region of None \<Rightarrow> True | Some r \<Rightarrow>
                \<not> mo_ReturnsSameAddressForMultipleMmaps ops r \<or>
                mo_pathname ops (the stream) \<noteq> mo_pathname ops r)
          then (Ret False, mr)
          else (Ret True, mr\<lparr>mr_map := smap_put addr (region\<lparr>pm_ref := pm_ref region + 1\<rparr>) (mr_map mr)\<rparr>)
      | None \<Rightarrow>
          let value = \<lparr>pm_ref = 1, pm_offset = offset, pm_stream = stream\<rparr>;
              (m1, start_inserted) = smap_insert addr value (mr_map mr)
          in if \<not> start_inserted then (Ret False, mr)
             else
               let addr_end = end_address addr len;
                   (m2, end_inserted) = smap_insert addr_end value m1
               in if \<not> end_inserted then (Ret False, mr\<lparr>mr_map := smap_del addr m1\<rparr>)
                  else if addr_end < addr then (Fatal, mr\<lparr>mr_map := m2\<rparr>)
                  else if IsOverlap addr addr_end m2
                  then (Ret False, mr\<lparr>mr_map := smap_del addr_end (smap_del addr m2)\<rparr>)
                  else (Ret True, mr\<lparr>mr_map := m2,
                         mr_write_mapped :=
                           (case stream of
                              Some s \<Rightarrow> if prot AND PROT_WRITE \<noteq> 0
                                         then List.insert (mo_inode ops s) (mr_write_mapped mr)
                                         else mr_write_mapped mr
                            | None \<Rightarrow> mr_write_mapped mr)\<rparr>))"

definition RemoveOneRegion ::
  "page_map_value \<Rightarrow> nat \<Rightarrow> nat \<Rightarrow> nat \<Rightarrow> nat \<Rightarrow> page_to_stream \<Rightarrow> page_to_stream" where
  "RemoveOneRegion value remove_start remove_end region_start region_end m =
     (let right_len = ptrdiff (int region_end - int (remove_end + 1)) + 1;
          left_len = ptrdiff (int remove_start - 1 - int region_start) + 1;
          m1 = (if 0 < left_len then fst (smap_insert (remove_start - 1) value m)
                else smap_del region_start m)
      in if 0 < right_len then fst (smap_insert (remove_end + 1) value m1)
         else smap_del region_end m1)"

text \<open>
  The first node to look at: \<^verbatim>\<open>lower_bound\<close>, moved back by one when it is the end of a region.
  The map is cut in two at that node.
\<close>

definition first_region :: "nat \<Rightarrow> page_to_stream \<Rightarrow> page_to_stream \<times> page_to_stream" where
  "first_region addr m =
     (let before = takeWhile (\<lambda>(k, v). k < addr) m; rest = dropWhile (\<lambda>(k, v). k < addr) m in
      case rest of
        [] \<Rightarrow> (before, [])
      | (k, v) # _ \<Rightarrow>
          if IsPageEndAddress k then (butlast before, (if before = [] then rest else last before # rest))
          else (before, rest))"

text \<open>Text pages cannot be unmapped under Native Client; \<open>nacl\<close> says whether that is the target.\<close>

definition kTextEndAddress :: nat where
  "kTextEndAddress = 256 * 1024 * 1024"

text \<open>
  The loop over the regions from the first one on. \<open>RemoveOneRegion\<close> only touches nodes
  inside the current region, so the nodes still to come are those of the map at the start.
\<close>

fun remove_loop ::
  "'w mapped_ops \<Rightarrow> bool \<Rightarrow> bool \<Rightarrow> nat \<Rightarrow> nat \<Rightarrow> bool \<Rightarrow> page_to_stream \<Rightarrow> page_to_stream \<times> 'w \<Rightarrow>
   bool outcome \<times> page_to_stream \<times> 'w" where
  "remove_loop ops nacl call_munmap remove_start remove_end found [] c = (Ret found, c)"
| "remove_loop ops nacl call_munmap remove_start remove_end found [x] c = (Fatal, c)"
| "remove_loop ops nacl call_munmap remove_start remove_end found ((s, v) # (e, u) # rest) c =
     (if remove_end < s then (Ret found, c)
      else if 1 < pm_ref v then (Err ENOSYS, c)
      else
        let start_in = max remove_start s;
            end_in = min remove_end e;
            value = \<lparr>pm_ref = 1, pm_offset = pm_offset v, pm_stream = pm_stream v\<rparr>;
            m = RemoveOneRegion value start_in end_in s e (fst c);
            len = range_size start_in end_in
        in case pm_stream v of
             None \<Rightarrow> remove_loop ops nacl call_munmap remove_start remove_end True rest (m, snd c)
           | Some stream \<Rightarrow>
               if call_munmap then
                 (case mo_munmap ops stream start_in len (snd c) of
                    (None, w) \<Rightarrow> remove_loop ops nacl call_munmap remove_start remove_end True rest (m, w)
                  | (Some err, w) \<Rightarrow>
                      if nacl \<and> start_in < kTextEndAddress
                      then remove_loop ops nacl call_munmap remove_start remove_end True rest (m, w)
                      else (Err err, m, w))
               else remove_loop ops nacl call_munmap remove_start remove_end True rest
                      (m, mo_OnUnmapByOverwritingMmap ops stream start_in len (snd c)))"

definition RemoveFileStreamsByAddr ::
  "'w mapped_ops \<Rightarrow> bool \<Rightarrow> nat \<Rightarrow> nat \<Rightarrow> bool \<Rightarrow> memory_region \<times> 'w \<Rightarrow> int outcome \<times> memory_region \<times> 'w" where
  "RemoveFileStreamsByAddr ops nacl addr len call_munmap = (\<lambda>(mr, w).
     if len = 0 then (Err EINVAL, mr, w)
     else
       let region = FindRegion addr len (mr_map mr) in
       if region \<noteq> None \<and> 1 < pm_ref (the region)
       then (Ret 0, mr\<lparr>mr_map := smap_put addr ((the region)\<lparr>pm_ref := pm_ref (the region) - 1\<rparr>) (mr_map mr)\<rparr>, w)
       else
         (case remove_loop ops nacl call_munmap addr (end_address addr len) False
                 (snd (first_region addr (mr_map mr))) (mr_map mr, w) of
            (Ret found, m, w') \<Rightarrow> (if found then Ret 0 else Err ENOSYS, mr\<lparr>mr_map := m\<rparr>, w')
          | (Err err, m, w') \<Rightarrow> (Err err, mr\<lparr>mr_map := m\<rparr>, w')
          | (Fatal, m, w') \<Rightarrow> (Fatal, mr\<lparr>mr_map := m\<rparr>, w')))"

section \<open>Visitors\<close>

text \<open>
  A visitor is a function on its own state and the world that says whether to go on
  (\<open>Ret\<close>), or aborts the process.
\<close>

type_synonym ('v, 'w) visitor = "page_map_value \<Rightarrow> sid \<Rightarrow> nat \<Rightarrow> nat \<Rightarrow> 'v \<times> 'w \<Rightarrow> bool outcome \<times> 'v \<times> 'w"

fun visit_loop :: "('v, 'w) visitor \<Rightarrow> nat \<Rightarrow> nat \<Rightarrow> page_to_stream \<Rightarrow> 'v \<times> 'w \<Rightarrow> unit outcome \<times> 'v \<times> 'w" where
  "visit_loop visit start_addr end_addr [] c = (Ret (), c)"
| "visit_loop visit start_addr end_addr [x] c = (Fatal, c)"
| "visit_loop visit start_addr end_addr ((s, v) # (e, u) # rest) c =
     (if end_addr < s then (Ret (), c)
      else case pm_stream v of
             None \<Rightarrow> visit_loop visit start_addr end_addr rest c
           | Some stream \<Rightarrow>
               (case visit v stream (max start_addr s) (min end_addr e) c of
                  (Ret True, c') \<Rightarrow> visit_loop visit start_addr end_addr rest c'
                | (Ret False, c') \<Rightarrow> (Ret (), c')
                | (Err err, c') \<Rightarrow> (Err err, c')
                | (Fatal, c') \<Rightarrow> (Fatal, c')))"

definition CallByAddr :: "('v, 'w) visitor \<Rightarrow> nat \<Rightarrow> nat \<Rightarrow> page_to_stream \<Rightarrow> 'v \<times> 'w \<Rightarrow> unit outcome \<times> 'v \<times> 'w" where
  "CallByAddr visit addr len m c = visit_loop visit addr (end_address addr len) (snd (first_region addr m)) c"

record advise_visitor =
  av_visited :: bool
  av_errno :: "errno option"

definition AdviseVisitor_Visit :: "'w mapped_ops \<Rightarrow> madv \<Rightarrow> (advise_visitor, 'w) visitor" where
  "AdviseVisitor_Visit ops advice pm stream start_addr end_addr = (\<lambda>(av, w).
     case mo_madvise ops stream start_addr (range_size start_addr end_addr) advice w of
       ((result, err), w') \<Rightarrow>
         let av1 = (if result \<noteq> 0 then av\<lparr>av_errno := Some err\<rparr> else av) in
         if 0 < result then (Fatal, av1, w')
         else (Ret (result = 0), av1\<lparr>av_visited := True\<rparr>, w'))"

definition AdviseVisitor_Finish :: "advise_visitor \<Rightarrow> int outcome" where
  "AdviseVisitor_Finish av =
     (if \<not> av_visited av then Err ENOSYS
      else case av_errno av of Some err \<Rightarrow> Err err | None \<Rightarrow> Ret 0)"

definition SetAdviceByAddr ::
  "'w mapped_ops \<Rightarrow> nat \<Rightarrow> nat \<Rightarrow> madv \<Rightarrow> memory_region \<times> 'w \<Rightarrow> int outcome \<times> memory_region \<times> 'w" where
  "SetAdviceByAddr ops addr len advice = (\<lambda>(mr, w).
     if len = 0 then (Ret 0, mr, w)
     else case CallByAddr (AdviseVisitor_Visit ops advice) addr len (mr_map mr)
                 (\<lparr>av_visited = False, av_errno = None\<rparr>, w) of
            (Ret _, av, w') \<Rightarrow> (AdviseVisitor_Finish av, mr, w')
          | (Err err, av, w') \<Rightarrow> (Err err, mr, w')
          | (Fatal, av, w') \<Rightarrow> (Fatal, mr, w'))"

record protection_visitor =
  pv_visited :: bool
  pv_write_mapped :: "int list"

text \<open>A failing \<^verbatim>\<open>mprotect\<close> is fatal (\<^verbatim>\<open>WriteFailureLog\<close>).\<close>

definition ProtectionVisitor_Visit :: "'w mapped_ops \<Rightarrow> u32 \<Rightarrow> (protection_visitor, 'w) visitor" where
  "ProtectionVisitor_Visit ops prot pm stream start_addr end_addr = (\<lambda>(pv, w).
     case mo_mprotect ops stream start_addr (range_size start_addr end_addr) prot w of
       (None, w') \<Rightarrow>
         (Ret True, pv\<lparr>pv_write_mapped :=
              (if prot AND PROT_WRITE \<noteq> 0 then List.insert (mo_inode ops stream) (pv_write_mapped pv)
               else pv_write_mapped pv), pv_visited := True\<rparr>, w')
     | (Some err, w') \<Rightarrow> (Fatal, pv, w'))"

definition ProtectionVisitor_Finish :: "protection_visitor \<Rightarrow> int outcome" where
  "ProtectionVisitor_Finish pv = (if \<not> pv_visited pv then Err ENOSYS else Ret 0)"

definition ChangeProtectionModeByAddr ::
  "'w mapped_ops \<Rightarrow> nat \<Rightarrow> nat \<Rightarrow> u32 \<Rightarrow> memory_region \<times> 'w \<Rightarrow> int outcome \<times> memory_region \<times> 'w" where
  "ChangeProtectionModeByAddr ops addr len prot = (\<lambda>(mr, w).
     if len = 0 then (Ret 0, mr, w)
     else case CallByAddr (ProtectionVisitor_Visit ops prot) addr len (mr_map mr)
                 (\<lparr>pv_visited = False, pv_write_mapped = mr_write_mapped mr\<rparr>, w) of
            (Ret _, pv, w') \<Rightarrow>
              (ProtectionVisitor_Finish pv, mr\<lparr>mr_write_mapped := pv_write_mapped pv\<rparr>, w')
          | (Err err, pv, w') \<Rightarrow> (Err err, mr\<lparr>mr_write_mapped := pv_write_mapped pv\<rparr>, w')
          | (Fatal, pv, w') \<Rightarrow> (Fatal, mr\<lparr>mr_write_mapped := pv_write_mapped pv\<rparr>, w'))"

definition IsWriteMapped :: "int \<Rightarrow> memory_region \<Rightarrow> bool" where
  "IsWriteMapped inode mr \<longleftrightarrow> inode \<in> set (mr_write_mapped mr)"

definition IsCurrentlyMapped :: "'w mapped_ops \<Rightarrow> int \<Rightarrow> memory_region \<Rightarrow> bool" where
  "IsCurrentlyMapped ops inode mr \<longleftrightarrow>
     list_ex (\<lambda>(k, v). case pm_stream v of Some s \<Rightarrow> mo_inode ops s = inode | None \<Rightarrow> False) (mr_map mr)"

section \<open>Inserting and deleting in the middle\<close>

lemma smap_put_mid:
  "\<forall>x \<in> set pre. fst x < k \<Longrightarrow> \<forall>x \<in> set post. k < fst x \<Longrightarrow> smap_put k v (pre @ post) = pre @ (k, v) # post"
proof (induction pre)
  case Nil
  then show ?case by (cases post) auto
qed auto

lemma smap_put_same:
  "\<forall>x \<in> set pre. fst x < k \<Longrightarrow> smap_put k v (pre @ (k, u) # post) = pre @ (k, v) # post"
  by (induction pre) auto

lemma smap_del_mid: "k \<notin> fst ` set pre \<Longrightarrow> smap_del k (pre @ (k, v) # post) = pre @ post"
  by (induction pre) auto

lemma smap_insert_mid:
  assumes "\<forall>x \<in> set pre. fst x < k" "\<forall>x \<in> set post. k < fst x"
  shows "smap_insert k v (pre @ post) = (pre @ (k, v) # post, True)"
proof -
  have "k \<notin> fst ` set (pre @ post)" using assms by auto
  then have "map_of (pre @ post) k = None" by (simp only: map_of_eq_None_iff not_False_eq_True)
  then show ?thesis by (simp only: smap_insert_def option.case smap_put_mid [OF assms])
qed

section \<open>The invariant and the mapping it stands for\<close>

text \<open>
  The nodes come in pairs of an even start and an odd end with the same stream and a
  positive count; together with the order of the map the regions are disjoint. All
  addresses have 32 bits.
\<close>

fun paired :: "page_to_stream \<Rightarrow> bool" where
  "paired [] \<longleftrightarrow> True"
| "paired [x] \<longleftrightarrow> False"
| "paired ((s, v) # (e, u) # m) \<longleftrightarrow>
     \<not> IsPageEndAddress s \<and> IsPageEndAddress e \<and> 0 < pm_ref v \<and> pm_stream u = pm_stream v \<and> paired m"

definition mr_inv :: "page_to_stream \<Rightarrow> bool" where
  "mr_inv m \<longleftrightarrow> smap_ok m \<and> paired m \<and> (\<forall>k \<in> set (keys m). k < 2 ^ 32)"

text \<open>The regions as triples of first address, last address and value.\<close>

fun regions :: "page_to_stream \<Rightarrow> (nat \<times> nat \<times> page_map_value) list" where
  "regions ((s, v) # (e, u) # m) = (s, e, v) # regions m"
| "regions _ = []"

lemma regions_keys: "(s, e, v) \<in> set (regions m) \<Longrightarrow> s \<in> fst ` set m \<and> e \<in> fst ` set m"
  by (induction m rule: regions.induct) auto

text \<open>\<^verbatim>\<open>ptrdiff_t\<close> differences inside a region are exact up to a length of 2 GiB.\<close>

definition regions_up_to_2G :: "page_to_stream \<Rightarrow> bool" where
  "regions_up_to_2G m \<longleftrightarrow> list_all (\<lambda>(s, e, v). e < s + 2 ^ 31) (regions m)"

lemma regions_up_to_2G_Cons [simp]:
  "regions_up_to_2G ((s, v) # (e, u) # m) \<longleftrightarrow> e < s + 2 ^ 31 \<and> regions_up_to_2G m"
  by (simp add: regions_up_to_2G_def)

lemma regions_append: "paired pre \<Longrightarrow> regions (pre @ post) = regions pre @ regions post"
  by (induction pre rule: paired.induct) auto

lemma end_address_exact: "0 < len \<Longrightarrow> addr + len \<le> 2 ^ 32 \<Longrightarrow> end_address addr len = addr + len - 1"
proof -
  assume a: "0 < len" "addr + len \<le> 2 ^ 32"
  then have "addr + len + (2 ^ 32 - 1) = (addr + len - 1) + 2 ^ 32" by simp
  then show ?thesis using a unfolding end_address_def by (simp only: mod_add_self2) simp
qed

lemma range_size_exact: "s \<le> e \<Longrightarrow> e - s < 2 ^ 31 \<Longrightarrow> range_size s e = e - s + 1"
proof -
  assume a: "s \<le> e" "e - s < 2 ^ 31"
  then have "e + 2 ^ 32 + 1 - s = (e - s + 1) + 2 ^ 32" by simp
  then show ?thesis using a unfolding range_size_def by (simp only: mod_add_self2) simp
qed

lemma ptrdiff_exact: "- (2 ^ 31) \<le> d \<Longrightarrow> d < 2 ^ 31 \<Longrightarrow> ptrdiff d = d"
  unfolding ptrdiff_def by (subst mod_pos_pos_trivial) simp_all

text \<open>The abstract view: which mapping, if any, an address belongs to.\<close>

fun mapped_at :: "page_to_stream \<Rightarrow> nat \<Rightarrow> page_map_value option" where
  "mapped_at ((s, v) # (e, u) # m) a = (if s \<le> a \<and> a \<le> e then Some v else mapped_at m a)"
| "mapped_at _ a = None"

lemma paired_append: "paired pre \<Longrightarrow> paired (pre @ post) \<longleftrightarrow> paired post"
  by (induction pre rule: paired.induct) auto

lemma mapped_at_append:
  "paired pre \<Longrightarrow> mapped_at (pre @ post) a = (case mapped_at pre a of Some v \<Rightarrow> Some v | None \<Rightarrow> mapped_at post a)"
  by (induction pre rule: paired.induct) auto

lemma mapped_at_low:
  "(\<And>k. k \<in> fst ` set m \<Longrightarrow> a < k) \<Longrightarrow> mapped_at m a = None"
  by (induction m a rule: mapped_at.induct) force+

lemma mapped_at_high:
  "(\<And>k. k \<in> fst ` set m \<Longrightarrow> k < a) \<Longrightarrow> mapped_at m a = None"
  by (induction m a rule: mapped_at.induct) force+

text \<open>Cutting a range out of a list of regions, the meaning of the removal loop.\<close>

fun cut_range :: "nat \<Rightarrow> nat \<Rightarrow> page_to_stream \<Rightarrow> page_to_stream" where
  "cut_range lo hi ((s, v) # (e, u) # m) =
     (if hi < s then (s, v) # (e, u) # m
      else (let w = \<lparr>pm_ref = 1, pm_offset = pm_offset v, pm_stream = pm_stream v\<rparr> in
            (if s < lo then [(s, v), (lo - 1, w)] else []) @ (if hi < e then [(hi + 1, w), (e, u)] else []))
           @ cut_range lo hi m)"
| "cut_range lo hi m = m"

lemma RemoveOneRegion_cut:
  assumes sorted: "smap_ok (pre @ (s, v) # (e, u) # rest)"
    and par: "even s" "odd e" "even lo" "odd hi"
    and overlap: "s \<le> hi" "lo \<le> e" "lo < hi" and small: "e < s + 2 ^ 31"
  shows "RemoveOneRegion val (max lo s) (min hi e) s e (pre @ (s, v) # (e, u) # rest) =
     pre @ (if s < lo then [(s, v), (lo - 1, val)] else []) @ (if hi < e then [(hi + 1, val), (e, u)] else []) @ rest"
proof -
  have pre: "\<forall>x \<in> set pre. fst x < s" and rest: "\<forall>x \<in> set rest. e < fst x" and se: "s < e"
    using sorted by (auto simp: sorted_wrt_append)
  have sn: "s \<notin> fst ` set pre" using pre by auto
  let ?m1 = "if s < lo then pre @ [(s, v), (lo - 1, val)] @ (e, u) # rest else pre @ (e, u) # rest"
  have lo: "s < lo \<Longrightarrow> s < lo - 1 \<and> lo - 1 < e" "s < lo \<Longrightarrow> lo \<noteq> 0"
    using par overlap by (auto elim!: evenE oddE)
  have d: "ptrdiff (int (max lo s) - 1 - int s) = int (max lo s) - 1 - int s"
    "ptrdiff (int e - int (min hi e + 1)) = int e - int (min hi e + 1)"
    using small overlap se by (intro ptrdiff_exact; simp add: max_def min_def)+
  have m1: "(if 0 < int (max lo s) - 1 - int s + 1
       then fst (smap_insert (max lo s - 1) val (pre @ (s, v) # (e, u) # rest))
       else smap_del s (pre @ (s, v) # (e, u) # rest)) = ?m1"
  proof (cases "s < lo")
    case True
    have b: "\<forall>x \<in> set (pre @ [(s, v)]). fst x < lo - 1" "\<forall>x \<in> set ((e, u) # rest). lo - 1 < fst x"
      using pre rest lo [OF True] by auto
    show ?thesis using smap_insert_mid [OF b, of val] True by (simp add: max_def)
  qed (use smap_del_mid [OF sn] in \<open>simp add: max_def\<close>)
  have hi: "hi < e \<Longrightarrow> hi + 1 < e" "\<not> hi < e \<Longrightarrow> min hi e = e"
    using par overlap by (auto elim!: evenE oddE)
  show ?thesis
  proof (cases "hi < e")
    case True
    let ?p = "pre @ (if s < lo then [(s, v), (lo - 1, val)] else [])"
    have b: "\<forall>x \<in> set ?p. fst x < hi + 1" "\<forall>x \<in> set ((e, u) # rest). hi + 1 < fst x"
      using pre rest hi(1) [OF True] overlap by fastforce+
    have "?m1 = ?p @ (e, u) # rest" by simp
    then show ?thesis
      using smap_insert_mid [OF b, of val] True m1 unfolding RemoveOneRegion_def Let_def d by simp
  next
    case False
    let ?p = "pre @ (if s < lo then [(s, v), (lo - 1, val)] else [])"
    have "e \<notin> fst ` set ?p" using pre se lo by force
    moreover have "?m1 = ?p @ (e, u) # rest" by simp
    ultimately show ?thesis
      using smap_del_mid [of e ?p u rest] False hi(2) m1 unfolding RemoveOneRegion_def Let_def d by simp
  qed
qed

lemma cut_range_keys_above:
  assumes "smap_ok m" "\<forall>x \<in> set m. k < fst x" "lo \<le> k + 1"
  shows "\<forall>x \<in> set (cut_range lo hi m). k < fst x"
  using assms by (induction lo hi m rule: cut_range.induct) (auto simp: Let_def)

lemma cut_range_keys_ge: "y \<in> set (cut_range lo hi m) \<Longrightarrow> \<exists>z \<in> set m. fst z \<le> fst y"
proof (induction lo hi m rule: cut_range.induct)
  case (1 lo hi s v e u m)
  then show ?case by (cases "hi < s") (auto simp: Let_def split: if_splits)
qed auto

lemma cut_range_inv:
  assumes "smap_ok m" "paired m" "even lo" "odd hi" "lo < hi" "\<forall>x \<in> set m. odd (fst x) \<longrightarrow> lo \<le> fst x"
  shows "smap_ok (cut_range lo hi m) \<and> paired (cut_range lo hi m)"
  using assms
proof (induction lo hi m rule: cut_range.induct)
  case (1 lo hi s v e u m)
  show ?case
  proof (cases "hi < s")
    case True
    with 1 show ?thesis by simp
  next
    case False
    have m: "smap_ok m" "paired m" "even s" "odd e" "s < e" "\<forall>x \<in> set m. e < fst x"
      "0 < pm_ref v" "pm_stream u = pm_stream v" "lo \<le> e"
      using "1.prems" by (auto simp: IsPageEndAddress_def)
    have IH: "smap_ok (cut_range lo hi m)" "paired (cut_range lo hi m)"
      using 1 False m by auto
    have above: "\<forall>x \<in> set (cut_range lo hi m). e < fst x"
      using m by (intro cut_range_keys_above) auto
    have lo': "s < lo \<Longrightarrow> s < lo - 1 \<and> odd (lo - 1) \<and> lo - 1 < hi + 1 \<and> lo - 1 < e"
      and hi': "hi < e \<Longrightarrow> hi + 1 < e \<and> even (hi + 1)"
      using m "1.prems" by (auto elim!: evenE oddE)
    show ?thesis
      using False IH above m lo' hi' unfolding cut_range.simps
      by (auto simp: Let_def IsPageEndAddress_def ball_Un)
  qed
qed auto

lemma mapped_at_cut:
  assumes "smap_ok m" "paired m" "lo < hi" "\<forall>x \<in> set m. odd (fst x) \<longrightarrow> lo \<le> fst x"
    and "\<forall>a v. lo \<le> a \<and> a \<le> hi \<and> mapped_at m a = Some v \<longrightarrow> pm_ref v = 1"
  shows "mapped_at (cut_range lo hi m) a = (if lo \<le> a \<and> a \<le> hi then None else mapped_at m a)"
  using assms
proof (induction m a rule: mapped_at.induct)
  case (1 s v e u m a)
  have m: "smap_ok m" "paired m" "even s" "odd e" "s < e" "\<forall>x \<in> set m. e < fst x" "lo \<le> e"
    using "1.prems" by (auto simp: IsPageEndAddress_def)
  have low: "mapped_at m b = None" if "b \<le> e" for b
    using m(6) that by (intro mapped_at_low) fastforce
  show ?case
  proof (cases "hi < s")
    case True
    then have "mapped_at ((s, v) # (e, u) # m) a = None" if "a \<le> hi"
      using low [of a] m(5) that by simp
    with True show ?thesis by auto
  next
    case False
    let ?b = "max lo s"
    have "pm_ref v = 1"
      using "1.prems"(5) [rule_format, of ?b v] m "1.prems"(3) False by simp
    then have w: "\<lparr>pm_ref = Suc 0, pm_offset = pm_offset v, pm_stream = pm_stream v\<rparr> = v" by simp
    have "\<forall>b v'. lo \<le> b \<and> b \<le> hi \<and> mapped_at m b = Some v' \<longrightarrow> pm_ref v' = 1"
      using "1.prems"(5) low by (metis linorder_not_le mapped_at.simps(1) option.distinct(1))
    then have IH: "mapped_at (cut_range lo hi m) b = (if lo \<le> b \<and> b \<le> hi then None else mapped_at m b)"
      if "\<not> (s \<le> a \<and> a \<le> e)" "b = a" for b
      using 1 m that by auto
    have above: "mapped_at (cut_range lo hi m) b = None" if "b \<le> e" for b
    proof -
      have "\<forall>x \<in> set (cut_range lo hi m). e < fst x"
        using m by (intro cut_range_keys_above) auto
      then show ?thesis using that by (intro mapped_at_low) fastforce
    qed
    show ?thesis
      using False IH above low m(5,7) "1.prems"(3) by (auto simp: Let_def w)
  qed
qed auto

text \<open>The list from the first region on, and the regions before it.\<close>

lemma first_region_split:
  assumes "smap_ok m" "paired m" "even lo"
  shows "case first_region lo m of (pre, suf) \<Rightarrow> m = pre @ suf \<and> paired pre \<and> paired suf \<and>
    (\<forall>x \<in> set pre. fst x < lo) \<and> (\<forall>x \<in> set suf. odd (fst x) \<longrightarrow> lo \<le> fst x)"
  using assms
proof (induction m rule: paired.induct)
  case (3 s v e u m)
  have m: "smap_ok m" "paired m" "even s" "odd e" "s < e" "\<forall>x \<in> set m. e < fst x"
    using "3.prems" by (auto simp: IsPageEndAddress_def)
  obtain pre suf where r: "first_region lo m = (pre, suf)" by force
  then have IH: "m = pre @ suf \<and> paired pre \<and> paired suf \<and>
    (\<forall>x \<in> set pre. fst x < lo) \<and> (\<forall>x \<in> set suf. odd (fst x) \<longrightarrow> lo \<le> fst x)"
    using 3 m by auto
  show ?case
  proof (cases "e < lo")
    case True
    let ?t = "takeWhile (\<lambda>(k, v). k < lo) m" and ?d = "dropWhile (\<lambda>(k, v). k < lo) m"
    have even_hd: "\<not> IsPageEndAddress k" if "?t = []" "?d = (k, x) # d" for k x d
    proof -
      have "m = (k, x) # d" using takeWhile_dropWhile_id [of "\<lambda>(k, v). k < lo" m] that by simp
      then show ?thesis using m(2) by (cases d) auto
    qed
    have sp: "takeWhile (\<lambda>(k, v). k < lo) ((s, v) # (e, u) # m) = (s, v) # (e, u) # ?t"
      "dropWhile (\<lambda>(k, v). k < lo) ((s, v) # (e, u) # m) = ?d" using True m(5) by auto
    have "first_region lo ((s, v) # (e, u) # m) = ((s, v) # (e, u) # pre, suf)"
    proof (cases ?d)
      case Nil
      then show ?thesis using r unfolding first_region_def sp Let_def Nil list.case by simp
    next
      case (Cons x d)
      obtain k y where "x = (k, y)" by force
      with Cons have C: "?d = (k, y) # d" by simp
      show ?thesis
        using r even_hd [OF _ C] unfolding first_region_def sp Let_def C list.case prod.case
        by (cases "?t = []") auto
    qed
    then show ?thesis using IH "3.prems" True m(5) by auto
  next
    case False
    then have "first_region lo ((s, v) # (e, u) # m) = ([], (s, v) # (e, u) # m)"
      using m by (auto simp: first_region_def Let_def IsPageEndAddress_def)
    then show ?thesis using "3.prems" False m by fastforce
  qed
qed (auto simp: first_region_def Let_def split: list.splits)

section \<open>Removing a range\<close>

lemma cut_range_id: "smap_ok m \<Longrightarrow> \<forall>x \<in> set m. hi < fst x \<Longrightarrow> cut_range lo hi m = m"
  by (cases m rule: paired.cases) auto

lemma mapped_at_ends:
  assumes "smap_ok ((s, v) # (e, u) # m)"
  shows "mapped_at m a \<noteq> None \<Longrightarrow> e < a" "a < s \<Longrightarrow> mapped_at ((s, v) # (e, u) # m) a = None"
proof -
  have m: "s < e" "\<forall>x \<in> set m. e < fst x" using assms by auto
  have low: "mapped_at m b = None" if "b \<le> e" for b using m(2) that by (intro mapped_at_low) fastforce
  then show "mapped_at m a \<noteq> None \<Longrightarrow> e < a" by (metis linorder_not_le)
  show "a < s \<Longrightarrow> mapped_at ((s, v) # (e, u) # m) a = None" using low [of a] m(1) by simp
qed

text \<open>
  How the loop ends: it has cleared the range up to \<open>stop\<close>, over regions that are mapped once,
  and stopped at the end of the range, at a region that is mapped more than once, or behind a
  part of which \<open>munmap\<close> failed.
\<close>

definition remove_ends ::
  "'w mapped_ops \<Rightarrow> bool \<Rightarrow> nat \<Rightarrow> nat \<Rightarrow> (nat \<Rightarrow> page_map_value option) \<Rightarrow> 'r outcome \<Rightarrow> 'r outcome \<Rightarrow> nat \<Rightarrow> bool" where
  "remove_ends ops call lo hi mapped all_done r stop \<longleftrightarrow>
     r = all_done \<and> stop = hi + 1 \<or>
     r = Err ENOSYS \<and> stop \<le> hi \<and> (\<exists>v. mapped stop = Some v \<and> 1 < pm_ref v) \<or>
     (\<exists>err v st l w. r = Err err \<and> call \<and> lo < stop \<and> mapped (stop - 1) = Some v \<and> pm_stream v = Some st \<and>
        l \<le> stop - lo \<and> fst (mo_munmap ops st (stop - l) l w) = Some err)"

lemma remove_ends_mono:
  assumes "remove_ends ops call lo hi f d r stop"
    and "\<And>a. f a \<noteq> None \<Longrightarrow> g a = f a"
  shows "remove_ends ops call lo hi g d r stop"
  using assms unfolding remove_ends_def by (metis option.distinct(1))

lemma remove_ends_above:
  assumes "remove_ends ops call lo hi f d r stop" "\<And>a. f a \<noteq> None \<Longrightarrow> e < a"
  shows "stop = hi + 1 \<or> e < stop - 1 \<or> e < stop \<and> stop \<le> hi"
  using assms unfolding remove_ends_def by (metis option.distinct(1))

lemma remove_ends_result:
  assumes "remove_ends ops call lo hi f (Ret b) r stop"
  shows "remove_ends ops call lo hi f (if b then Ret 0 else Err ENOSYS)
    (case r of Ret found \<Rightarrow> if found then Ret 0 else Err ENOSYS | Err e \<Rightarrow> Err e | Fatal \<Rightarrow> Fatal) stop"
  using assms unfolding remove_ends_def by (elim disjE exE conjE) (simp; blast)+

lemma remove_loop_upto:
  assumes "smap_ok (pre @ suf)" "paired suf" "even lo" "odd hi" "lo < hi"
    and "\<forall>x \<in> set suf. odd (fst x) \<longrightarrow> lo \<le> fst x" "regions_up_to_2G suf"
    and "remove_loop ops nacl call lo hi found suf (pre @ suf, w) = (r, m', w')"
  shows "\<exists>stop. lo \<le> stop \<and> stop \<le> hi + 1 \<and> even stop \<and>
    m' = pre @ (if stop = lo then suf else cut_range lo (stop - 1) suf) \<and>
    (\<forall>a v. lo \<le> a \<and> a < stop \<and> mapped_at suf a = Some v \<longrightarrow> pm_ref v = 1) \<and>
    remove_ends ops call lo hi (mapped_at suf)
      (Ret (found \<or> (\<exists>a. lo \<le> a \<and> a \<le> hi \<and> mapped_at suf a \<noteq> None))) r stop"
  using assms(1,2,6,7,8)
proof (induction suf arbitrary: pre found w rule: paired.induct)
  case 1
  then show ?case using assms(3-5) by (intro exI [of _ "hi + 1"]) (simp add: remove_ends_def)
next
  case (2 x)
  then show ?case by simp
next
  case (3 s v e u rest)
  let ?suf = "(s, v) # (e, u) # rest"
  have sorted: "smap_ok ?suf" using "3.prems"(1) by (auto simp: sorted_wrt_append)
  note ends = mapped_at_ends [OF sorted]
  have m: "smap_ok rest" "paired rest" "even s" "odd e" "s < e" "\<forall>x \<in> set rest. e < fst x" "lo \<le> e" "e < s + 2 ^ 31"
    "0 < pm_ref v"
    using sorted "3.prems"(2-4) by (auto simp: IsPageEndAddress_def)
  consider (past) "hi < s" | (counted) "\<not> hi < s" "1 < pm_ref v" | (cut) "\<not> hi < s" "pm_ref v = 1"
    using m(9) by linarith
  then show ?case
  proof cases
    case past
    have no: "mapped_at ?suf a = None" if "a \<le> hi" for a
      by (rule ends(2)) (rule le_less_trans [OF that past])
    have "\<not> (\<exists>a. lo \<le> a \<and> a \<le> hi \<and> mapped_at ?suf a \<noteq> None)"
      by (rule notI, elim exE conjE, erule notE, rule no)
    moreover have "cut_range lo hi ?suf = ?suf" using past by simp
    moreover have "r = Ret found" "m' = pre @ ?suf" using "3.prems"(5) past by simp_all
    ultimately show ?thesis
      using assms(4,5) no by (intro exI [of _ "hi + 1"]) (auto simp add: remove_ends_def less_Suc_eq_le simp del: mapped_at.simps cut_range.simps)
  next
    case counted
    let ?stop = "max lo s"
    have "r = Err ENOSYS" "m' = pre @ ?suf" using "3.prems"(5) counted by simp_all
    moreover have "mapped_at ?suf ?stop = Some v" using m by simp
    moreover have "mapped_at ?suf a = None" if "lo \<le> a" "a < ?stop" for a
      by (rule ends(2)) (use that in \<open>auto simp: max_def split: if_splits\<close>)
    moreover have "cut_range lo (?stop - 1) ?suf = ?suf" if "?stop \<noteq> lo" using that by simp
    moreover have "even ?stop" "?stop \<le> hi" using assms(3,5) m(3) counted by (auto simp: max_def)
    ultimately show ?thesis
      using counted by (intro exI [of _ ?stop]) (auto simp add: remove_ends_def simp del: mapped_at.simps cut_range.simps)
  next
    case cut
    let ?val = "\<lparr>pm_ref = 1, pm_offset = pm_offset v, pm_stream = pm_stream v\<rparr>"
    define mid where "mid = (if s < lo then [(s, v), (lo - 1, ?val)] else []) @ (if hi < e then [(hi + 1, ?val), (e, u)] else [])"
    define n where "n = RemoveOneRegion ?val (max lo s) (min hi e) s e (pre @ ?suf)"
    have n: "n = (pre @ mid) @ rest"
      unfolding n_def mid_def
      using RemoveOneRegion_cut [OF "3.prems"(1) m(3,4) assms(3,4) _ m(7) assms(5) m(8)] cut by simp
    have cut_suf: "cut_range lo h ?suf = mid @ cut_range lo h rest"
      if "h < e \<and> h = hi \<or> e \<le> h \<and> e \<le> hi" for h
    proof -
      have "\<not> h < s" using that cut(1) m(5) by auto
      then show ?thesis using that by (auto simp: mid_def Let_def)
    qed
    have sorted_n: "smap_ok ((pre @ mid) @ rest)"
      using "3.prems"(1) m cut assms(3-5)
      by (auto simp: mid_def sorted_wrt_append elim!: evenE oddE)
    have mapped: "mapped_at ?suf a = (if s \<le> a \<and> a \<le> e then Some v else mapped_at rest a)" for a by simp
    have found: "\<exists>a. lo \<le> a \<and> a \<le> hi \<and> mapped_at ?suf a \<noteq> None"
      using cut m assms(5) by (intro exI [of _ "max lo s"]) auto
    have ge: "mapped_at ?suf a = mapped_at rest a" if "mapped_at rest a \<noteq> None" for a
      using ends(1) [OF that] by simp
    let ?goal = "\<exists>stop. lo \<le> stop \<and> stop \<le> hi + 1 \<and> even stop \<and>
      m' = pre @ (if stop = lo then ?suf else cut_range lo (stop - 1) ?suf) \<and>
      (\<forall>a v. lo \<le> a \<and> a < stop \<and> mapped_at ?suf a = Some v \<longrightarrow> pm_ref v = 1) \<and>
      remove_ends ops call lo hi (mapped_at ?suf)
        (Ret (found \<or> (\<exists>a. lo \<le> a \<and> a \<le> hi \<and> mapped_at ?suf a \<noteq> None))) r stop"
    have go_on: ?goal if go: "remove_loop ops nacl call lo hi True rest (n, w1) = (r, m', w')" for w1
    proof -
      have "\<forall>x \<in> set rest. odd (fst x) \<longrightarrow> lo \<le> fst x" "regions_up_to_2G rest" using "3.prems"(3,4) by auto
      from "3.IH" [OF sorted_n m(2) this go [unfolded n]] obtain stop where
        st: "lo \<le> stop" "stop \<le> hi + 1" "even stop"
          "m' = (pre @ mid) @ (if stop = lo then rest else cut_range lo (stop - 1) rest)"
          "\<forall>a v. lo \<le> a \<and> a < stop \<and> mapped_at rest a = Some v \<longrightarrow> pm_ref v = 1"
        and e: "remove_ends ops call lo hi (mapped_at rest) (Ret True) r stop" by auto
      have above: "stop = hi + 1 \<or> e < stop \<and> stop \<le> hi + 1 \<and> e \<le> stop - 1 \<and> e \<le> hi"
        using remove_ends_above [OF e ends(1)] st(2) by fastforce
      have "stop \<noteq> lo" using above m(7) assms(5) by auto
      moreover have "cut_range lo (stop - 1) ?suf = mid @ cut_range lo (stop - 1) rest"
        using above by (intro cut_suf) (auto simp: not_less)
      moreover have "remove_ends ops call lo hi (mapped_at ?suf)
          (Ret (found \<or> (\<exists>a. lo \<le> a \<and> a \<le> hi \<and> mapped_at ?suf a \<noteq> None))) r stop"
        using remove_ends_mono [OF e, of "mapped_at ?suf"] ge found by (simp del: mapped_at.simps)
      moreover have "pm_ref x = 1" if "lo \<le> a" "a < stop" "mapped_at ?suf a = Some x" for a x
        using that st(5) cut(2) by (auto split: if_splits)
      ultimately show ?goal
        using st(1-4) unfolding append_assoc by (intro exI [of _ stop] conjI allI impI) (assumption | simp only: if_False simp_thms | blast)+
    qed
    have failed: ?goal
      if f: "pm_stream v = Some t" "call" "fst (mo_munmap ops t (max lo s) (range_size (max lo s) (min hi e)) w) = Some err"
        "r = Err err" "m' = n" for t err
    proof -
      let ?stop = "min hi e + 1"
      have le: "max lo s \<le> min hi e" using cut m(5,7) assms(5) by simp
      then have size: "range_size (max lo s) (min hi e) = ?stop - max lo s"
        using m(8) by (subst range_size_exact) auto
      have "even ?stop" using m(4) assms(4) by (auto simp: min_def)
      moreover have "m' = pre @ cut_range lo (?stop - 1) ?suf"
      proof -
        have "cut_range lo (min hi e) rest = rest" using m(1,6) by (intro cut_range_id) auto
        moreover have "min hi e < e \<and> min hi e = hi \<or> e \<le> min hi e \<and> e \<le> hi" by (cases "hi < e") auto
        note cut_suf [OF this]
        ultimately show ?thesis using f(5) n by (simp del: cut_range.simps)
      qed
      moreover have "lo < ?stop" using le by (auto simp: less_Suc_eq_le)
      moreover have "pm_ref x = 1" if "a < ?stop" "mapped_at ?suf a = Some x" for a x
      proof -
        have "mapped_at rest a = None" using ends(1) [of a] that(1) by fastforce
        then show ?thesis using that cut(2) by (auto split: if_splits)
      qed
      moreover have "remove_ends ops call lo hi (mapped_at ?suf)
          (Ret (found \<or> (\<exists>a. lo \<le> a \<and> a \<le> hi \<and> mapped_at ?suf a \<noteq> None))) r ?stop"
        unfolding remove_ends_def
      proof (intro disjI2 exI conjI)
        show "mapped_at ?suf (?stop - 1) = Some v" using le by simp
        show "fst (mo_munmap ops t (?stop - (?stop - max lo s)) (?stop - max lo s) w) = Some err"
          using f(3) by (simp only: size diff_diff_cancel [OF le_SucI [OF le], unfolded Suc_eq_plus1])
      qed (use f le in auto)
      ultimately show ?goal
        by (intro exI [of _ ?stop]) (auto simp del: mapped_at.simps cut_range.simps)
    qed
    let ?a = "max lo s" and ?l = "range_size (max lo s) (min hi e)"
    have step: "(r, m', w') =
      (case pm_stream v of
         None \<Rightarrow> remove_loop ops nacl call lo hi True rest (n, w)
       | Some t \<Rightarrow>
           if call then
             (case mo_munmap ops t ?a ?l w of
                (None, w) \<Rightarrow> remove_loop ops nacl call lo hi True rest (n, w)
              | (Some err, w) \<Rightarrow>
                  if nacl \<and> ?a < kTextEndAddress then remove_loop ops nacl call lo hi True rest (n, w)
                  else (Err err, n, w))
           else remove_loop ops nacl call lo hi True rest (n, mo_OnUnmapByOverwritingMmap ops t ?a ?l w))"
      using "3.prems"(5)
      by (simp only: remove_loop.simps Let_def fst_conv snd_conv cut if_False less_irrefl n_def [symmetric])
    show ?goal
    proof (cases "pm_stream v")
      case None
      with step go_on [of w] show ?thesis by simp
    next
      case t: (Some t)
      obtain o1 w1 where call: "mo_munmap ops t ?a ?l w = (o1, w1)" by force
      consider "\<not> call" | "call" "o1 = None \<or> nacl \<and> ?a < kTextEndAddress" | err where "call" "o1 = Some err"
        "\<not> (nacl \<and> ?a < kTextEndAddress)" by force
      then show ?thesis
      proof cases
        case 1
        have "remove_loop ops nacl call lo hi True rest (n, mo_OnUnmapByOverwritingMmap ops t ?a ?l w) = (r, m', w')"
          using step unfolding t option.case if_not_P [OF 1] by (rule sym)
        then show ?thesis by (rule go_on)
      next
        case 2
        then have "remove_loop ops nacl call lo hi True rest (n, w1) = (r, m', w')"
          using step unfolding t option.case if_P [OF 2(1)] call prod.case by (cases o1) auto
        then show ?thesis by (rule go_on)
      next
        case 3
        then have "(r, m', w') = (Err err, n, w1)"
          using step unfolding t option.case if_P [OF 3(1)] call prod.case 3(2) if_not_P [OF 3(3)] by simp
        then show ?thesis using failed [of t err] t 3 call by simp
      qed
    qed
  qed
qed

lemma mapped_at_key:
  assumes "smap_ok m" "paired m" "map_of m k = Some v"
  shows "mapped_at m k \<noteq> None" "even k \<Longrightarrow> mapped_at m k = Some v"
proof -
  have "mapped_at m k \<noteq> None \<and> (even k \<longrightarrow> mapped_at m k = Some v)"
    using assms
  proof (induction m rule: paired.induct)
    case (3 s u e t m)
    then have "map_of m k = None" if "k \<le> e" using that by (force simp: map_of_eq_None_iff)
    with 3 show ?case by (auto simp: IsPageEndAddress_def split: if_splits)
  qed auto
  then show "mapped_at m k \<noteq> None" "even k \<Longrightarrow> mapped_at m k = Some v" by auto
qed

lemma paired_split:
  assumes "paired (pre @ post)"
  shows "(paired pre \<and> paired post) \<or>
    (\<exists>pre' s v e u post'. pre = pre' @ [(s, v)] \<and> post = (e, u) # post' \<and> paired pre' \<and> paired post' \<and>
       even s \<and> odd e)"
  using assms
proof (induction pre rule: paired.induct)
  case (2 x)
  then show ?case by (cases x; cases post) (auto simp: IsPageEndAddress_def)
next
  case (3 s v e u m)
  then have "(paired m \<and> paired post) \<or>
    (\<exists>pre' s v e u post'. m = pre' @ [(s, v)] \<and> post = (e, u) # post' \<and> paired pre' \<and> paired post' \<and>
       even s \<and> odd e)" by simp
  then show ?case
  proof
    assume "paired m \<and> paired post"
    then show ?thesis using 3 by simp
  next
    assume "\<exists>pre' s v e u post'. m = pre' @ [(s, v)] \<and> post = (e, u) # post' \<and> paired pre' \<and> paired post' \<and>
       even s \<and> odd e"
    then obtain pre' s' v' e' u' post' where "m = pre' @ [(s', v')]" "post = (e', u') # post'" "paired pre'"
      "paired post'" "even s'" "odd e'" by blast
    then show ?thesis using 3 by (intro disjI2 exI [of _ "(s, v) # (e, u) # pre'"]) auto
  qed
qed simp

text \<open>The last node of a well-formed list is the end of a region.\<close>

lemma paired_last: "paired m \<Longrightarrow> m \<noteq> [] \<Longrightarrow> IsPageEndAddress (fst (last m))"
  by (induction m rule: paired.induct) (auto split: if_splits)

lemma sorted_cut_at:
  assumes "smap_ok m" "map_of m k = None"
  obtains pre post where "m = pre @ post" "\<forall>x \<in> set pre. fst x < k" "\<forall>x \<in> set post. k < fst x"
proof
  show "m = takeWhile (\<lambda>x. fst x < k) m @ dropWhile (\<lambda>x. fst x < k) m" by simp
  show "\<forall>x \<in> set (takeWhile (\<lambda>x. fst x < k) m). fst x < k" by (auto dest: set_takeWhileD)
  show "\<forall>x \<in> set (dropWhile (\<lambda>x. fst x < k) m). k < fst x"
    using assms
  proof (induction m)
    case (Cons x m)
    then show ?case
    proof (cases "fst x < k")
      case False
      then have "k < fst x" using Cons.prems by (cases x) (auto split: if_splits)
      then show ?thesis using Cons.prems(1) False by (auto dest: bspec)
    qed (auto split: if_splits)
  qed simp
qed

lemma next_node_mid:
  "k \<notin> fst ` set pre \<Longrightarrow> next_node k (pre @ (k, v) # post) = (case post of [] \<Rightarrow> None | (k', _) # _ \<Rightarrow> Some k')"
  by (induction pre) (auto split: list.splits)

lemma prev_node_mid:
  assumes "\<forall>x \<in> set pre. fst x < k" "\<forall>x \<in> set post. k \<le> fst x"
  shows "prev_node k (pre @ post) = (if pre = [] then None else Some (fst (last pre)))"
proof -
  have eq: "filter (\<lambda>j. j < k) (keys (pre @ post)) = keys pre"
    using assms by (auto simp: filter_empty_conv intro!: filter_True)
  show ?thesis unfolding prev_node_def eq by (cases pre) (simp_all add: last_map)
qed

section \<open>Adding a region\<close>

lemma add_region_cases:
  assumes inv: "mr_inv m" and par: "even addr" "odd hi" "addr < hi"
    and n1: "map_of m addr = None" and n2: "map_of m hi = None"
  obtains (free) pre post where "m = pre @ post" "paired pre" "paired post"
      "\<forall>x \<in> set pre. fst x < addr" "\<forall>x \<in> set post. hi < fst x"
    | (busy) a where "addr \<le> a" "a \<le> hi" "mapped_at m a \<noteq> None"
        "IsOverlap addr hi (smap_put hi v (smap_put addr v m))"
proof -
  have ok: "smap_ok m" "paired m" using inv by (auto simp: mr_inv_def)
  obtain pre rest where m: "m = pre @ rest" and pre: "\<forall>x \<in> set pre. fst x < addr"
    and rest: "\<forall>x \<in> set rest. addr < fst x" using sorted_cut_at [OF ok(1) n1] by blast
  have ok2: "smap_ok rest" "map_of rest hi = None"
    using ok(1) n2 by (auto simp: m sorted_wrt_append map_add_None)
  obtain mid post where r: "rest = mid @ post" and mid: "\<forall>x \<in> set mid. fst x < hi"
    and post: "\<forall>x \<in> set post. hi < fst x" using sorted_cut_at [OF ok2] by blast
  have m1: "smap_put addr v m = (pre @ (addr, v) # mid) @ post"
    using smap_put_mid [OF pre rest, of v] by (simp add: m r)
  have m2: "smap_put hi v (smap_put addr v m) = pre @ (addr, v) # mid @ (hi, v) # post"
    unfolding m1 using smap_put_mid [of "pre @ (addr, v) # mid" hi post v] pre mid post par by fastforce
  have next_n: "next_node addr (smap_put hi v (smap_put addr v m)) =
      Some (if mid = [] then hi else fst (hd mid))"
    unfolding m2 using pre by (subst next_node_mid) (force, cases mid, auto)
  have prev_n: "prev_node addr (smap_put hi v (smap_put addr v m)) = (if pre = [] then None else Some (fst (last pre)))"
    unfolding m2
  proof (rule prev_node_mid [OF pre])
    have "\<forall>x \<in> set mid \<union> set post. addr \<le> fst x" using rest by (auto simp: r dest: bspec intro: less_imp_le)
    then show "\<forall>x \<in> set ((addr, v) # mid @ (hi, v) # post). addr \<le> fst x" using par by auto
  qed
  from paired_split [of pre rest] ok(2) m
  consider (a) "paired pre" "paired rest"
    | (b) pre' s w e u post' where "pre = pre' @ [(s, w)]" "rest = (e, u) # post'" "paired pre'" "even s" "odd e"
    by blast
  then show ?thesis
  proof cases
    case a
    show ?thesis
    proof (cases "mid = []")
      case True
      then show ?thesis using free [of pre post] a pre post m r by simp
    next
      case False
      then have k: "hd mid \<in> set mid" by simp
      let ?k = "fst (hd mid)"
      have "?k \<in> fst ` set m" using k by (auto simp: m r)
      then obtain z where "map_of m ?k = Some z" by (metis map_of_eq_None_iff not_None_eq)
      then have "mapped_at m ?k \<noteq> None" by (rule mapped_at_key(1) [OF ok])
      moreover have "addr \<le> ?k" "?k \<le> hi" "?k \<noteq> hi" using k rest mid by (auto simp: r dest: bspec)
      ultimately show ?thesis
        using busy [of ?k] False by (simp add: IsOverlap_def next_n)
    qed
  next
    case b
    have se: "s < addr" "addr < e" using pre rest b by auto
    have "mapped_at m addr = Some w"
    proof -
      have "mapped_at pre' addr = None" using pre b(1) by (intro mapped_at_high) force
      then show ?thesis using b(3) se by (simp add: m b(1,2) mapped_at_append)
    qed
    moreover have "IsOverlap addr hi (smap_put hi v (smap_put addr v m))"
      using b by (simp add: IsOverlap_def prev_n IsPageEndAddress_def)
    ultimately show ?thesis using busy [of addr] par by simp
  qed
qed

lemma region_nodes:
  assumes "smap_ok m" "paired m" "even addr"
  shows "(addr, e, v) \<in> set (regions m) \<longleftrightarrow> map_of m addr = Some v \<and> next_node addr m = Some e"
  using assms
proof (induction m rule: paired.induct)
  case (3 s w t u m)
  have m: "s < t" "\<forall>x \<in> set m. t < fst x" "odd t" using "3.prems" by (auto simp: IsPageEndAddress_def)
  have above: "s < addr" if "(addr, e, v) \<in> set (regions m)"
    using regions_keys [OF that] m(1,2) by fastforce
  show ?case
  proof (cases "addr = s")
    case True
    then show ?thesis using above by auto
  next
    case False
    moreover have "addr \<noteq> t" using m(3) "3.prems"(3) by auto
    ultimately show ?thesis using 3 by simp
  qed
qed auto

lemma FindRegion_regions:
  assumes "mr_inv m" "even addr" "0 < len" "addr + len \<le> 2 ^ 32"
  shows "FindRegion addr len m = Some v \<longleftrightarrow> (addr, addr + len - 1, v) \<in> set (regions m)"
  using assms region_nodes [of m addr "addr + len - 1" v] end_address_exact [OF assms(3,4)]
  by (auto simp: mr_inv_def FindRegion_def split: option.splits)

lemma regions_split:
  assumes "paired m" "(s, e, v) \<in> set (regions m)"
  obtains pre u post where "m = pre @ (s, v) # (e, u) # post" "paired pre"
  using assms
proof (induction m arbitrary: thesis rule: paired.induct)
  case (3 s' v' e' u' m)
  show ?case
  proof (cases "(s, e, v) = (s', e', v')")
    case True
    then show ?thesis by (intro "3.prems"(1) [of "[]" u' m]) auto
  next
    case False
    then obtain pre u post where "m = pre @ (s, v) # (e, u) # post" "paired pre"
      using 3 by auto
    then show ?thesis using 3 by (intro "3.prems"(1) [of "(s', v') # (e', u') # pre" u post]) auto
  qed
qed auto

text \<open>Writing a new count to a start node changes the mapping of that region only.\<close>

lemma recount_region:
  assumes inv: "mr_inv m" and region: "(s, e, v) \<in> set (regions m)"
    and new: "0 < pm_ref v'" "pm_stream v' = pm_stream v"
  shows "mr_inv (smap_put s v' m)"
    and "mapped_at (smap_put s v' m) a = (if s \<le> a \<and> a \<le> e then Some v' else mapped_at m a)"
proof -
  obtain pre u post where m: "m = pre @ (s, v) # (e, u) # post" "paired pre"
    using regions_split [OF _ region] inv by (auto simp: mr_inv_def)
  then have pre: "\<forall>x \<in> set pre. fst x < s" using inv by (auto simp: mr_inv_def sorted_wrt_append)
  have put: "smap_put s v' m = pre @ (s, v') # (e, u) # post" unfolding m(1) by (rule smap_put_same [OF pre])
  have "mr_inv (pre @ (s, v') # (e, u) # post)"
    using inv new unfolding m(1) mr_inv_def by (simp add: paired_append m(2))
  then show "mr_inv (smap_put s v' m)" by (simp only: put)
  have "mapped_at pre a = None" if "s \<le> a" using pre that by (intro mapped_at_high) force
  then have "mapped_at (pre @ (s, v') # (e, u) # post) a = (if s \<le> a \<and> a \<le> e then Some v' else mapped_at m a)"
    unfolding m(1) using m(2) by (auto simp: mapped_at_append split: option.splits)
  then show "mapped_at (smap_put s v' m) a = (if s \<le> a \<and> a \<le> e then Some v' else mapped_at m a)"
    by (simp only: put)
qed

text \<open>When the very same range may be mapped again: shared memory returns its one address.\<close>

definition remap_accepted :: "'w mapped_ops \<Rightarrow> u32 \<Rightarrow> sid \<Rightarrow> page_map_value \<Rightarrow> bool" where
  "remap_accepted ops flags s v \<longleftrightarrow>
     flags AND MAP_FIXED = 0 \<and> mo_ReturnsSameAddressForMultipleMmaps ops s \<and>
     (case pm_stream v of
        None \<Rightarrow> False
      | Some r \<Rightarrow> mo_ReturnsSameAddressForMultipleMmaps ops r \<and> mo_pathname ops s = mo_pathname ops r)"

lemma add_again:
  assumes inv: "mr_inv (mr_map mr)" and par: "even addr" "0 < len" "addr + len \<le> 2 ^ 32"
    and region: "(addr, addr + len - 1, v) \<in> set (regions (mr_map mr))"
  shows "AddFileStreamByAddr ops addr len offset prot flags (Some s) mr =
    (Ret (remap_accepted ops flags s v),
     if remap_accepted ops flags s v then mr\<lparr>mr_map := smap_put addr (v\<lparr>pm_ref := pm_ref v + 1\<rparr>) (mr_map mr)\<rparr> else mr)"
  using par(2) FindRegion_regions [OF inv par, of v] region
  by (auto simp: AddFileStreamByAddr_def remap_accepted_def split: option.splits)

lemma add_new:
  assumes inv: "mr_inv (mr_map mr)" and par: "even addr" "even len" "0 < len" "addr + len \<le> 2 ^ 32"
    and find: "(case stream of None \<Rightarrow> None | Some s \<Rightarrow> FindRegion addr len (mr_map mr)) = None"
    and call: "AddFileStreamByAddr ops addr len offset prot flags stream mr = (r, mr')"
  shows "\<exists>ok. r = Ret ok \<and> mr_inv (mr_map mr') \<and> (\<not> ok \<longrightarrow> mr' = mr) \<and>
    ok = (\<forall>a. addr \<le> a \<and> a < addr + len \<longrightarrow> mapped_at (mr_map mr) a = None) \<and>
    (ok \<longrightarrow> (\<forall>a. mapped_at (mr_map mr') a =
        (if addr \<le> a \<and> a < addr + len then Some \<lparr>pm_ref = 1, pm_offset = offset, pm_stream = stream\<rparr>
         else mapped_at (mr_map mr) a)) \<and>
      (\<forall>i. i \<in> set (mr_write_mapped mr') \<longleftrightarrow> i \<in> set (mr_write_mapped mr) \<or>
         prot AND PROT_WRITE \<noteq> 0 \<and> (\<exists>s. stream = Some s \<and> i = mo_inode ops s)))"
proof -
  let ?m = "mr_map mr" and ?hi = "addr + len - 1"
  let ?v = "\<lparr>pm_ref = 1, pm_offset = offset, pm_stream = stream\<rparr>"
  have ok: "smap_ok ?m" "paired ?m" "\<forall>k \<in> set (keys ?m). k < 2 ^ 32" using inv by (auto simp: mr_inv_def)
  have hi: "odd ?hi" "addr < ?hi" using par(1-3) by (auto elim!: evenE)
  note e = end_address_exact [OF par(3,4)]
  have range: "a < addr + len \<longleftrightarrow> a \<le> ?hi" for a using par(3) by auto
  consider (c1) z where "map_of ?m addr = Some z" | (c2) z where "map_of ?m addr = None" "map_of ?m ?hi = Some z"
    | (c3) "map_of ?m addr = None" "map_of ?m ?hi = None" by fastforce
  then show ?thesis
  proof cases
    case c1
    then have "mapped_at ?m addr \<noteq> None" by (rule mapped_at_key(1) [OF ok(1,2)])
    moreover have "r = Ret False \<and> mr' = mr"
      using call find par(3) c1 by (simp add: AddFileStreamByAddr_def smap_insert_def Let_def)
    ultimately show ?thesis using inv par(3) by (intro exI [of _ False]) auto
  next
    case c2
    then have "mapped_at ?m ?hi \<noteq> None" by (intro mapped_at_key(1) [OF ok(1,2)])
    moreover have "smap_del addr (smap_put addr ?v ?m) = ?m"
      using ok(1) c2(1) by (intro smap_eqI) (auto simp: smap_put_ok smap_del_ok map_of_smap_del map_of_smap_put)
    then have "r = Ret False \<and> mr' = mr"
      using call find par(3) c2 hi by (simp add: AddFileStreamByAddr_def smap_insert_def Let_def map_of_smap_put e)
    moreover have "addr \<le> ?hi" using hi by simp
    ultimately show ?thesis using inv unfolding range by (intro exI [of _ False]) (metis order_refl)
  next
    case c3
    let ?m2 = "smap_put ?hi ?v (smap_put addr ?v ?m)"
    have "smap_del ?hi (smap_del addr ?m2) = ?m"
      using ok(1) c3 hi
      by (intro smap_eqI) (auto simp: smap_put_ok smap_del_ok map_of_smap_del map_of_smap_put fun_upd_twist)
    then have res: "r = Ret (\<not> IsOverlap addr ?hi ?m2)"
      "mr' = (if IsOverlap addr ?hi ?m2 then mr
              else mr\<lparr>mr_map := ?m2, mr_write_mapped := mr_write_mapped mr'\<rparr>)"
      "\<not> IsOverlap addr ?hi ?m2 \<Longrightarrow>
         i \<in> set (mr_write_mapped mr') \<longleftrightarrow> i \<in> set (mr_write_mapped mr) \<or>
         prot AND PROT_WRITE \<noteq> 0 \<and> (\<exists>s. stream = Some s \<and> i = mo_inode ops s)" for i
      using call find par(3) c3 hi
      by (auto simp: AddFileStreamByAddr_def smap_insert_def Let_def map_of_smap_put e split: if_splits option.splits)
    from inv par(1) hi c3 show ?thesis
    proof (cases rule: add_region_cases [where v = ?v])
      case (free pre post)
      have m2: "?m2 = pre @ (addr, ?v) # (?hi, ?v) # post"
        using smap_put_mid [of pre addr post ?v] smap_put_mid [of "pre @ [(addr, ?v)]" ?hi post ?v] free(4,5) hi
        by (simp add: free(1)) (force)
      have no: "\<not> IsOverlap addr ?hi ?m2"
        unfolding m2 IsOverlap_def
        using free(4,5) hi paired_last [OF free(2)]
        by (subst next_node_mid, force, subst prev_node_mid) (auto split: option.splits)
      then have k: "r = Ret True" "mr_map mr' = ?m2" using res(1) arg_cong [OF res(2), of mr_map] by auto
      have none: "mapped_at ?m a = None" if "addr \<le> a" "a \<le> ?hi" for a
      proof -
        have "mapped_at pre a = None" using free(4) that by (intro mapped_at_high) force
        moreover have "mapped_at post a = None" using free(5) that by (intro mapped_at_low) force
        ultimately show ?thesis using free(2) by (simp add: free(1) mapped_at_append)
      qed
      have "mapped_at ?m2 a = (if addr \<le> a \<and> a \<le> ?hi then Some ?v else mapped_at ?m a)" for a
      proof -
        have "mapped_at pre a = None" if "addr \<le> a" using free(4) that by (intro mapped_at_high) force
        then show ?thesis unfolding m2 using free(2) by (simp add: free(1) mapped_at_append split: option.splits)
      qed
      moreover have "mr_inv ?m2"
      proof -
        have "?hi < 2 ^ 32" using par(3,4) by simp
        then have "\<forall>k \<in> set (keys ?m2). k < 2 ^ 32"
          using ok(3) hi(2) by (simp only: set_map set_smap_put) simp
        moreover have "paired ?m2"
          unfolding m2 using free hi par(1,2) by (auto simp: paired_append IsPageEndAddress_def)
        ultimately show ?thesis using ok(1) by (simp add: mr_inv_def smap_put_ok)
      qed
      ultimately show ?thesis using k none res(3) [OF no] by (intro exI [of _ True]) (simp add: range)
    next
      case (busy a)
      then have "r = Ret False" "mr' = mr" using res(1,2) by auto
      then show ?thesis using inv busy by (intro exI [of _ False]) (auto simp: range)
    qed
  qed
qed

section \<open>Properties\<close>


text \<open>An example table: addresses 4096 to 8191 belong to stream 3.\<close>

definition one_region :: memory_region where
  "one_region = \<lparr>mr_map = [(4096, \<lparr>pm_ref = 1, pm_offset = 0, pm_stream = Some 3\<rparr>),
                           (8191, \<lparr>pm_ref = 1, pm_offset = 0, pm_stream = Some 3\<rparr>)],
                mr_write_mapped = []\<rparr>"

definition simple_ops :: "unit mapped_ops" where
  "simple_ops = \<lparr>mo_munmap = (\<lambda>s a l w. (None, w)), mo_OnUnmapByOverwritingMmap = (\<lambda>s a l w. w),
     mo_mprotect = (\<lambda>s a l p w. (None, w)), mo_madvise = (\<lambda>s a l m w. ((0, EINVAL), w)),
     mo_ReturnsSameAddressForMultipleMmaps = (\<lambda>s. True), mo_pathname = (\<lambda>s. ''/dev/ashmem''),
     mo_inode = int\<rparr>"

lemma one_region_inv: "mr_inv (mr_map one_region)"
  by (simp add: one_region_def mr_inv_def IsPageEndAddress_def)


lemma cut_range_keys_bound:
  assumes "\<forall>x \<in> set m. fst x < b" "paired m" "\<forall>x \<in> set m. odd (fst x) \<longrightarrow> lo \<le> fst x"
    and "x \<in> set (cut_range lo hi m)"
  shows "fst x < b"
  using assms
proof (induction lo hi m rule: cut_range.induct)
  case (1 lo hi s v e u m)
  then have "s < b" "e < b" "lo \<le> e" by (auto simp: IsPageEndAddress_def)
  then show ?case using 1 by (cases "hi < s") (auto simp: Let_def split: if_splits)
qed auto

text \<open>The nodes before the first region stay in front of what is left of the others.\<close>

lemma cut_suffix_inv:
  assumes inv: "mr_inv (pre @ suf)" and ps: "paired pre" "paired suf"
    and par: "even lo" "odd hi" "lo < hi" and above: "\<forall>x \<in> set suf. odd (fst x) \<longrightarrow> lo \<le> fst x"
  shows "mr_inv (pre @ cut_range lo hi suf)"
proof -
  have sorted: "smap_ok (pre @ suf)" and bound: "\<forall>x \<in> set (pre @ suf). fst x < 2 ^ 32"
    using inv by (auto simp: mr_inv_def)
  then have suf_ok: "smap_ok suf" by (simp add: sorted_wrt_append)
  have c: "smap_ok (cut_range lo hi suf)" "paired (cut_range lo hi suf)"
    using cut_range_inv [OF suf_ok ps(2) par above] by auto
  have "fst x < fst y" if x: "x \<in> set pre" and y: "y \<in> set (cut_range lo hi suf)" for x y
  proof -
    have "\<forall>z \<in> set suf. fst x < fst z" using sorted x by (auto simp: sorted_wrt_append)
    then show ?thesis using cut_range_keys_ge [OF y] by (auto dest: bspec)
  qed
  then have "smap_ok (pre @ cut_range lo hi suf)" using c sorted by (auto simp: sorted_wrt_append)
  moreover have "fst x < 2 ^ 32" if "x \<in> set (pre @ cut_range lo hi suf)" for x
    using that bound cut_range_keys_bound [OF _ ps(2) above, of "2 ^ 32" x hi] by (metis Un_iff set_append)
  ultimately show ?thesis using c(2) ps(1) by (auto simp: mr_inv_def paired_append)
qed

text \<open>
  The table after a removal that has stopped at \<open>stop\<close>, and the way it ended.
\<close>

lemma remove_upto:
  assumes inv: "mr_inv m" and par: "even addr" "odd hi" "addr < hi" and small: "regions_up_to_2G m"
    and loop: "remove_loop ops nacl call addr hi False (snd (first_region addr m)) (m, w) = (r, m', w')"
  shows "\<exists>stop. addr \<le> stop \<and> stop \<le> hi + 1 \<and> mr_inv m' \<and>
    (\<forall>a. mapped_at m' a = (if addr \<le> a \<and> a < stop then None else mapped_at m a)) \<and>
    (\<forall>a v. addr \<le> a \<and> a < stop \<and> mapped_at m a = Some v \<longrightarrow> pm_ref v = 1) \<and>
    remove_ends ops call addr hi (mapped_at m) (Ret (\<exists>a. addr \<le> a \<and> a \<le> hi \<and> mapped_at m a \<noteq> None)) r stop"
proof -
  have ok: "smap_ok m" "paired m" using inv by (auto simp: mr_inv_def)
  obtain pre suf where fr: "first_region addr m = (pre, suf)" by force
  then have split: "m = pre @ suf" "paired pre" "paired suf" "\<forall>x \<in> set pre. fst x < addr"
    "\<forall>x \<in> set suf. odd (fst x) \<longrightarrow> addr \<le> fst x"
    using first_region_split [OF ok par(1)] by auto
  have pre: "mapped_at pre a = None" if "addr \<le> a" for a
    using split(4) that by (intro mapped_at_high) force
  have same: "mapped_at m a = mapped_at suf a" if "addr \<le> a" for a
    using pre [OF that] split(2) by (simp add: split(1) mapped_at_append)
  have sorted: "smap_ok (pre @ suf)" using ok(1) split(1) by simp
  then have suf_ok: "smap_ok suf" by (simp add: sorted_wrt_append)
  have up: "regions_up_to_2G suf" using small split(1,2) by (simp add: regions_up_to_2G_def regions_append)
  have run: "remove_loop ops nacl call addr hi False suf (pre @ suf, w) = (r, m', w')"
    using loop fr split(1) by simp
  obtain stop where st: "addr \<le> stop" "stop \<le> hi + 1" "even stop"
      "m' = pre @ (if stop = addr then suf else cut_range addr (stop - 1) suf)"
      "\<forall>a v. addr \<le> a \<and> a < stop \<and> mapped_at suf a = Some v \<longrightarrow> pm_ref v = 1"
    and e: "remove_ends ops call addr hi (mapped_at suf)
      (Ret (\<exists>a. addr \<le> a \<and> a \<le> hi \<and> mapped_at suf a \<noteq> None)) r stop"
    using remove_loop_upto [OF sorted split(3) par split(5) up run, unfolded simp_thms]
    by (elim exE conjE) (rule that)
  have suf_m: "mapped_at m a = mapped_at suf a" if "mapped_at suf a \<noteq> None" for a
  proof -
    have "\<exists>k \<in> fst ` set suf. k \<le> a"
      by (rule ccontr) (use that mapped_at_low [of suf a] in force)
    then obtain k where k: "k \<in> fst ` set suf" "k \<le> a" by (rule bexE)
    then have "j < a" if "j \<in> fst ` set pre" for j
      using that sorted by (fastforce simp: sorted_wrt_append)
    then have "mapped_at pre a = None" by (rule mapped_at_high)
    then show ?thesis using split(2) by (simp add: split(1) mapped_at_append)
  qed
  have "mr_inv m' \<and> (\<forall>a. mapped_at m' a = (if addr \<le> a \<and> a < stop then None else mapped_at m a))"
  proof (cases "stop = addr")
    case True
    then show ?thesis using st(4) inv split(1) by auto
  next
    case False
    then have p: "odd (stop - 1)" "addr < stop - 1" using st(1,3) par(1) by (auto elim!: evenE)
    have range: "a < stop \<longleftrightarrow> a \<le> stop - 1" for a using p by auto
    have m': "m' = pre @ cut_range addr (stop - 1) suf" using st(4) False by simp
    have once: "\<forall>a v. addr \<le> a \<and> a \<le> stop - 1 \<and> mapped_at suf a = Some v \<longrightarrow> pm_ref v = 1"
      using st(5) range by blast
    have "mr_inv m'"
      unfolding m' using inv split(1) by (intro cut_suffix_inv split(2,3,5) par(1) p) simp
    moreover have "mapped_at m' a = (if addr \<le> a \<and> a < stop then None else mapped_at m a)" for a
      using mapped_at_cut [OF suf_ok split(3) p(2) split(5) once, of a] pre [of a] split(2)
      unfolding m' range by (simp add: split(1) mapped_at_append split: option.splits)
    ultimately show ?thesis by blast
  qed
  moreover have "(\<exists>a. addr \<le> a \<and> a \<le> hi \<and> mapped_at suf a \<noteq> None) \<longleftrightarrow>
      (\<exists>a. addr \<le> a \<and> a \<le> hi \<and> mapped_at m a \<noteq> None)" using same by auto
  moreover have "\<forall>a v. addr \<le> a \<and> a < stop \<and> mapped_at m a = Some v \<longrightarrow> pm_ref v = 1" using st(5) same by auto
  ultimately show ?thesis
    using st(1,2) remove_ends_mono [OF e, of "mapped_at m"] suf_m by (intro exI [of _ stop]) simp
qed



text \<open>
  A range that wraps past the top of the address space is not caught: its end lies before its
  start. Inside a region the removal then leaves the left and the right part in the wrong
  order, so that the nodes of the table no longer alternate.
\<close>

lemma wrapped_unmap_corrupts:
  "let region = \<lparr>mr_map = [(4096, \<lparr>pm_ref = 1, pm_offset = 0, pm_stream = None\<rparr>),
                           (20479, \<lparr>pm_ref = 1, pm_offset = 0, pm_stream = None\<rparr>)],
                 mr_write_mapped = []\<rparr> in
   mr_inv (mr_map region) \<and>
   map fst (mr_map (fst (snd (RemoveFileStreamsByAddr simple_ops False 16384 4294963200 True (region, ()))))) =
     [4096, 12288, 16383, 20479] \<and>
   \<not> paired (mr_map (fst (snd (RemoveFileStreamsByAddr simple_ops False 16384 4294963200 True (region, ())))))"
  by (simp add: RemoveFileStreamsByAddr_def first_region_def FindRegion_def end_address_def RemoveOneRegion_def ptrdiff_def
      smap_insert_def mr_inv_def IsPageEndAddress_def Let_def)

end
