(* ===== verification/Time_Util.thy ===== *)
theory Time_Util
  imports Arc_Prelude "HOL-Library.Signed_Division"
begin

text \<open>
  Time conversions and timed waiting: \<^verbatim>\<open>src/src/posix_translation/time_util.cc\<close>.
  \<^verbatim>\<open>base::TimeDelta\<close> and \<^verbatim>\<open>base::TimeTicks\<close> are 64-bit microsecond counts, kept as
  integers; \<^verbatim>\<open>time_t\<close> and \<^verbatim>\<open>suseconds_t\<close> have 32 bits in Bionic, and storing a count in
  them wraps. A null \<^verbatim>\<open>TimeTicks\<close> has the value zero.
\<close>

record timeval =
  tv_sec :: int
  tv_usec :: int

definition kMicrosecondsPerSecond :: int where
  "kMicrosecondsPerSecond = 1000 * 1000"

text \<open>Conversion of a 64-bit count to a signed 32-bit field.\<close>

definition to_time_t :: "int \<Rightarrow> int" where
  "to_time_t x = sint (word_of_int x :: 32 word)"

definition TimeValToTimeDelta :: "timeval \<Rightarrow> int" where
  "TimeValToTimeDelta time = tv_sec time * kMicrosecondsPerSecond + tv_usec time"

text \<open>Division and remainder truncate towards zero, so the remainder may be negative.\<close>

definition TimeDeltaToTimeVal :: "int \<Rightarrow> timeval" where
  "TimeDeltaToTimeVal usec =
     (let sec = to_time_t (usec sdiv kMicrosecondsPerSecond);
          us = to_time_t (usec smod kMicrosecondsPerSecond)
      in if us < 0 then \<lparr>tv_sec = to_time_t (sec - 1), tv_usec = us + kMicrosecondsPerSecond\<rparr>
         else \<lparr>tv_sec = sec, tv_usec = us\<rparr>)"

text \<open>\<open>now\<close> is the reading of the clock.\<close>

definition is_null :: "int \<Rightarrow> bool" where
  "is_null ticks \<longleftrightarrow> ticks = 0"

definition TimeOutToTimeLimit :: "int \<Rightarrow> int \<Rightarrow> int" where
  "TimeOutToTimeLimit now timeout_period = (if timeout_period = 0 then 0 else now + timeout_period)"

text \<open>
  A wait on the condition variable ends at a signal, spuriously or by its own time-out. What
  the caller learns is decided by the clock before and after the wait; when the limit has
  passed already the call does not wait at all. The first component says whether the
  variable was waited on.
\<close>

definition WaitUntilInternal :: "int \<Rightarrow> int \<Rightarrow> int \<Rightarrow> bool \<times> bool" where
  "WaitUntilInternal time_limit start_time end_time =
     (if is_null time_limit then (True, False)
      else if time_limit \<le> start_time then (False, True)
      else (True, time_limit \<le> end_time))"

definition WaitUntil :: "int \<Rightarrow> int \<Rightarrow> int \<Rightarrow> bool" where
  "WaitUntil time_limit start_time end_time = snd (WaitUntilInternal time_limit start_time end_time)"

section \<open>Library lemmas\<close>

lemma to_time_t_id: "- (2 ^ 31) \<le> x \<Longrightarrow> x < 2 ^ 31 \<Longrightarrow> to_time_t x = x"
  by (simp add: to_time_t_def sint_sbintrunc' signed_take_bit_int_eq_self)

lemma smod_bounds: "- kMicrosecondsPerSecond < x smod kMicrosecondsPerSecond \<and> x smod kMicrosecondsPerSecond < kMicrosecondsPerSecond"
proof -
  have "0 \<le> \<bar>x\<bar> mod 1000000" "\<bar>x\<bar> mod 1000000 < 1000000" by simp_all
  then show ?thesis by (auto simp: kMicrosecondsPerSecond_def signed_modulo_int_def sgn_if)
qed

lemma to_time_t_smod: "to_time_t (x smod kMicrosecondsPerSecond) = x smod kMicrosecondsPerSecond"
  using smod_bounds [of x] by (intro to_time_t_id) (simp_all add: kMicrosecondsPerSecond_def)

lemma TimeDeltaToTimeVal_range: "0 \<le> tv_usec (TimeDeltaToTimeVal usec) \<and> tv_usec (TimeDeltaToTimeVal usec) < kMicrosecondsPerSecond"
  using smod_bounds [of usec]
  by (auto simp: TimeDeltaToTimeVal_def Let_def to_time_t_smod)

lemma WaitUntil_true: "WaitUntil limit s e \<longleftrightarrow> \<not> is_null limit \<and> (limit \<le> s \<or> limit \<le> e)"
  by (auto simp: WaitUntil_def WaitUntilInternal_def)

lemma sdiv_nonneg: "0 \<le> (x :: int) \<Longrightarrow> x sdiv 1000000 = x div 1000000"
  "0 \<le> (x :: int) \<Longrightarrow> x smod 1000000 = x mod 1000000"
  by (simp_all add: signed_divide_int_def signed_modulo_int_def sgn_if)

lemma timeval_delta_back:
  assumes "- (2 ^ 31) \<le> tv_sec t" "tv_sec t < 2 ^ 31" "0 \<le> tv_usec t" "tv_usec t < kMicrosecondsPerSecond"
  shows "TimeDeltaToTimeVal (TimeValToTimeDelta t) = t"
proof -
  obtain s u where t: "t = \<lparr>tv_sec = s, tv_usec = u\<rparr>" by (cases t) auto
  have b: "- (2 ^ 31) \<le> s" "s < 2 ^ 31" "0 \<le> u" "u < 1000000"
    using assms by (simp_all add: t kMicrosecondsPerSecond_def)
  let ?x = "s * 1000000 + u"
  have dm: "?x div 1000000 = s" "?x mod 1000000 = u" using b by auto
  show ?thesis
  proof (cases "0 \<le> ?x")
    case True
    then have "?x sdiv 1000000 = s" "?x smod 1000000 = u"
      by (simp_all only: sdiv_nonneg dm)
    with b show ?thesis
      by (simp add: t TimeDeltaToTimeVal_def TimeValToTimeDelta_def kMicrosecondsPerSecond_def to_time_t_id Let_def)
  next
    case False
    then have s: "s < 0" using b by auto
    have e: "?x sdiv 1000000 = - ((- ?x) div 1000000)" "?x smod 1000000 = - ((- ?x) mod 1000000)"
      using False by (simp_all add: signed_divide_int_def signed_modulo_int_def sgn_if)
    show ?thesis
    proof (cases "u = 0")
      case True
      then have "(- ?x) div 1000000 = - s" "(- ?x) mod 1000000 = 0" by simp_all
      with e True b show ?thesis
        by (simp add: t TimeDeltaToTimeVal_def TimeValToTimeDelta_def kMicrosecondsPerSecond_def to_time_t_id Let_def)
    next
      case False
      have x: "- ?x = 1000000 * (- s - 1) + (1000000 - u)" "0 \<le> 1000000 - u" "1000000 - u < 1000000"
        using b False by simp_all
      have "(- ?x) div 1000000 = - s - 1" "(- ?x) mod 1000000 = 1000000 - u"
        using int_div_pos_eq [OF x] int_mod_pos_eq [OF x] by simp_all
      with e have "?x sdiv 1000000 = s + 1" "?x smod 1000000 = u - 1000000" by simp_all
      with s b False show ?thesis
        by (simp add: t TimeDeltaToTimeVal_def TimeValToTimeDelta_def kMicrosecondsPerSecond_def to_time_t_id Let_def)
    qed
  qed
qed

end
