(* ===== verification/Vfs_State.thy ===== *)
theory Vfs_State
  imports Dir_Manager Epoll_Stream Mem_Region Time_Util "HOL-Library.Monad_Syntax"
begin

text \<open>
  The state of the virtual file system (\<^verbatim>\<open>src/src/posix_translation/virtual_file_system.cc\<close>,
  \<^verbatim>\<open>virtual_file_system.h\<close>), the interface of file system handlers
  (\<^verbatim>\<open>file_system_handler.cc\<close>), inode numbers, permissions and path normalisation.

  Every public operation of the class takes the big lock first, so an operation is a function
  on the whole state. Calls from the main thread, which abort the process, are left out.
\<close>

section \<open>Users and file attributes\<close>

definition kFirstAppUid :: u32 where
  "kFirstAppUid = 10000"

definition IsAppUid :: "u32 \<Rightarrow> bool" where
  "IsAppUid uid \<longleftrightarrow> kFirstAppUid \<le> uid"

definition kRootGid :: u32 where
  "kRootGid = 0"

record stat_buf =
  st_ino :: int
  st_mode :: u32
  st_uid :: u32
  st_gid :: u32
  st_nlink :: nat
  st_size :: int
  st_blksize :: int
  st_mtime :: int

definition S_IFMT :: u32 where "S_IFMT = 0xF000"
definition S_IFDIR :: u32 where "S_IFDIR = 0x4000"
definition S_IFREG :: u32 where "S_IFREG = 0x8000"
definition S_IFLNK :: u32 where "S_IFLNK = 0xA000"
definition S_IWUSR :: u32 where "S_IWUSR = 0x80"
definition S_IWGRP :: u32 where "S_IWGRP = 0x10"
definition S_IWOTH :: u32 where "S_IWOTH = 0x2"
definition S_IXUSR :: u32 where "S_IXUSR = 0x40"

definition S_ISDIR :: "u32 \<Rightarrow> bool" where
  "S_ISDIR mode \<longleftrightarrow> mode AND S_IFMT = S_IFDIR"

text \<open>Default permissions, octal 0600, 0700, 0644 and 0755.\<close>

definition kDefaultUserFilePermission :: u32 where "kDefaultUserFilePermission = 0x180"
definition kDefaultUserDirPermission :: u32 where "kDefaultUserDirPermission = 0x1C0"
definition kDefaultSystemFilePermission :: u32 where "kDefaultSystemFilePermission = 0x1A4"
definition kDefaultSystemDirPermission :: u32 where "kDefaultSystemDirPermission = 0x1ED"

definition FillPermissionInfoToStat :: "permission_info \<Rightarrow> stat_buf \<Rightarrow> stat_buf" where
  "FillPermissionInfoToStat permission out =
     (let file_type = st_mode out AND S_IFMT;
          perm = st_mode out AND 0x1FF;
          is_dir = (file_type = S_IFDIR);
          perm1 =
            (if file_type \<noteq> 0 \<and> perm = 0 then
               (if IsAppUid (file_uid permission)
                then (if is_dir then kDefaultUserDirPermission else kDefaultUserFilePermission)
                else (if is_dir then kDefaultSystemDirPermission else kDefaultSystemFilePermission))
             else perm)
      in out\<lparr>st_uid := file_uid permission, st_gid := kRootGid, st_mode := file_type OR perm1\<rparr>)"

definition O_CREAT :: u32 where "O_CREAT = 0x40"
definition O_EXCL :: u32 where "O_EXCL = 0x80"
definition O_TRUNC :: u32 where "O_TRUNC = 0x200"
definition O_RDWR :: u32 where "O_RDWR = 2"
definition O_ACCMODE :: u32 where "O_ACCMODE = 3"
definition O_RDONLY :: u32 where "O_RDONLY = 0"
definition O_LARGEFILE :: u32 where "O_LARGEFILE = 0x8000"
definition O_CLOEXEC :: u32 where "O_CLOEXEC = 0x80000"

definition IsEligibleForPreopen :: "u32 \<Rightarrow> bool" where
  "IsEligibleForPreopen oflag \<longleftrightarrow> oflag AND NOT (O_LARGEFILE OR O_CLOEXEC) = 0"

section \<open>The state\<close>

type_synonym hid = nat

record 'w vfs =
  v_fds :: fd_map
  v_mem :: memory_region
  v_inodes :: "(string \<times> int) list"
  v_next_inode :: int
  v_mounts :: "hid mount_point_manager"
  v_scheduled_preopens :: "string list"
  v_preopened_fds :: "(string \<times> int) list"
  v_preopen_started :: bool
  v_browser_ready :: bool
  v_debug_fds :: "(int \<times> (int \<times> string)) list"
  v_cwd :: string
  v_umask :: u32
  v_uid :: u32
  v_broadcasts :: nat
  v_world :: 'w

definition kInvalidFileNo :: int where
  "kInvalidFileNo = - 1"

definition VirtualFileSystem :: "bool \<Rightarrow> int \<Rightarrow> int \<Rightarrow> string \<Rightarrow> u32 \<Rightarrow> u32 \<Rightarrow> 'w \<Rightarrow> 'w vfs" where
  "VirtualFileSystem save_logs_to_file min_fd max_fd cwd umask uid w =
     \<lparr>v_fds = FdToFileStreamMap min_fd max_fd, v_mem = MemoryRegion, v_inodes = [], v_next_inode = 128,
      v_mounts = MountPointManager, v_scheduled_preopens = [], v_preopened_fds = [],
      v_preopen_started = False, v_browser_ready = False,
      v_debug_fds = (if save_logs_to_file
         then [(1, (kInvalidFileNo, ''/data/arc_stdout.txt'')), (2, (kInvalidFileNo, ''/data/arc_stderr.txt''))]
         else []),
      v_cwd = cwd, v_umask = umask, v_uid = uid, v_broadcasts = 0, v_world = w\<rparr>"

section \<open>The interface of file system handlers\<close>

text \<open>
  The virtual functions of \<^verbatim>\<open>FileSystemHandler\<close>, for every handler object. They may call
  back into the virtual file system (for inode numbers), so they act on its whole state;
  \<open>readlink\<close> and \<open>IsWorldWritable\<close> only look at it. Failing with an error number is \<open>Err\<close>.
\<close>

record statfs_buf =
  f_bsize :: int
  f_blocks :: int
  f_bfree :: int
  f_bavail :: int
  f_files :: int
  f_ffree :: int
  f_fsid :: "int list"
  f_namelen :: int

record pp_file_info =
  pp_size :: int
  pp_type :: int
  pp_system_type :: int
  pp_creation_time :: int
  pp_last_access_time :: int
  pp_last_modified_time :: int

record 's handler_ops =
  ho_IsInitialized :: "hid \<Rightarrow> 's \<Rightarrow> bool"
  ho_Initialize :: "hid \<Rightarrow> 's \<Rightarrow> 's"
  ho_IsWorldWritable :: "hid \<Rightarrow> string \<Rightarrow> 's \<Rightarrow> bool"
  ho_OnMounted :: "hid \<Rightarrow> string \<Rightarrow> 's \<Rightarrow> 's"
  ho_OnUnmounted :: "hid \<Rightarrow> string \<Rightarrow> 's \<Rightarrow> 's"
  ho_InvalidateCache :: "hid \<Rightarrow> 's \<Rightarrow> 's"
  ho_AddToCache :: "hid \<Rightarrow> string \<Rightarrow> pp_file_info \<Rightarrow> bool \<Rightarrow> 's \<Rightarrow> 's"
  ho_open :: "hid \<Rightarrow> int \<Rightarrow> string \<Rightarrow> u32 \<Rightarrow> u32 \<Rightarrow> 's \<Rightarrow> sid outcome \<times> 's"
  ho_stat :: "hid \<Rightarrow> string \<Rightarrow> 's \<Rightarrow> stat_buf outcome \<times> 's"
  ho_statfs :: "hid \<Rightarrow> string \<Rightarrow> 's \<Rightarrow> statfs_buf outcome \<times> 's"
  ho_readlink :: "hid \<Rightarrow> string \<Rightarrow> 's \<Rightarrow> string option"
  ho_mkdir :: "hid \<Rightarrow> string \<Rightarrow> u32 \<Rightarrow> 's \<Rightarrow> int outcome \<times> 's"
  ho_remove :: "hid \<Rightarrow> string \<Rightarrow> 's \<Rightarrow> int outcome \<times> 's"
  ho_rename :: "hid \<Rightarrow> string \<Rightarrow> string \<Rightarrow> 's \<Rightarrow> int outcome \<times> 's"
  ho_rmdir :: "hid \<Rightarrow> string \<Rightarrow> 's \<Rightarrow> int outcome \<times> 's"
  ho_symlink :: "hid \<Rightarrow> string \<Rightarrow> string \<Rightarrow> 's \<Rightarrow> int outcome \<times> 's"
  ho_truncate :: "hid \<Rightarrow> string \<Rightarrow> int \<Rightarrow> 's \<Rightarrow> int outcome \<times> 's"
  ho_unlink :: "hid \<Rightarrow> string \<Rightarrow> 's \<Rightarrow> int outcome \<times> 's"
  ho_utimes :: "hid \<Rightarrow> string \<Rightarrow> timeval \<times> timeval \<Rightarrow> 's \<Rightarrow> int outcome \<times> 's"

text \<open>What the base class answers where a handler does not override a function.\<close>

definition FileSystemHandler_IsInitialized :: bool where "FileSystemHandler_IsInitialized = True"

definition FileSystemHandler_IsWorldWritable :: "stat_buf outcome \<Rightarrow> bool" where
  "FileSystemHandler_IsWorldWritable st =
     (case st of
        Ret b \<Rightarrow> st_mode b AND S_IWUSR \<noteq> 0 \<and> st_mode b AND S_IWGRP \<noteq> 0 \<and> st_mode b AND S_IWOTH \<noteq> 0
      | _ \<Rightarrow> False)"

definition FileSystemHandler_mkdir :: "int outcome" where "FileSystemHandler_mkdir = Err EEXIST"
definition FileSystemHandler_readlink :: "string option" where "FileSystemHandler_readlink = None"
definition FileSystemHandler_remove :: "int outcome" where "FileSystemHandler_remove = Err EACCES"
definition FileSystemHandler_rmdir :: "int outcome" where "FileSystemHandler_rmdir = Err EACCES"
definition FileSystemHandler_symlink :: "int outcome" where "FileSystemHandler_symlink = Err EPERM"
definition FileSystemHandler_truncate :: "int outcome" where "FileSystemHandler_truncate = Err EINVAL"
definition FileSystemHandler_unlink :: "int outcome" where "FileSystemHandler_unlink = Err EACCES"
definition FileSystemHandler_utimes :: "int outcome" where "FileSystemHandler_utimes = Err EPERM"

definition FileSystemHandler_rename :: "string \<Rightarrow> string \<Rightarrow> int outcome" where
  "FileSystemHandler_rename oldpath newpath = (if oldpath = newpath then Ret 0 else Err EACCES)"

section \<open>Handlers and permissions\<close>

definition GetFileSystemHandlerLocked ::
  "'w vfs handler_ops \<Rightarrow> string \<Rightarrow> 'w vfs \<Rightarrow> (hid \<times> permission_info) option \<times> 'w vfs" where
  "GetFileSystemHandlerLocked H path s =
     (case mm_GetFileSystemHandler (v_mounts s) path 0 of
        (None, _) \<Rightarrow> (None, s)
      | (Some handler, uid) \<Rightarrow>
          let s' = (if ho_IsInitialized H handler s then s else ho_Initialize H handler s);
              is_writable = (\<not> IsAppUid (v_uid s') \<or> uid = v_uid s' \<or> ho_IsWorldWritable H handler path s')
          in (Some (handler, \<lparr>file_uid = uid, is_writable = is_writable\<rparr>), s'))"

section \<open>Inode numbers\<close>

text \<open>The counter is an \<^verbatim>\<open>ino_t\<close> and wraps at 32 bits; a number that is still in use is not skipped.\<close>

definition GetInodeUncheckedLocked :: "string \<Rightarrow> 'w vfs \<Rightarrow> int \<times> 'w vfs" where
  "GetInodeUncheckedLocked path s =
     (case map_of (v_inodes s) path of
        Some ino \<Rightarrow> (ino, s)
      | None \<Rightarrow>
          (v_next_inode s,
           s\<lparr>v_inodes := AList.update path (v_next_inode s) (v_inodes s), v_next_inode := (v_next_inode s + 1) mod 2 ^ 32\<rparr>))"

definition GetInodeLocked :: "string \<Rightarrow> 'w vfs \<Rightarrow> int \<times> 'w vfs" where
  "GetInodeLocked path s = GetInodeUncheckedLocked path s"

definition RemoveInodeLocked :: "string \<Rightarrow> 'w vfs \<Rightarrow> 'w vfs" where
  "RemoveInodeLocked path s = s\<lparr>v_inodes := AList.delete path (v_inodes s)\<rparr>"

definition ReassignInodeLocked :: "string \<Rightarrow> string \<Rightarrow> 'w vfs \<Rightarrow> 'w vfs" where
  "ReassignInodeLocked oldpath newpath s =
     (case map_of (v_inodes s) oldpath of
        None \<Rightarrow> s\<lparr>v_inodes := AList.delete newpath (v_inodes s)\<rparr>
      | Some ino \<Rightarrow>
          s\<lparr>v_inodes := AList.delete oldpath (AList.update newpath ino (v_inodes s))\<rparr>)"

section \<open>Path normalisation\<close>

datatype normalize_option = kResolveSymlinks | kResolveParentSymlinks

text \<open>
  Following a chain of symbolic links. The code has no protection against loops, so the
  function is partial: \<open>None\<close> means that it does not return.
\<close>

definition link_target :: "'w vfs handler_ops \<Rightarrow> 'w vfs \<Rightarrow> string \<Rightarrow> string option" where
  "link_target H s path =
     (case mm_GetFileSystemHandler (v_mounts s) path 0 of
        (None, _) \<Rightarrow> None
      | (Some handler, _) \<Rightarrow> ho_readlink H handler path s)"

partial_function (option) ResolveSymlinks :: "'w vfs handler_ops \<Rightarrow> 'w vfs \<Rightarrow> string \<Rightarrow> string option" where
  "ResolveSymlinks H s path =
     (case link_target H s path of
        None \<Rightarrow> Some path
      | Some resolved \<Rightarrow> ResolveSymlinks H s resolved)"

text \<open>
  The loop over the components. Cutting off the last component of a path without a slash
  (after a link with such a target) aborts, which is \<open>None\<close> as well.
\<close>

fun normalize_loop ::
  "'w vfs handler_ops \<Rightarrow> 'w vfs \<Rightarrow> normalize_option \<Rightarrow> string list \<Rightarrow> string \<Rightarrow> string option" where
  "normalize_loop H s option [] path = Some path"
| "normalize_loop H s option (d # directories) path =
     (if d = [] then normalize_loop H s option directories path
      else if d = ''..'' then
        (if path = [] then normalize_loop H s option directories path
         else case rfind CHR ''/'' path None of
                None \<Rightarrow> None
              | Some pos \<Rightarrow> normalize_loop H s option directories (take pos path))
      else
        let path1 = path @ ''/'' @ d in
        if option = kResolveSymlinks \<or> directories \<noteq> []
        then do { path2 \<leftarrow> ResolveSymlinks H s path1; normalize_loop H s option directories path2 }
        else normalize_loop H s option directories path1)"

definition GetNormalizedPathLocked ::
  "base_lib \<Rightarrow> 'w vfs handler_ops \<Rightarrow> 'w vfs \<Rightarrow> normalize_option \<Rightarrow> string \<Rightarrow> string option" where
  "GetNormalizedPathLocked B H s option in_out_path =
     (let path1 = RemoveTrailingSlashes in_out_path;
          option1 = (if option = kResolveParentSymlinks \<and> 2 \<le> length path1 \<and> drop (length path1 - 2) path1 = ''/.''
                     then kResolveSymlinks else option);
          path2 = RemoveSingleDotsAndRedundantSlashes B path1
      in if path2 = [] then Some path2
         else
           let path3 = (if path2 = ''.'' then RemoveTrailingSlashes (v_cwd s)
                        else if hd path2 \<noteq> CHR ''/'' then v_cwd s @ path2 else path2)
           in do {
                path4 \<leftarrow> normalize_loop H s option1 (SplitString B path3 CHR ''/'') [];
                Some (if path4 = [] then ''/'' else path4)
              })"

definition IsNormalizedPathLocked :: "base_lib \<Rightarrow> 'w vfs handler_ops \<Rightarrow> 'w vfs \<Rightarrow> string \<Rightarrow> bool option" where
  "IsNormalizedPathLocked B H s path =
     do {
       resolved \<leftarrow> GetNormalizedPathLocked B H s kResolveSymlinks path;
       Some (path = (if path \<noteq> ''/'' \<and> EndsWithSlash path then resolved @ ''/'' else resolved))
     }"

section \<open>Following symbolic links\<close>

text \<open>The reference: at most \<open>n\<close> steps along the chain, \<open>None\<close> when it is longer.\<close>

fun follow_links :: "(string \<Rightarrow> string option) \<Rightarrow> nat \<Rightarrow> string \<Rightarrow> string option" where
  "follow_links target n path =
     (case target path of
        None \<Rightarrow> Some path
      | Some q \<Rightarrow> (case n of 0 \<Rightarrow> None | Suc k \<Rightarrow> follow_links target k q))"

declare follow_links.simps [simp del]

lemma ResolveSymlinks_sound:
  assumes "ResolveSymlinks H s p = Some q"
  shows "\<exists>n. follow_links (link_target H s) n p = Some q"
proof (rule ResolveSymlinks.raw_induct [where P = "\<lambda>H s p q. \<exists>n. follow_links (link_target H s) n p = Some q", OF _ assms])
  fix f :: "'a vfs handler_ops \<Rightarrow> 'a vfs \<Rightarrow> string \<Rightarrow> string option" and H s p q
  assume IH: "\<And>H s p q. f H s p = Some q \<Longrightarrow> \<exists>n. follow_links (link_target H s) n p = Some q"
    and eq: "(case link_target H s p of None \<Rightarrow> Some p | Some r \<Rightarrow> f H s r) = Some q"
  show "\<exists>n. follow_links (link_target H s) n p = Some q"
  proof (cases "link_target H s p")
    case None
    with eq show ?thesis by (intro exI [of _ 0]) (simp add: follow_links.simps)
  next
    case (Some r)
    with eq have "f H s r = Some q" by simp
    from IH [OF this] obtain n where "follow_links (link_target H s) n r = Some q" by blast
    with Some show ?thesis by (intro exI [of _ "Suc n"]) (simp add: follow_links.simps)
  qed
qed

lemma ResolveSymlinks_complete:
  "follow_links (link_target H s) n p = Some q \<Longrightarrow> ResolveSymlinks H s p = Some q"
proof (induction n arbitrary: p)
  case 0
  then show ?case by (subst ResolveSymlinks.simps) (auto simp: follow_links.simps split: option.splits)
next
  case (Suc n)
  then show ?case by (subst ResolveSymlinks.simps) (auto simp: follow_links.simps [of _ "Suc n"] split: option.splits)
qed

lemma ResolveSymlinks_plain: "link_target H s p = None \<Longrightarrow> ResolveSymlinks H s p = Some p"
  by (simp add: ResolveSymlinks.simps)

text \<open>The links form no cycle, and every target is absolute.\<close>

definition links_ranked :: "'w vfs handler_ops \<Rightarrow> 'w vfs \<Rightarrow> (string \<Rightarrow> nat) \<Rightarrow> bool" where
  "links_ranked H s rank \<longleftrightarrow>
     (\<forall>p q. link_target H s p = Some q \<longrightarrow> rank q < rank p \<and> IsAbsolutePath q)"

lemma ResolveSymlinks_ranked:
  assumes "links_ranked H s rank"
  shows "\<exists>q. ResolveSymlinks H s p = Some q \<and> (q = p \<or> IsAbsolutePath q) \<and> link_target H s q = None"
proof (induction "rank p" arbitrary: p rule: less_induct)
  case less
  show ?case
  proof (cases "link_target H s p")
    case None
    then show ?thesis by (simp add: ResolveSymlinks_plain)
  next
    case (Some r)
    with assms have r: "rank r < rank p" "IsAbsolutePath r" by (auto simp: links_ranked_def)
    from less [OF r(1)] obtain q where
      "ResolveSymlinks H s r = Some q" "q = r \<or> IsAbsolutePath q" "link_target H s q = None" by blast
    with Some r(2) show ?thesis by (subst ResolveSymlinks.simps) auto
  qed
qed

lemma rfind_absolute:
  assumes "IsAbsolutePath p"
  shows "\<exists>pos. rfind CHR ''/'' p None = Some pos \<and> (take pos p = [] \<or> IsAbsolutePath (take pos p))"
proof -
  from assms obtain r where p: "p = CHR ''/'' # r" by (cases p) (auto simp: IsAbsolutePath_def)
  obtain a b where ab: "p = a @ CHR ''/'' # b" "CHR ''/'' \<notin> set b"
    using split_list_last [of "CHR ''/''" p] p by auto
  then have "rfind CHR ''/'' p None = Some (length a)" by (simp add: rfind_last)
  moreover have "a = [] \<or> IsAbsolutePath a" using ab p by (cases a) (auto simp: IsAbsolutePath_def)
  ultimately show ?thesis using ab by auto
qed

lemma normalize_loop_total:
  assumes "links_ranked H s rank" and "path = [] \<or> IsAbsolutePath path"
  shows "\<exists>q. normalize_loop H s opt ds path = Some q \<and> (q = [] \<or> IsAbsolutePath q)"
  using assms(2)
proof (induction ds arbitrary: path)
  case (Cons d ds)
  show ?case
  proof (cases "d = ''..'' \<and> path \<noteq> []")
    case True
    with Cons.prems obtain pos where "rfind CHR ''/'' path None = Some pos"
      "take pos path = [] \<or> IsAbsolutePath (take pos path)"
      using rfind_absolute [of path] by blast
    with True Cons.IH show ?thesis by simp
  next
    case False
    have abs: "IsAbsolutePath (path @ ''/'' @ d)"
      using Cons.prems by (auto simp: IsAbsolutePath_def)
    then obtain q where "ResolveSymlinks H s (path @ ''/'' @ d) = Some q" "IsAbsolutePath q"
      using ResolveSymlinks_ranked [OF assms(1), of "path @ ''/'' @ d"] by blast
    with False Cons abs show ?thesis by (auto simp: Let_def)
  qed
qed simp

section \<open>Lexical normalisation\<close>

fun lexical :: "string list \<Rightarrow> string list \<Rightarrow> string list" where
  "lexical acc [] = acc"
| "lexical acc (d # ds) = (if d = ''..'' then lexical (butlast acc) ds else lexical (acc @ [d]) ds)"

definition slashed :: "string list \<Rightarrow> string" where
  "slashed cs = concat (map (\<lambda>c. CHR ''/'' # c) cs)"

lemma slashed_abs_path: "cs \<noteq> [] \<Longrightarrow> slashed cs = abs_path cs"
proof (induction cs)
  case (Cons c cs)
  then show ?case by (cases "cs = []") (auto simp: slashed_def abs_path_def join_with_Cons)
qed simp

lemma slashed_pop:
  assumes "good_components acc" "slashed acc \<noteq> []"
  shows "\<exists>pos. rfind CHR ''/'' (slashed acc) None = Some pos \<and> take pos (slashed acc) = slashed (butlast acc)"
proof -
  from assms(2) obtain init c where acc: "acc = init @ [c]"
    by (cases acc rule: rev_cases) (auto simp: slashed_def)
  with assms(1) have "CHR ''/'' \<notin> set c" by simp
  then have "rfind CHR ''/'' (slashed acc) None = Some (length (slashed init))"
    by (simp add: acc slashed_def rfind_last)
  then show ?thesis by (simp add: acc slashed_def)
qed

lemma slashed_Nil_iff [simp]: "slashed cs = [] \<longleftrightarrow> cs = []"
  by (auto simp: slashed_def)

lemma good_butlast: "good_components cs \<Longrightarrow> good_components (butlast cs)"
  by (auto simp: good_components_def dest: in_set_butlastD)

lemma normalize_loop_lexical:
  assumes "link_target H s = (\<lambda>_. None)" "good_components ds" "good_components acc"
  shows "normalize_loop H s opt ds (slashed acc) = Some (slashed (lexical acc ds))"
  using assms(2,3)
proof (induction ds arbitrary: acc)
  case (Cons d ds)
  show ?case
  proof (cases "d = ''..''")
    case True
    show ?thesis
    proof (cases "acc = []")
      case False
      then obtain pos where "rfind CHR ''/'' (slashed acc) None = Some pos"
        "take pos (slashed acc) = slashed (butlast acc)"
        using slashed_pop Cons.prems by auto
      with True False Cons show ?thesis by (simp add: good_butlast)
    qed (use True Cons in simp)
  next
    case False
    have "slashed acc @ ''/'' @ d = slashed (acc @ [d])" by (simp add: slashed_def)
    with False Cons show ?thesis
      by (simp add: assms(1) ResolveSymlinks_plain Let_def)
  qed
qed simp

lemma lexical_set: "set (lexical acc ds) \<subseteq> set acc \<union> set ds"
  by (induction acc ds rule: lexical.induct) (auto dest: in_set_butlastD)

lemma lexical_no_dotdot: "''..'' \<notin> set acc \<Longrightarrow> ''..'' \<notin> set (lexical acc ds)"
  by (induction acc ds rule: lexical.induct) (auto dest: in_set_butlastD)

lemma lexical_id: "''..'' \<notin> set ds \<Longrightarrow> lexical acc ds = acc @ ds"
  by (induction acc ds rule: lexical.induct) auto

lemma split_at_snoc: "split_at c (p @ [c]) = split_at c p @ [[]]"
  by (induction p) (auto split: list.split)

lemma norm_components_trailing [simp]: "norm_components (p @ replicate k CHR ''/'') = norm_components p"
proof (induction k)
  case (Suc k)
  have "p @ replicate (Suc k) CHR ''/'' = (p @ replicate k CHR ''/'') @ [CHR ''/'']"
    by (simp add: replicate_append_same)
  then show ?case using Suc by (simp only: norm_components_def split_at_snoc filter_append) simp
qed simp

lemma norm_components_RemoveTrailingSlashes [simp]:
  "norm_components (RemoveTrailingSlashes p) = norm_components p"
  using RemoveTrailingSlashes_append [of p] norm_components_trailing by metis

lemma clean_RemoveTrailingSlashes: "clean_components p \<Longrightarrow> clean_components (RemoveTrailingSlashes p)"
proof -
  have "clean_components q" if "clean_components (q @ replicate k CHR ''/'')" for q k
    using that
  proof (induction k)
    case (Suc k)
    have "q @ replicate (Suc k) CHR ''/'' = (q @ replicate k CHR ''/'') @ [CHR ''/'']"
      by (simp add: replicate_append_same)
    with Suc have "clean_components (q @ replicate k CHR ''/'')"
      by (simp only: clean_components_def split_at_snoc) simp
    with Suc show ?case by simp
  qed simp
  then show "clean_components p \<Longrightarrow> clean_components (RemoveTrailingSlashes p)"
    using RemoveTrailingSlashes_append [of p] by metis
qed

lemma absolute_RemoveTrailingSlashes: "IsAbsolutePath p \<Longrightarrow> IsAbsolutePath (RemoveTrailingSlashes p)"
proof (induction p rule: RemoveTrailingSlashes.induct)
  case (1 p)
  have "IsAbsolutePath (butlast p)" if "1 < length p" "IsAbsolutePath p" for p
    using that by (cases p; cases "tl p") (auto simp: IsAbsolutePath_def)
  with 1 show ?case by (subst RemoveTrailingSlashes.simps) auto
qed

lemma clean_norm_components: "clean_components p \<Longrightarrow> clean_path (norm_components p)"
  using norm_components_member [of _ p]
  by (auto simp: clean_path_def good_components_def clean_components_def norm_components_def)

lemma abs_path_Nil [simp]: "abs_path [] = ''/''"
  by (simp add: abs_path_def)

lemma RemoveSingleDots_abs_path:
  assumes "base_strings B" "clean_components p" "IsAbsolutePath p"
  shows "RemoveSingleDotsAndRedundantSlashes B p = abs_path (norm_components p)"
proof -
  have "p \<noteq> []" using assms(3) by (auto simp: IsAbsolutePath_def)
  from RemoveSingleDots_cases [OF assms(1,2) this] assms(3) show ?thesis
    by (simp add: canonical_path_def abs_path_def)
qed

lemma normalize_absolute:
  assumes "base_strings B" "clean_components p" "IsAbsolutePath p" "link_target H s = (\<lambda>_. None)"
  shows "GetNormalizedPathLocked B H s opt p = Some (abs_path (lexical [] (norm_components p)))"
proof -
  let ?cs = "norm_components p"
  let ?p = "RemoveTrailingSlashes p"
  have c: "clean_path ?cs" by (rule clean_norm_components [OF assms(2)])
  have r: "RemoveSingleDotsAndRedundantSlashes B ?p = abs_path ?cs"
    using RemoveSingleDots_abs_path [OF assms(1) clean_RemoveTrailingSlashes [OF assms(2)]
        absolute_RemoveTrailingSlashes [OF assms(3)]] by simp
  have split: "filter (\<lambda>d. d \<noteq> []) (SplitString B (abs_path ?cs) CHR ''/'') = ?cs"
  proof (cases "?cs = []")
    case True
    then show ?thesis by (simp add: base_strings.split_doc [OF assms(1)])
  next
    case False
    have "\<forall>d \<in> set ?cs. d \<noteq> []" using norm_components_member by blast
    with base_strings.SplitString_path [OF assms(1) c False] show ?thesis
      by (simp add: filter_id_conv)
  qed
  have skip: "normalize_loop H s o' ds path = normalize_loop H s o' (filter (\<lambda>d. d \<noteq> []) ds) path"
    for o' ds path
    by (induction ds arbitrary: path) (auto simp: Let_def assms(4) ResolveSymlinks_plain split: option.split)
  have loop: "normalize_loop H s o' (SplitString B (abs_path ?cs) CHR ''/'') [] = Some (slashed (lexical [] ?cs))" for o'
    unfolding skip [of o' "SplitString B (abs_path ?cs) CHR ''/''"] split
    using normalize_loop_lexical [OF assms(4) clean_good [OF c], of "[]" o'] by (simp add: slashed_def)
  have ne: "abs_path ?cs \<noteq> []" "abs_path ?cs \<noteq> ''.''" "hd (abs_path ?cs) = CHR ''/''"
    by (simp_all add: abs_path_def)
  have e: "(if slashed (lexical [] ?cs) = [] then ''/'' else slashed (lexical [] ?cs)) = abs_path (lexical [] ?cs)"
    by (simp add: slashed_abs_path)
  show ?thesis
    unfolding GetNormalizedPathLocked_def Let_def r using ne loop e by simp
qed

lemma norm_components_abs_path: "clean_path cs \<Longrightarrow> ''.'' \<notin> set cs \<Longrightarrow> norm_components (abs_path cs) = cs"
proof (cases "cs = []")
  case False
  assume c: "clean_path cs" and d: "''.'' \<notin> set cs"
  have "abs_path cs = join_with CHR ''/'' ([] # cs)"
    using False by (simp add: abs_path_def join_with_Cons)
  moreover have "\<forall>p \<in> set ([] # cs). CHR ''/'' \<notin> set p"
    using c by (auto simp: clean_path_def good_components_def)
  ultimately have "split_at CHR ''/'' (abs_path cs) = [] # cs" by (simp add: split_join_with)
  moreover have "\<forall>c \<in> set cs. c \<noteq> [] \<and> c \<noteq> ''.''"
    using c d by (auto simp: clean_path_def good_components_def)
  ultimately show ?thesis by (simp add: norm_components_def filter_id_conv)
qed (simp add: norm_components_def)

lemma clean_components_abs_path: "clean_path cs \<Longrightarrow> clean_components (abs_path cs)"
proof (cases "cs = []")
  case False
  assume c: "clean_path cs"
  have "abs_path cs = join_with CHR ''/'' ([] # cs)"
    using False by (simp add: abs_path_def join_with_Cons)
  moreover have "\<forall>p \<in> set ([] # cs). CHR ''/'' \<notin> set p"
    using c by (auto simp: clean_path_def good_components_def)
  ultimately have "split_at CHR ''/'' (abs_path cs) = [] # cs" by (simp add: split_join_with)
  with c show ?thesis by (auto simp: clean_components_def clean_path_def no_outer_white_def)
qed (simp add: clean_components_def no_outer_white_def)

section \<open>Inode numbers: the invariant\<close>

text \<open>
  No two paths share a number and every number lies between 128, the first one, and the next
  one, which is fresh. A run of the three operations also yields the numbers handed out.
\<close>

definition inode_inv :: "'w vfs \<Rightarrow> bool" where
  "inode_inv s \<longleftrightarrow>
     (\<forall>p q i. map_of (v_inodes s) p = Some i \<and> map_of (v_inodes s) q = Some i \<longrightarrow> p = q) \<and>
     (\<forall>p i. map_of (v_inodes s) p = Some i \<longrightarrow> 128 \<le> i \<and> i < v_next_inode s)"

datatype inode_op = Op_Get string | Op_Remove string | Op_Reassign string string

fun inode_run :: "inode_op list \<Rightarrow> 'w vfs \<Rightarrow> int list \<times> 'w vfs" where
  "inode_run [] s = ([], s)"
| "inode_run (Op_Get p # ops) s =
     (let (ino, s1) = GetInodeLocked p s; (inos, s2) = inode_run ops s1 in (ino # inos, s2))"
| "inode_run (Op_Remove p # ops) s = inode_run ops (RemoveInodeLocked p s)"
| "inode_run (Op_Reassign p q # ops) s = inode_run ops (ReassignInodeLocked p q s)"

lemmas inode_defs = GetInodeLocked_def GetInodeUncheckedLocked_def RemoveInodeLocked_def ReassignInodeLocked_def

lemmas inode_map = update_conv' delete_conv' fun_upd_apply

lemma inode_inv_init: "inode_inv (VirtualFileSystem b mn mx cwd um uid w)"
  by (simp add: inode_inv_def VirtualFileSystem_def)

lemma inode_inv_get:
  assumes "inode_inv s" "128 \<le> v_next_inode s" "v_next_inode s + 1 < 2 ^ 32"
  shows "inode_inv (snd (GetInodeLocked p s)) \<and> map_of (v_inodes (snd (GetInodeLocked p s))) p = Some (fst (GetInodeLocked p s))"
    and "v_next_inode (snd (GetInodeLocked p s)) = v_next_inode s + (if map_of (v_inodes s) p = None then 1 else 0)"
    and "fst (GetInodeLocked p s) < v_next_inode (snd (GetInodeLocked p s))"
proof -
  have wrap: "(v_next_inode s + 1) mod 2 ^ 32 = v_next_inode s + 1" using assms(2,3) by (intro mod_pos_pos_trivial) auto
  then have wrap': "(v_next_inode s + 1) mod 4294967296 = v_next_inode s + 1" by simp
  show "v_next_inode (snd (GetInodeLocked p s)) = v_next_inode s + (if map_of (v_inodes s) p = None then 1 else 0)"
    "fst (GetInodeLocked p s) < v_next_inode (snd (GetInodeLocked p s))"
    using assms(1) by (auto simp only: inode_defs inode_inv_def wrap split: option.splits) auto
  show "inode_inv (snd (GetInodeLocked p s)) \<and> map_of (v_inodes (snd (GetInodeLocked p s))) p = Some (fst (GetInodeLocked p s))"
  proof (cases "map_of (v_inodes s) p")
    case None
    have lt: "128 \<le> i \<and> i < v_next_inode s" if "map_of (v_inodes s) q = Some i" for q i
      using that assms(1) by (auto simp: inode_inv_def)
    have "p1 = p2" if "((map_of (v_inodes s))(p \<mapsto> v_next_inode s)) p1 = Some i"
      "((map_of (v_inodes s))(p \<mapsto> v_next_inode s)) p2 = Some i" for p1 p2 i
      using that assms(1) lt by (auto simp: inode_inv_def split: if_splits)
    moreover have "128 \<le> i \<and> i < v_next_inode s + 1" if "((map_of (v_inodes s))(p \<mapsto> v_next_inode s)) p1 = Some i" for p1 i
      using that lt [of p1 i] assms(2) by (auto split: if_splits)
    ultimately have "inode_inv (snd (GetInodeLocked p s))"
      unfolding inode_inv_def using None by (simp add: inode_defs wrap' update_conv' del: fun_upd_apply)
    then show ?thesis using None by (simp add: inode_defs update_conv')
  qed (use assms(1) in \<open>auto simp: inode_inv_def inode_defs\<close>)
qed

lemma inode_inv_remove: "inode_inv s \<Longrightarrow> inode_inv (RemoveInodeLocked p s) \<and> v_next_inode (RemoveInodeLocked p s) = v_next_inode s"
  by (auto simp: inode_inv_def inode_defs delete_conv' fun_upd_apply)

lemma inode_inv_reassign: "inode_inv s \<Longrightarrow> inode_inv (ReassignInodeLocked p q s) \<and> v_next_inode (ReassignInodeLocked p q s) = v_next_inode s"
  by (auto simp: inode_inv_def inode_defs update_conv' delete_conv' fun_upd_apply split: option.splits)

text \<open>
  As long as the counter has not wrapped, the numbers handed out are those from 128 up to the
  counter.
\<close>

lemma inode_run_inv:
  assumes "inode_inv s" "128 \<le> v_next_inode s" "D = {128 ..< v_next_inode s}"
    and "inode_run ops s = (inos, s')" "card (D \<union> set inos) < 2 ^ 32 - 128"
  shows "inode_inv s' \<and> 128 \<le> v_next_inode s' \<and> D \<union> set inos = {128 ..< v_next_inode s'}"
  using assms
proof (induction ops s arbitrary: inos D rule: inode_run.induct)
  case (2 p ops s)
  let ?s1 = "snd (GetInodeLocked p s)" and ?i = "fst (GetInodeLocked p s)"
  from "2.prems"(4) obtain rest where r: "inode_run ops ?s1 = (rest, s')" "inos = ?i # rest"
    by (auto simp: Let_def split: prod.splits)
  show ?case
  proof (cases "map_of (v_inodes s) p")
    case None
    then have i: "?i = v_next_inode s" by (simp add: inode_defs)
    have "card (insert ?i D) \<le> card (D \<union> set inos)" using "2.prems"(3) r(2) by (intro card_mono) auto
    then have "nat (v_next_inode s - 128) + 1 < 2 ^ 32 - 128" using "2.prems"(3,5) i by simp
    then have bound: "v_next_inode s + 1 < 2 ^ 32" by simp
    note g = inode_inv_get [OF "2.prems"(1,2) bound, of p]
    have D: "insert ?i D = {128 ..< v_next_inode ?s1}" using "2.prems"(2,3) g(2) None i by auto
    have "card (insert ?i D \<union> set rest) < 2 ^ 32 - 128" using "2.prems"(5) r(2) by simp
    from "2.IH" [OF refl prod.collapse _ _ D r(1) this] g "2.prems"(2) None r(2) show ?thesis by simp
  next
    case (Some i)
    then have s: "?s1 = s" "?i = i" by (simp_all add: inode_defs)
    have "i \<in> D" using Some "2.prems"(1,3) by (auto simp: inode_inv_def)
    then have eq: "D \<union> set inos = D \<union> set rest" using r(2) s(2) by auto
    have "card (D \<union> set rest) < 2 ^ 32 - 128" using "2.prems"(5) unfolding eq .
    moreover have "inode_run ops s = (rest, s')" using r(1) s(1) by simp
    ultimately show ?thesis using "2.IH" [OF refl prod.collapse, of D rest] "2.prems"(1-3) s(1) eq by simp
  qed
next
  case (3 p ops s)
  with inode_inv_remove [of s p] show ?case by simp
next
  case (4 p q ops s)
  with inode_inv_reassign [of s p q] show ?case by simp
qed simp

section \<open>Properties\<close>

text \<open>
  C25. After any sequence of inode operations on a new file system that has handed out fewer than
  \<open>2 ^ 32 - 128\<close> different numbers, so that the counter has not wrapped, two paths never share an
  inode number, and a path that has none gets one that was never handed out before (which
  \<^verbatim>\<open>MemoryRegion::IsWriteMapped\<close> relies on).
\<close>

theorem inode_numbers_fresh:
  assumes "inode_run ops (VirtualFileSystem b mn mx cwd um uid w) = (inos, s)"
    and "card (set inos) < 2 ^ 32 - 128"
  shows "(map_of (v_inodes s) p = Some i \<and> map_of (v_inodes s) q = Some i \<longrightarrow> p = q) \<and>
    (map_of (v_inodes s) p = None \<longrightarrow> fst (GetInodeLocked p s) \<notin> set inos)"
proof -
  let ?s = "VirtualFileSystem b mn mx cwd um uid w"
  have start: "128 \<le> v_next_inode ?s" "{} = {128 ..< v_next_inode ?s}" by (simp_all add: VirtualFileSystem_def)
  have inv: "inode_inv s" "set inos = {128 ..< v_next_inode s}"
    using inode_run_inv [OF inode_inv_init start assms(1)] assms(2) by simp_all
  then have "fst (GetInodeLocked p s) \<notin> set inos" if "map_of (v_inodes s) p = None"
    using that by (auto simp: inode_defs)
  with inv(1) show ?thesis by (auto simp: inode_inv_def)
qed

theorem inode_numbers_fresh_witness:
  "fst (GetInodeLocked ''/a'' (snd (inode_run [Op_Get ''/a'', Op_Remove ''/a'']
     (VirtualFileSystem False 0 9 ''/'' 0 0 ())))) = 129"
proof -
  let ?s = "VirtualFileSystem False 0 9 ''/'' 0 0 ()"
  let ?r = "inode_run [Op_Get ''/a'', Op_Remove ''/a''] ?s"
  have r: "?r = ([128], snd ?r)" by (simp add: inode_defs VirtualFileSystem_def)
  have "map_of (v_inodes (snd ?r)) ''/a'' = None" by (simp add: inode_defs VirtualFileSystem_def)
  with inode_numbers_fresh [OF r, of "''/a''"] have "fst (GetInodeLocked ''/a'' (snd ?r)) \<noteq> 128" by simp
  then show ?thesis by (simp add: inode_defs VirtualFileSystem_def)
qed

text \<open>
  Renaming moves the inode number: after \<open>ReassignInodeLocked\<close> the new path answers with
  the number of the old one, and the old path, asked again, with a fresh number.
\<close>

theorem ReassignInodeLocked_moves:
  assumes "inode_inv s" and "map_of (v_inodes s) oldpath = Some i" and "oldpath \<noteq> newpath"
  shows "fst (GetInodeLocked newpath (ReassignInodeLocked oldpath newpath s)) = i \<and>
    fst (GetInodeLocked oldpath (ReassignInodeLocked oldpath newpath s)) = v_next_inode s \<and> i < v_next_inode s"
  using assms by (auto simp: inode_inv_def inode_defs update_conv' delete_conv')

theorem ReassignInodeLocked_moves_witness:
  "fst (GetInodeLocked ''/b'' (ReassignInodeLocked ''/a'' ''/b''
     (snd (GetInodeLocked ''/a'' (VirtualFileSystem False 0 9 ''/'' 0 0 ()))))) = 128"
proof -
  let ?s = "snd (GetInodeLocked ''/a'' (VirtualFileSystem False 0 9 ''/'' 0 0 ()))"
  have "inode_inv ?s"
    using inode_inv_get(1) [OF inode_inv_init [of False 0 9 "''/''" 0 0 "()"], of "''/a''"] by (simp add: VirtualFileSystem_def)
  moreover have "map_of (v_inodes ?s) ''/a'' = Some 128" by (simp add: inode_defs VirtualFileSystem_def)
  ultimately show ?thesis using ReassignInodeLocked_moves [of ?s "''/a''" 128 "''/b''"] by simp
qed



text \<open>A file system with one handler on the root, whose only link leads from \<open>/l\<close> to \<open>/t\<close>.\<close>

definition root_handler :: "'w vfs handler_ops" where
  "root_handler =
     \<lparr>ho_IsInitialized = (\<lambda>h s. FileSystemHandler_IsInitialized), ho_Initialize = (\<lambda>h s. s),
      ho_IsWorldWritable = (\<lambda>h p s. False), ho_OnMounted = (\<lambda>h p s. s), ho_OnUnmounted = (\<lambda>h p s. s),
      ho_InvalidateCache = (\<lambda>h s. s), ho_AddToCache = (\<lambda>h p i b s. s), ho_open = (\<lambda>h fd p f m s. (Err ENOENT, s)),
      ho_stat = (\<lambda>h p s. (Err ENOENT, s)), ho_statfs = (\<lambda>h p s. (Err ENOENT, s)),
      ho_readlink = (\<lambda>h p s. if p = ''/l'' then Some ''/t'' else FileSystemHandler_readlink),
      ho_mkdir = (\<lambda>h p m s. (FileSystemHandler_mkdir, s)), ho_remove = (\<lambda>h p s. (FileSystemHandler_remove, s)),
      ho_rename = (\<lambda>h p q s. (FileSystemHandler_rename p q, s)), ho_rmdir = (\<lambda>h p s. (FileSystemHandler_rmdir, s)),
      ho_symlink = (\<lambda>h p q s. (FileSystemHandler_symlink, s)), ho_truncate = (\<lambda>h p l s. (FileSystemHandler_truncate, s)),
      ho_unlink = (\<lambda>h p s. (FileSystemHandler_unlink, s)), ho_utimes = (\<lambda>h p t s. (FileSystemHandler_utimes, s))\<rparr>"

definition root_vfs :: "'w \<Rightarrow> 'w vfs" where
  "root_vfs w = (VirtualFileSystem False 0 9 ''/'' 0 0 w)\<lparr>v_mounts :=
     \<lparr>mount_point_map = [(''/'', \<lparr>mp_handler = 0, mp_owner_uid = kRootUid\<rparr>)], update_producer_of = UpdateProducer\<rparr>\<rparr>"

lemma root_link_target: "link_target root_handler (root_vfs w) p = Some q \<Longrightarrow> p = ''/l'' \<and> q = ''/t''"
  by (auto simp: link_target_def root_handler_def FileSystemHandler_readlink_def split: option.splits prod.splits if_splits)


text \<open>
  C16. Without symbolic links on the way, normalising an absolute path is lexical: the dots are
  dropped, every \<open>..\<close> removes the component before it (if any), and the result has no \<open>.\<close>,
  \<open>..\<close> or empty component and is a fixed point.
\<close>

theorem GetNormalizedPathLocked_lexical:
  assumes "base_strings B" and "clean_components p" and "IsAbsolutePath p" and "link_target H s = (\<lambda>_. None)"
  shows "\<exists>q. GetNormalizedPathLocked B H s option p = Some q \<and> q = abs_path (lexical [] (norm_components p)) \<and>
    ''..'' \<notin> set (norm_components q) \<and> GetNormalizedPathLocked B H s option q = Some q"
proof -
  let ?cs = "lexical [] (norm_components p)"
  have sub: "set ?cs \<subseteq> set (norm_components p)" using lexical_set [of "[]" "norm_components p"] by simp
  have c: "clean_path ?cs"
    using clean_norm_components [OF assms(2)] sub by (auto simp: clean_path_def good_components_def)
  have d: "''.'' \<notin> set ?cs" "''..'' \<notin> set ?cs"
    using sub norm_components_member lexical_no_dotdot [of "[]" "norm_components p"] by auto
  have n: "norm_components (abs_path ?cs) = ?cs" by (rule norm_components_abs_path [OF c d(1)])
  have a: "IsAbsolutePath (abs_path ?cs)" by (simp add: abs_path_def IsAbsolutePath_def)
  have "GetNormalizedPathLocked B H s option (abs_path ?cs) = Some (abs_path ?cs)"
    using normalize_absolute [OF assms(1) clean_components_abs_path [OF c] a assms(4)]
    by (simp add: n lexical_id d(2))
  with normalize_absolute [OF assms] n d show ?thesis by simp
qed

theorem GetNormalizedPathLocked_lexical_witness:
  "GetNormalizedPathLocked chromium_base (root_handler\<lparr>ho_readlink := \<lambda>h p s. FileSystemHandler_readlink\<rparr>)
     (root_vfs ()) kResolveSymlinks ''/a/./b//../../../c/'' = Some ''/c''"
proof -
  let ?H = "root_handler\<lparr>ho_readlink := \<lambda>h p s. FileSystemHandler_readlink\<rparr>"
  let ?p = "''/a/./b//../../../c/''"
  have c: "clean_components ?p" "IsAbsolutePath ?p" by code_simp+
  have n: "abs_path (lexical [] (norm_components ?p)) = ''/c''" by code_simp
  have l: "link_target ?H (root_vfs ()) = (\<lambda>_. None)"
    by (auto simp: fun_eq_iff link_target_def FileSystemHandler_readlink_def split: prod.split option.split)
  show ?thesis
    using GetNormalizedPathLocked_lexical [OF chromium.base_strings_axioms c l, of kResolveSymlinks] n by auto
qed

lemma type_and_bits:
  fixes m p :: u32
  assumes "p AND 0xF000 = 0"
  shows "(m AND 0xF000 OR p) AND 0xF000 = m AND 0xF000"
  using assms by (simp add: bit.conj_disj_distrib2 and.assoc)

text \<open>
  C40. \<open>FillPermissionInfoToStat\<close> keeps the file type, makes the owner of the mount point the
  owner of the file, keeps permission bits that are set, and gives a file or directory of an
  app with no bits set none for group and others.
\<close>

theorem FillPermissionInfoToStat_effect:
  assumes "st_mode out AND S_IFMT \<noteq> 0"
  shows "st_mode (FillPermissionInfoToStat p out) AND S_IFMT = st_mode out AND S_IFMT
    \<and> st_uid (FillPermissionInfoToStat p out) = file_uid p
    \<and> (st_mode out AND 0x1FF \<noteq> 0 \<longrightarrow> st_mode (FillPermissionInfoToStat p out) AND 0x1FF = st_mode out AND 0x1FF)
    \<and> (st_mode out AND 0x1FF = 0 \<and> IsAppUid (file_uid p) \<longrightarrow> st_mode (FillPermissionInfoToStat p out) AND 0x3F = 0)"
proof -
  have z: "(st_mode out AND 0xF000) AND 0x1FF = 0" "(st_mode out AND 0xF000) AND 0x3F = 0"
    "(st_mode out AND 0x1FF) AND 0xF000 = 0"
    by (simp_all add: and.assoc)
  have t: "(st_mode out AND 0xF000 OR q) AND 0xF000 = st_mode out AND 0xF000" if "q AND 0xF000 = 0" for q
    by (rule type_and_bits [OF that])
  show ?thesis
    using assms z t
    by (simp add: FillPermissionInfoToStat_def Let_def S_IFMT_def S_IFDIR_def kDefaultUserDirPermission_def
        kDefaultUserFilePermission_def kDefaultSystemDirPermission_def kDefaultSystemFilePermission_def
        bit.conj_disj_distrib2 and.assoc)
qed

theorem FillPermissionInfoToStat_effect_witness:
  "st_mode (FillPermissionInfoToStat \<lparr>file_uid = 10000, is_writable = True\<rparr>
     \<lparr>st_ino = 1, st_mode = S_IFDIR, st_uid = 0, st_gid = 0, st_nlink = 1, st_size = 0, st_blksize = 0, st_mtime = 0\<rparr>) AND 0x3F = 0"
proof -
  let ?o = "\<lparr>st_ino = 1, st_mode = S_IFDIR, st_uid = 0, st_gid = 0, st_nlink = 1, st_size = 0, st_blksize = 0, st_mtime = 0\<rparr>"
  have "st_mode ?o AND S_IFMT \<noteq> 0" by (simp add: S_IFMT_def S_IFDIR_def)
  moreover have "st_mode ?o AND 0x1FF = 0" by (simp add: S_IFDIR_def)
  moreover have "IsAppUid (10000 :: u32)" by (simp add: IsAppUid_def kFirstAppUid_def)
  ultimately show ?thesis
    using FillPermissionInfoToStat_effect [of ?o "\<lparr>file_uid = 10000, is_writable = True\<rparr>"] by simp
qed

end
