(* ===== verification/Vfs_Fds.thy ===== *)
theory Vfs_Fds
  imports Vfs_State
begin

text \<open>
  The descriptor calls of the virtual file system
  (\<^verbatim>\<open>src/src/posix_translation/virtual_file_system.cc\<close>): look up the stream bound to a
  descriptor and call its virtual function. Streams are objects of many classes, so their
  virtual functions are the fields of a record; they act on the whole state, because they may
  block (releasing the lock) or call the file system back.
\<close>

section \<open>The interface of streams\<close>

type_synonym sockaddr = "byte list option"

text \<open>
  A message header: the buffers of its vector, and the control messages that the
  \<^verbatim>\<open>CMSG\<close> macros step through in its control buffer, which has \<open>msg_controllen\<close> bytes.
\<close>

record cmsghdr =
  cmsg_len :: nat
  cmsg_level :: int
  cmsg_type :: int
  cmsg_data :: "byte list"

record msghdr =
  msg_name :: sockaddr
  msg_iov :: "byte list list"
  msg_control :: "cmsghdr list"
  msg_controllen :: nat
  msg_flags :: u32

datatype local_direction = READ_WRITE | READ_ONLY | WRITE_ONLY

text \<open>The stream classes that the file system itself creates, with their constructor arguments.\<close>

datatype stream_class =
    New_PassthroughStream
  | New_EPollStream int u32
  | New_UDPSocket int int u32
  | New_TCPSocket int int u32
  | New_LocalSocket u32 int local_direction

record 's stream_ops =
  so_new :: "stream_class \<Rightarrow> 's \<Rightarrow> sid \<times> 's"
  so_set_peer :: "sid \<Rightarrow> sid \<Rightarrow> 's \<Rightarrow> 's"
  so_read :: "sid \<Rightarrow> nat \<Rightarrow> 's \<Rightarrow> byte list outcome \<times> 's"
  so_write :: "sid \<Rightarrow> byte list \<Rightarrow> 's \<Rightarrow> nat outcome \<times> 's"
  so_debug_write :: "sid \<Rightarrow> byte list \<Rightarrow> 's \<Rightarrow> 's"
  so_readv :: "sid \<Rightarrow> nat list \<Rightarrow> int \<Rightarrow> 's \<Rightarrow> (nat \<times> byte list list) outcome \<times> 's"
  so_writev :: "sid \<Rightarrow> byte list list \<Rightarrow> int \<Rightarrow> 's \<Rightarrow> nat outcome \<times> 's"
  so_pread :: "sid \<Rightarrow> nat \<Rightarrow> int \<Rightarrow> 's \<Rightarrow> byte list outcome \<times> 's"
  so_pwrite :: "sid \<Rightarrow> byte list \<Rightarrow> int \<Rightarrow> 's \<Rightarrow> nat outcome \<times> 's"
  so_lseek :: "sid \<Rightarrow> int \<Rightarrow> whence \<Rightarrow> 's \<Rightarrow> int outcome \<times> 's"
  so_fstat :: "sid \<Rightarrow> 's \<Rightarrow> stat_buf outcome \<times> 's"
  so_fstatfs :: "sid \<Rightarrow> 's \<Rightarrow> statfs_buf outcome \<times> 's"
  so_ftruncate :: "sid \<Rightarrow> int \<Rightarrow> 's \<Rightarrow> int outcome \<times> 's"
  so_getdents :: "sid \<Rightarrow> nat \<Rightarrow> 's \<Rightarrow> byte list outcome \<times> 's"
  so_fcntl :: "sid \<Rightarrow> fcntl_cmd \<Rightarrow> 's \<Rightarrow> (u32 \<times> bool) outcome \<times> 's"
  so_fdatasync :: "sid \<Rightarrow> 's \<Rightarrow> int outcome \<times> 's"
  so_fsync :: "sid \<Rightarrow> 's \<Rightarrow> int outcome \<times> 's"
  so_ioctl :: "sid \<Rightarrow> u32 \<Rightarrow> byte list \<Rightarrow> 's \<Rightarrow> (int \<times> byte list) outcome \<times> 's"
  so_mmap :: "sid \<Rightarrow> u32 \<Rightarrow> u32 \<Rightarrow> u32 \<Rightarrow> u32 \<Rightarrow> int \<Rightarrow> 's \<Rightarrow> u32 outcome \<times> 's"
  so_epoll_ctl :: "sid \<Rightarrow> int \<Rightarrow> sid \<Rightarrow> epoll_event \<Rightarrow> 's \<Rightarrow> int outcome \<times> 's"
  so_epoll_wait :: "sid \<Rightarrow> int \<Rightarrow> int \<Rightarrow> 's \<Rightarrow> epoll_event list outcome \<times> 's"
  so_GetPollEvents :: "sid \<Rightarrow> 's \<Rightarrow> 16 word"
  so_IsSelectReadReady :: "sid \<Rightarrow> 's \<Rightarrow> bool"
  so_IsSelectWriteReady :: "sid \<Rightarrow> 's \<Rightarrow> bool"
  so_IsSelectExceptionReady :: "sid \<Rightarrow> 's \<Rightarrow> bool"
  so_connect :: "sid \<Rightarrow> sockaddr \<Rightarrow> int \<Rightarrow> 's \<Rightarrow> int outcome \<times> 's"
  so_bind :: "sid \<Rightarrow> sockaddr \<Rightarrow> int \<Rightarrow> 's \<Rightarrow> int outcome \<times> 's"
  so_listen :: "sid \<Rightarrow> int \<Rightarrow> 's \<Rightarrow> int outcome \<times> 's"
  so_accept :: "sid \<Rightarrow> int option \<Rightarrow> 's \<Rightarrow> (int \<times> sockaddr) outcome \<times> 's"
  so_getpeername :: "sid \<Rightarrow> int option \<Rightarrow> 's \<Rightarrow> sockaddr outcome \<times> 's"
  so_getsockname :: "sid \<Rightarrow> int option \<Rightarrow> 's \<Rightarrow> sockaddr outcome \<times> 's"
  so_send :: "sid \<Rightarrow> byte list \<Rightarrow> u32 \<Rightarrow> 's \<Rightarrow> nat outcome \<times> 's"
  so_sendto :: "sid \<Rightarrow> byte list \<Rightarrow> u32 \<Rightarrow> sockaddr \<Rightarrow> int \<Rightarrow> 's \<Rightarrow> nat outcome \<times> 's"
  so_sendmsg :: "sid \<Rightarrow> msghdr \<Rightarrow> u32 \<Rightarrow> 's \<Rightarrow> int outcome \<times> 's"
  so_recv :: "sid \<Rightarrow> nat \<Rightarrow> u32 \<Rightarrow> 's \<Rightarrow> byte list outcome \<times> 's"
  so_recvfrom :: "sid \<Rightarrow> nat \<Rightarrow> u32 \<Rightarrow> int option \<Rightarrow> 's \<Rightarrow> (byte list \<times> sockaddr) outcome \<times> 's"
  so_recvmsg :: "sid \<Rightarrow> msghdr \<Rightarrow> u32 \<Rightarrow> 's \<Rightarrow> (int \<times> msghdr) outcome \<times> 's"
  so_getsockopt :: "sid \<Rightarrow> int \<Rightarrow> int \<Rightarrow> int option \<Rightarrow> 's \<Rightarrow> byte list outcome \<times> 's"
  so_setsockopt :: "sid \<Rightarrow> int \<Rightarrow> int \<Rightarrow> byte list option \<Rightarrow> int \<Rightarrow> 's \<Rightarrow> int outcome \<times> 's"

type_synonym ('r, 'w) vfs_call = "'w vfs \<Rightarrow> 'r outcome \<times> 'w vfs"

text \<open>The common shape: the bound stream answers, and without one the call fails with \<^verbatim>\<open>EBADF\<close>.\<close>

definition with_stream ::
  "int \<Rightarrow> (sid \<Rightarrow> ('r, 'w) vfs_call) \<Rightarrow> ('r, 'w) vfs_call" where
  "with_stream fd call s =
     (case GetStream fd (v_fds s) of None \<Rightarrow> (Err EBADF, s) | Some stream \<Rightarrow> call stream s)"

section \<open>Calls on a descriptor\<close>

definition vfs_read :: "'w vfs stream_ops \<Rightarrow> int \<Rightarrow> nat \<Rightarrow> (byte list, 'w) vfs_call" where
  "vfs_read so fd count = with_stream fd (\<lambda>st. so_read so st count)"

definition vfs_write :: "'w vfs stream_ops \<Rightarrow> int \<Rightarrow> byte list \<Rightarrow> (nat, 'w) vfs_call" where
  "vfs_write so fd buf = with_stream fd (\<lambda>st. so_write so st buf)"

definition vfs_readv :: "'w vfs stream_ops \<Rightarrow> int \<Rightarrow> nat list \<Rightarrow> int \<Rightarrow> (nat \<times> byte list list, 'w) vfs_call" where
  "vfs_readv so fd iov count = with_stream fd (\<lambda>st. so_readv so st iov count)"

definition vfs_writev :: "'w vfs stream_ops \<Rightarrow> int \<Rightarrow> byte list list \<Rightarrow> int \<Rightarrow> (nat, 'w) vfs_call" where
  "vfs_writev so fd iov count = with_stream fd (\<lambda>st. so_writev so st iov count)"

definition vfs_pread :: "'w vfs stream_ops \<Rightarrow> int \<Rightarrow> nat \<Rightarrow> int \<Rightarrow> (byte list, 'w) vfs_call" where
  "vfs_pread so fd count offset = with_stream fd (\<lambda>st. so_pread so st count offset)"

definition vfs_pwrite :: "'w vfs stream_ops \<Rightarrow> int \<Rightarrow> byte list \<Rightarrow> int \<Rightarrow> (nat, 'w) vfs_call" where
  "vfs_pwrite so fd buf offset = with_stream fd (\<lambda>st. so_pwrite so st buf offset)"

definition vfs_lseek :: "'w vfs stream_ops \<Rightarrow> int \<Rightarrow> int \<Rightarrow> whence \<Rightarrow> (int, 'w) vfs_call" where
  "vfs_lseek so fd offset whence = with_stream fd (\<lambda>st. so_lseek so st offset whence)"

definition vfs_fstat ::
  "'a world_scheme vfs stream_ops \<Rightarrow> int \<Rightarrow> 'a world_scheme vfs \<Rightarrow> stat_buf outcome \<times> 'a world_scheme vfs" where
  "vfs_fstat so fd = with_stream fd (\<lambda>st s.
     case so_fstat so st s of
       (Ret out, s') \<Rightarrow> (Ret (FillPermissionInfoToStat (fs_permission (w_streams (v_world s') st)) out), s')
     | r \<Rightarrow> r)"

definition vfs_fstatfs :: "'w vfs stream_ops \<Rightarrow> int \<Rightarrow> (statfs_buf, 'w) vfs_call" where
  "vfs_fstatfs so fd = with_stream fd (\<lambda>st. so_fstatfs so st)"

text \<open>A negative length is rejected before the descriptor is looked at.\<close>

definition vfs_ftruncate :: "'w vfs stream_ops \<Rightarrow> int \<Rightarrow> int \<Rightarrow> (int, 'w) vfs_call" where
  "vfs_ftruncate so fd len s =
     (if len < 0 then (Err EINVAL, s) else with_stream fd (\<lambda>st. so_ftruncate so st len) s)"

definition vfs_getdents :: "'w vfs stream_ops \<Rightarrow> int \<Rightarrow> nat \<Rightarrow> (byte list, 'w) vfs_call" where
  "vfs_getdents so fd count = with_stream fd (\<lambda>st. so_getdents so st count)"

text \<open>\<^verbatim>\<open>fcntl\<close> on a descriptor that is reserved but not bound yet succeeds and does nothing.\<close>

definition vfs_fcntl :: "'w vfs stream_ops \<Rightarrow> int \<Rightarrow> fcntl_cmd \<Rightarrow> (u32 \<times> bool, 'w) vfs_call" where
  "vfs_fcntl so fd cmd s =
     (case GetStream fd (v_fds s) of
        Some st \<Rightarrow> so_fcntl so st cmd s
      | None \<Rightarrow> if IsKnownDescriptor fd (v_fds s) then (Ret (0, False), s) else (Err EBADF, s))"

definition vfs_fdatasync :: "'w vfs stream_ops \<Rightarrow> int \<Rightarrow> (int, 'w) vfs_call" where
  "vfs_fdatasync so fd = with_stream fd (\<lambda>st. so_fdatasync so st)"

definition vfs_fsync :: "'w vfs stream_ops \<Rightarrow> int \<Rightarrow> (int, 'w) vfs_call" where
  "vfs_fsync so fd = with_stream fd (\<lambda>st. so_fsync so st)"

definition vfs_ioctl :: "'w vfs stream_ops \<Rightarrow> int \<Rightarrow> u32 \<Rightarrow> byte list \<Rightarrow> (int \<times> byte list, 'w) vfs_call" where
  "vfs_ioctl so fd request arg = with_stream fd (\<lambda>st. so_ioctl so st request arg)"

definition vfs_epoll_ctl :: "'w vfs stream_ops \<Rightarrow> int \<Rightarrow> int \<Rightarrow> int \<Rightarrow> epoll_event \<Rightarrow> (int, 'w) vfs_call" where
  "vfs_epoll_ctl so epfd op fd event s =
     (case (GetStream epfd (v_fds s), GetStream fd (v_fds s)) of
        (Some epoll_stream, Some target_stream) \<Rightarrow>
          if epfd = fd then (Err EINVAL, s) else so_epoll_ctl so epoll_stream op target_stream event s
      | _ \<Rightarrow> (Err EBADF, s))"

definition vfs_epoll_wait :: "'w vfs stream_ops \<Rightarrow> int \<Rightarrow> int \<Rightarrow> int \<Rightarrow> (epoll_event list, 'w) vfs_call" where
  "vfs_epoll_wait so epfd maxevents timeout = with_stream epfd (\<lambda>st. so_epoll_wait so st maxevents timeout)"

text \<open>Shutting a connection down is accepted and ignored.\<close>

definition vfs_shutdown :: "int \<Rightarrow> int \<Rightarrow> 'w vfs \<Rightarrow> int outcome \<times> 'w vfs" where
  "vfs_shutdown fd how = with_stream fd (\<lambda>st s. (Ret 0, s))"

definition vfs_connect :: "'w vfs stream_ops \<Rightarrow> int \<Rightarrow> sockaddr \<Rightarrow> int \<Rightarrow> (int, 'w) vfs_call" where
  "vfs_connect so fd addr addrlen = with_stream fd (\<lambda>st. so_connect so st addr addrlen)"

definition vfs_bind :: "'w vfs stream_ops \<Rightarrow> int \<Rightarrow> sockaddr \<Rightarrow> int \<Rightarrow> (int, 'w) vfs_call" where
  "vfs_bind so fd addr addrlen = with_stream fd (\<lambda>st. so_bind so st addr addrlen)"

definition vfs_listen :: "'w vfs stream_ops \<Rightarrow> int \<Rightarrow> int \<Rightarrow> (int, 'w) vfs_call" where
  "vfs_listen so fd backlog = with_stream fd (\<lambda>st. so_listen so st backlog)"

definition vfs_accept :: "'w vfs stream_ops \<Rightarrow> int \<Rightarrow> int option \<Rightarrow> (int \<times> sockaddr, 'w) vfs_call" where
  "vfs_accept so fd addrlen = with_stream fd (\<lambda>st. so_accept so st addrlen)"

definition vfs_getpeername :: "'w vfs stream_ops \<Rightarrow> int \<Rightarrow> int option \<Rightarrow> (sockaddr, 'w) vfs_call" where
  "vfs_getpeername so fd namelen = with_stream fd (\<lambda>st. so_getpeername so st namelen)"

definition vfs_getsockname :: "'w vfs stream_ops \<Rightarrow> int \<Rightarrow> int option \<Rightarrow> (sockaddr, 'w) vfs_call" where
  "vfs_getsockname so fd namelen = with_stream fd (\<lambda>st. so_getsockname so st namelen)"

definition vfs_send :: "'w vfs stream_ops \<Rightarrow> int \<Rightarrow> byte list \<Rightarrow> u32 \<Rightarrow> (nat, 'w) vfs_call" where
  "vfs_send so fd buf flags = with_stream fd (\<lambda>st. so_send so st buf flags)"

definition vfs_sendto :: "'w vfs stream_ops \<Rightarrow> int \<Rightarrow> byte list \<Rightarrow> u32 \<Rightarrow> sockaddr \<Rightarrow> int \<Rightarrow> (nat, 'w) vfs_call" where
  "vfs_sendto so fd buf flags addr addrlen = with_stream fd (\<lambda>st. so_sendto so st buf flags addr addrlen)"

definition vfs_sendmsg :: "'w vfs stream_ops \<Rightarrow> int \<Rightarrow> msghdr \<Rightarrow> u32 \<Rightarrow> (int, 'w) vfs_call" where
  "vfs_sendmsg so fd msg flags = with_stream fd (\<lambda>st. so_sendmsg so st msg flags)"

definition vfs_recv :: "'w vfs stream_ops \<Rightarrow> int \<Rightarrow> nat \<Rightarrow> u32 \<Rightarrow> (byte list, 'w) vfs_call" where
  "vfs_recv so fd len flags = with_stream fd (\<lambda>st. so_recv so st len flags)"

definition vfs_recvfrom :: "'w vfs stream_ops \<Rightarrow> int \<Rightarrow> nat \<Rightarrow> u32 \<Rightarrow> int option \<Rightarrow> (byte list \<times> sockaddr, 'w) vfs_call" where
  "vfs_recvfrom so fd len flags addrlen = with_stream fd (\<lambda>st. so_recvfrom so st len flags addrlen)"

definition vfs_recvmsg :: "'w vfs stream_ops \<Rightarrow> int \<Rightarrow> msghdr \<Rightarrow> u32 \<Rightarrow> (int \<times> msghdr, 'w) vfs_call" where
  "vfs_recvmsg so fd msg flags = with_stream fd (\<lambda>st. so_recvmsg so st msg flags)"

definition vfs_getsockopt :: "'w vfs stream_ops \<Rightarrow> int \<Rightarrow> int \<Rightarrow> int \<Rightarrow> int option \<Rightarrow> (byte list, 'w) vfs_call" where
  "vfs_getsockopt so fd level optname optlen = with_stream fd (\<lambda>st. so_getsockopt so st level optname optlen)"

definition vfs_setsockopt :: "'w vfs stream_ops \<Rightarrow> int \<Rightarrow> int \<Rightarrow> int \<Rightarrow> byte list option \<Rightarrow> int \<Rightarrow> (int, 'w) vfs_call" where
  "vfs_setsockopt so fd level optname optval optlen =
     with_stream fd (\<lambda>st. so_setsockopt so st level optname optval optlen)"

section \<open>Making and closing descriptors\<close>

definition add_file_stream :: "int \<Rightarrow> sid option \<Rightarrow> 'a world_scheme vfs \<Rightarrow> 'a world_scheme vfs" where
  "add_file_stream fd stream s =
     (let (m, w) = AddFileStream fd stream (v_fds s, v_world s) in s\<lparr>v_fds := m, v_world := w\<rparr>)"

definition remove_file_stream ::
  "'a world_scheme vtable \<Rightarrow> int \<Rightarrow> 'a world_scheme vfs \<Rightarrow> 'a world_scheme vfs outcome" where
  "remove_file_stream vt fd s =
     (case RemoveFileStream vt fd (v_fds s, v_world s) of
        Ret (m, w) \<Rightarrow> Ret (s\<lparr>v_fds := m, v_world := w\<rparr>)
      | Err e \<Rightarrow> Err e
      | Fatal \<Rightarrow> Fatal)"

definition GetFirstUnusedDescriptorLocked :: "'a world_scheme vfs \<Rightarrow> int \<times> 'a world_scheme vfs" where
  "GetFirstUnusedDescriptorLocked s =
     (let (fd, m, w) = GetFirstUnusedDescriptor (v_fds s, v_world s) in (fd, s\<lparr>v_fds := m, v_world := w\<rparr>))"

definition set_permission :: "permission_info \<Rightarrow> sid \<Rightarrow> 'a world_scheme vfs \<Rightarrow> 'a world_scheme vfs" where
  "set_permission p st s = s\<lparr>v_world := upd_stream st (\<lambda>f. f\<lparr>fs_permission := p\<rparr>) (v_world s)\<rparr>"

definition AddFileStreamLocked :: "sid \<Rightarrow> 'a world_scheme vfs \<Rightarrow> int \<times> 'a world_scheme vfs" where
  "AddFileStreamLocked stream s =
     (let (fd, s1) = GetFirstUnusedDescriptorLocked s in
      (fd, if 0 \<le> fd then add_file_stream fd (Some stream) s1 else s1))"

definition RegisterFileStream :: "int \<Rightarrow> sid \<Rightarrow> 'a world_scheme vfs \<Rightarrow> bool \<times> 'a world_scheme vfs" where
  "RegisterFileStream fd stream s =
     (if IsKnownDescriptor fd (v_fds s) then (False, s) else (True, add_file_stream fd (Some stream) s))"

definition vfs_IsKnownDescriptor :: "int \<Rightarrow> 'w vfs \<Rightarrow> bool" where
  "vfs_IsKnownDescriptor fd s = IsKnownDescriptor fd (v_fds s)"

text \<open>Removing a known descriptor cannot abort, so the abort branch leaves the state alone.\<close>

definition CloseLocked :: "'a world_scheme vtable \<Rightarrow> int \<Rightarrow> 'a world_scheme vfs \<Rightarrow> bool \<times> 'a world_scheme vfs" where
  "CloseLocked vt fd s =
     (case GetStream fd (v_fds s) of
        None \<Rightarrow> (False, s)
      | Some stream \<Rightarrow>
          (case remove_file_stream vt fd s of Ret s' \<Rightarrow> (True, s') | _ \<Rightarrow> (True, s)))"

definition vfs_close :: "'a world_scheme vtable \<Rightarrow> int \<Rightarrow> 'a world_scheme vfs \<Rightarrow> int outcome \<times> 'a world_scheme vfs" where
  "vfs_close vt fd s = (case CloseLocked vt fd s of (True, s') \<Rightarrow> (Ret 0, s') | (False, s') \<Rightarrow> (Err EBADF, s'))"

definition DupLocked :: "'a world_scheme vtable \<Rightarrow> int \<Rightarrow> int \<Rightarrow> 'a world_scheme vfs \<Rightarrow> int outcome \<times> 'a world_scheme vfs" where
  "DupLocked vt fd newfd s =
     (case GetStream fd (v_fds s) of
        None \<Rightarrow> (Err EBADF, s)
      | Some stream \<Rightarrow>
          let (newfd', s1) = (if newfd < 0 then GetFirstUnusedDescriptorLocked s else (newfd, s)) in
          if newfd' < 0 then (Err EMFILE, s1)
          else if fd = newfd' then (Ret newfd', s1)
          else (Ret newfd', add_file_stream newfd' (Some stream) (snd (CloseLocked vt newfd' s1))))"

definition vfs_dup ::
  "'a world_scheme vtable \<Rightarrow> int \<Rightarrow> (int, 'a world_scheme) vfs_call" where
  "vfs_dup vt fd = DupLocked vt fd (- 1)"

definition vfs_dup2 ::
  "'a world_scheme vtable \<Rightarrow> int \<Rightarrow> int \<Rightarrow> (int, 'a world_scheme) vfs_call" where
  "vfs_dup2 vt fd newfd = DupLocked vt fd newfd"

definition GetStreamLocked :: "int \<Rightarrow> 'w vfs \<Rightarrow> sid option" where
  "GetStreamLocked fd s = GetStream fd (v_fds s)"

definition GetMinFd :: "'w vfs \<Rightarrow> int" where "GetMinFd s = fm_min_file_id (v_fds s)"
definition GetMaxFd :: "'w vfs \<Rightarrow> int" where "GetMaxFd s = fm_max_file_id (v_fds s)"

definition epoll_create1 ::
  "'a world_scheme vfs stream_ops \<Rightarrow> u32 \<Rightarrow> (int, 'a world_scheme) vfs_call" where
  "epoll_create1 so flags s =
     (let (fd, s1) = GetFirstUnusedDescriptorLocked s in
      if fd < 0 then (Err EMFILE, s1)
      else let (stream, s2) = so_new so (New_EPollStream fd flags) s1 in
           (Ret fd, add_file_stream fd (Some stream) s2))"

definition AF_UNIX :: int where "AF_UNIX = 1"
definition AF_INET :: int where "AF_INET = 2"
definition AF_INET6 :: int where "AF_INET6 = 10"
definition SOCK_STREAM :: int where "SOCK_STREAM = 1"
definition SOCK_DGRAM :: int where "SOCK_DGRAM = 2"
definition SOCK_SEQPACKET :: int where "SOCK_SEQPACKET = 5"

lemmas socket_consts = AF_UNIX_def AF_INET_def AF_INET6_def SOCK_STREAM_def SOCK_DGRAM_def SOCK_SEQPACKET_def

definition vfs_socket ::
  "'a world_scheme vfs stream_ops \<Rightarrow> 'a world_scheme vtable \<Rightarrow> int \<Rightarrow> int \<Rightarrow> int \<Rightarrow> (int, 'a world_scheme) vfs_call" where
  "vfs_socket so vt socket_family socket_type protocol s =
     (let (fd, s1) = GetFirstUnusedDescriptorLocked s in
      if fd < 0 then (Err EMFILE, s1)
      else
        let is_inet = (socket_family = AF_INET \<or> socket_family = AF_INET6);
            cls = (if is_inet \<and> socket_type = SOCK_DGRAM then Some (New_UDPSocket fd socket_family 0)
                   else if is_inet \<and> socket_type = SOCK_STREAM then Some (New_TCPSocket fd socket_family O_RDWR)
                   else if socket_family = AF_UNIX \<and> socket_type = SOCK_STREAM
                   then Some (New_LocalSocket O_RDWR socket_type READ_WRITE)
                   else if socket_family = AF_UNIX \<and> socket_type = SOCK_SEQPACKET
                   then Some (New_LocalSocket O_RDWR socket_type READ_WRITE)
                   else if socket_family = AF_UNIX \<and> socket_type = SOCK_DGRAM
                   then Some (New_LocalSocket O_RDWR socket_type READ_WRITE)
                   else None)
        in case cls of
             Some c \<Rightarrow> let (socket, s2) = so_new so c s1 in (Ret fd, add_file_stream fd (Some socket) s2)
           | None \<Rightarrow> (case remove_file_stream vt fd s1 of Ret s2 \<Rightarrow> (Err EAFNOSUPPORT, s2) | _ \<Rightarrow> (Fatal, s1)))"

text \<open>The part that \<^verbatim>\<open>socketpair\<close> and \<^verbatim>\<open>pipe2\<close> share: two descriptors bound to connected sockets.\<close>

definition connected_pair ::
  "'a world_scheme vfs stream_ops \<Rightarrow> 'a world_scheme vtable \<Rightarrow> stream_class \<Rightarrow> stream_class \<Rightarrow> (int \<times> int, 'a world_scheme) vfs_call" where
  "connected_pair so vt c1 c2 s =
     (let (fd1, s1) = GetFirstUnusedDescriptorLocked s in
      if fd1 < 0 then (Err EMFILE, s1)
      else
        let (fd2, s2) = GetFirstUnusedDescriptorLocked s1 in
        if fd2 < 0 then (case remove_file_stream vt fd1 s2 of Ret s3 \<Rightarrow> (Err EMFILE, s3) | _ \<Rightarrow> (Fatal, s2))
        else
          let (sock1, s3) = so_new so c1 s2;
              (sock2, s4) = so_new so c2 s3;
              s5 = so_set_peer so sock2 sock1 (so_set_peer so sock1 sock2 s4)
          in (Ret (fd1, fd2), add_file_stream fd2 (Some sock2) (add_file_stream fd1 (Some sock1) s5)))"

definition vfs_socketpair ::
  "'a world_scheme vfs stream_ops \<Rightarrow> 'a world_scheme vtable \<Rightarrow> int \<Rightarrow> int \<Rightarrow> int \<Rightarrow> bool \<Rightarrow> (int \<times> int, 'a world_scheme) vfs_call" where
  "vfs_socketpair so vt socket_family socket_type protocol sv_given s =
     (if socket_family \<noteq> AF_UNIX then (Err EAFNOSUPPORT, s)
      else if protocol \<noteq> 0 then (Err EOPNOTSUPP, s)
      else if socket_type \<noteq> SOCK_SEQPACKET \<and> socket_type \<noteq> SOCK_STREAM \<and> socket_type \<noteq> SOCK_DGRAM
      then (Err EOPNOTSUPP, s)
      else if \<not> sv_given then (Err EFAULT, s)
      else connected_pair so vt (New_LocalSocket 0 socket_type READ_WRITE) (New_LocalSocket 0 socket_type READ_WRITE) s)"

definition vfs_pipe2 ::
  "'a world_scheme vfs stream_ops \<Rightarrow> 'a world_scheme vtable \<Rightarrow> u32 \<Rightarrow> (int \<times> int, 'a world_scheme) vfs_call" where
  "vfs_pipe2 so vt flags s =
     connected_pair so vt (New_LocalSocket flags SOCK_STREAM READ_ONLY) (New_LocalSocket flags SOCK_STREAM WRITE_ONLY) s"

section \<open>Waiting for readiness\<close>

record pollfd =
  pfd_fd :: int
  pfd_events :: "16 word"
  pfd_revents :: "16 word"

definition poll_events :: "'w vfs stream_ops \<Rightarrow> 'w vfs \<Rightarrow> pollfd \<Rightarrow> 16 word" where
  "poll_events so s p =
     (let events_mask = pfd_events p OR POLLHUP OR POLLERR OR POLLNVAL in
      (case GetStream (pfd_fd p) (v_fds s) of Some st \<Rightarrow> so_GetPollEvents so st s | None \<Rightarrow> POLLNVAL)
        AND events_mask)"

fun IsPollReadyLocked :: "'w vfs stream_ops \<Rightarrow> pollfd list \<Rightarrow> bool \<Rightarrow> 'w vfs \<Rightarrow> int \<times> pollfd list" where
  "IsPollReadyLocked so [] apply s = (0, [])"
| "IsPollReadyLocked so (p # fds) apply s =
     (let events = poll_events so s p;
          (result, fds') = IsPollReadyLocked so fds apply s
      in ((if events \<noteq> 0 then result + 1 else result),
          (if apply then p\<lparr>pfd_revents := events\<rparr> else p) # fds'))"

text \<open>
  The waiting loops. Other threads act while the lock is released, so the history of the wait
  is an argument: for each round the clock before and after the wait and the state found then
  (the same state as before when the limit had passed already and the call does not wait).
  \<open>None\<close> means that the call is still waiting at the end of the history.
\<close>

type_synonym 's wakeup = "int \<times> int \<times> 's"

fun wait_loop :: "('s \<Rightarrow> bool) \<Rightarrow> int \<Rightarrow> 's \<Rightarrow> 's wakeup list \<Rightarrow> 's option" where
  "wait_loop ready time_limit s wakeups =
     (if ready s then Some s
      else case wakeups of
             [] \<Rightarrow> None
           | (start_time, end_time, s') # rest \<Rightarrow>
               let waited = fst (WaitUntilInternal time_limit start_time end_time);
                   s1 = (if waited then s' else s)
               in if WaitUntil time_limit start_time end_time then Some s1
                  else wait_loop ready time_limit s1 rest)"

declare wait_loop.simps [simp del]

text \<open>\<open>now\<close> is the clock at the start of the call, and a \<^verbatim>\<open>TimeDelta\<close> counts microseconds.\<close>

definition vfs_poll ::
  "'w vfs stream_ops \<Rightarrow> int \<Rightarrow> pollfd list \<Rightarrow> int \<Rightarrow> 'w vfs \<Rightarrow> 'w vfs wakeup list \<Rightarrow> ((int \<times> pollfd list) \<times> 'w vfs) option" where
  "vfs_poll so now fds timeout s wakeups =
     map_option (\<lambda>s'. (IsPollReadyLocked so fds True s', s'))
       (if timeout \<noteq> 0
        then wait_loop (\<lambda>s. fst (IsPollReadyLocked so fds False s) \<noteq> 0)
               (TimeOutToTimeLimit now (max 0 timeout * 1000)) s wakeups
        else Some s)"

datatype select_event = SELECT_READY_READ | SELECT_READY_WRITE | SELECT_READY_EXCEPTION

type_synonym fd_set = "int list"

definition select_ready :: "'w vfs stream_ops \<Rightarrow> select_event \<Rightarrow> sid \<Rightarrow> 'w vfs \<Rightarrow> bool" where
  "select_ready so event st s =
     (case event of
        SELECT_READY_READ \<Rightarrow> so_IsSelectReadReady so st s
      | SELECT_READY_WRITE \<Rightarrow> so_IsSelectWriteReady so st s
      | SELECT_READY_EXCEPTION \<Rightarrow> so_IsSelectExceptionReady so st s)"

fun select_scan ::
  "'w vfs stream_ops \<Rightarrow> select_event \<Rightarrow> bool \<Rightarrow> 'w vfs \<Rightarrow> int list \<Rightarrow> int \<times> fd_set \<Rightarrow> int \<times> fd_set" where
  "select_scan so event apply s [] (nset, fds) = (nset, fds)"
| "select_scan so event apply s (i # rest) (nset, fds) =
     (if i \<notin> set fds then select_scan so event apply s rest (nset, fds)
      else case GetStream i (v_fds s) of
             None \<Rightarrow> select_scan so event apply s rest (nset, fds)
           | Some st \<Rightarrow>
               if select_ready so event st s
               then (if \<not> apply then (1, fds) else select_scan so event apply s rest (nset + 1, fds))
               else select_scan so event apply s rest (nset, if apply then removeAll i fds else fds))"

definition IsSelectReadyLocked ::
  "'w vfs stream_ops \<Rightarrow> int \<Rightarrow> fd_set option \<Rightarrow> select_event \<Rightarrow> bool \<Rightarrow> 'w vfs \<Rightarrow> int \<times> fd_set option" where
  "IsSelectReadyLocked so nfds fds event apply s =
     (case fds of
        None \<Rightarrow> (0, None)
      | Some f \<Rightarrow> let (nset, f') = select_scan so event apply s [0 .. nfds - 1] (0, f) in (nset, Some f'))"

record select_result =
  sel_count :: "int outcome"
  sel_readfds :: "fd_set option"
  sel_writefds :: "fd_set option"
  sel_exceptfds :: "fd_set option"
  sel_timeout :: "timeval option"

text \<open>\<open>now\<close> and \<open>end_time\<close> are the clock when the limit is computed and after the wait.\<close>

definition vfs_select ::
  "'w vfs stream_ops \<Rightarrow> int \<Rightarrow> int \<Rightarrow> int \<Rightarrow> fd_set option \<Rightarrow> fd_set option \<Rightarrow> fd_set option \<Rightarrow> timeval option \<Rightarrow>
     'w vfs \<Rightarrow> 'w vfs wakeup list \<Rightarrow> (select_result \<times> 'w vfs) option" where
  "vfs_select so now end_time nfds readfds writefds exceptfds timeout s wakeups =
     (let is_polling = (case timeout of Some t \<Rightarrow> tv_sec t = 0 \<and> tv_usec t = 0 | None \<Rightarrow> False);
          time_limit = (case timeout of Some t \<Rightarrow> TimeOutToTimeLimit now (TimeValToTimeDelta t) | None \<Rightarrow> 0);
          ready = (\<lambda>s. fst (IsSelectReadyLocked so nfds readfds SELECT_READY_READ False s) \<noteq> 0 \<or>
                       fst (IsSelectReadyLocked so nfds writefds SELECT_READY_WRITE False s) \<noteq> 0 \<or>
                       fst (IsSelectReadyLocked so nfds exceptfds SELECT_READY_EXCEPTION False s) \<noteq> 0)
      in map_option (\<lambda>s'.
           let timeout' = (if is_polling then timeout
                           else map_option (\<lambda>_. TimeDeltaToTimeVal
                                  (if time_limit \<le> end_time then 0 else time_limit - end_time)) timeout);
               (nread, r) = IsSelectReadyLocked so nfds readfds SELECT_READY_READ True s';
               (nwrite, w) = IsSelectReadyLocked so nfds writefds SELECT_READY_WRITE True s';
               (nexcpt, e) = IsSelectReadyLocked so nfds exceptfds SELECT_READY_EXCEPTION True s'
           in (\<lparr>sel_count = (if nread < 0 \<or> nwrite < 0 \<or> nexcpt < 0 then Err EBADF
                             else Ret (nread + nwrite + nexcpt)),
                sel_readfds = r, sel_writefds = w, sel_exceptfds = e, sel_timeout = timeout'\<rparr>, s'))
         (if is_polling then Some s else wait_loop ready time_limit s wakeups))"

section \<open>Memory mappings\<close>

text \<open>
  Mapped streams may look at the state of the file system, so their operations \<open>mo\<close> act on
  it; the table of regions itself is only changed through \<open>MemoryRegion\<close>. \<open>page_size\<close> is the
  system's, \<open>nacl\<close> says whether the target is Native Client. Addresses and sizes have 32 bits.
\<close>

definition MAP_ANONYMOUS :: u32 where "MAP_ANONYMOUS = 0x20"

definition IsMemoryRangeAvailableLocked :: "'w vfs mapped_ops \<Rightarrow> bool \<Rightarrow> nat \<Rightarrow> nat \<Rightarrow> 'w vfs \<Rightarrow> bool outcome \<times> 'w vfs" where
  "IsMemoryRangeAvailableLocked mo nacl addr len s =
     (case AddFileStreamByAddr mo addr len kBadInode 0 0 None (v_mem s) of
        (Ret True, mr) \<Rightarrow>
          (case RemoveFileStreamsByAddr mo nacl addr len True (mr, s) of
             (Fatal, mr', s') \<Rightarrow> (Fatal, s'\<lparr>v_mem := mr'\<rparr>)
           | (_, mr', s') \<Rightarrow> (Ret True, s'\<lparr>v_mem := mr'\<rparr>))
      | (r, mr) \<Rightarrow> (r, s\<lparr>v_mem := mr\<rparr>))"

definition vfs_madvise :: "'w vfs mapped_ops \<Rightarrow> u32 \<Rightarrow> u32 \<Rightarrow> u32 \<Rightarrow> madv \<Rightarrow> 'w vfs \<Rightarrow> int outcome \<times> 'w vfs" where
  "vfs_madvise mo page_size addr len advice s =
     (if \<not> IsPageAligned page_size addr then (Err EINVAL, s)
      else case SetAdviceByAddr mo (unat addr) (unat (RoundToPageSize page_size len)) advice (v_mem s, s) of
             (r, mr, s') \<Rightarrow> (r, s'\<lparr>v_mem := mr\<rparr>))"

definition vfs_mmap ::
  "'w vfs stream_ops \<Rightarrow> 'w vfs mapped_ops \<Rightarrow> bool \<Rightarrow> u32 \<Rightarrow> u32 \<Rightarrow> u32 \<Rightarrow> u32 \<Rightarrow> u32 \<Rightarrow> int \<Rightarrow> int \<Rightarrow> 'w vfs \<Rightarrow> u32 outcome \<times> 'w vfs" where
  "vfs_mmap so mo nacl page_size addr len prot flags fd offset s =
     (if len = 0 then (Err EINVAL, s)
      else if \<not> IsPageAligned page_size addr \<and> flags AND MAP_FIXED \<noteq> 0 then (Err EINVAL, s)
      else
        let addr1 = (if IsPageAligned page_size addr then addr else addr AND NOT (page_size - 1)) in
        if RoundToPageSize page_size (word_of_int offset) \<noteq> word_of_int offset then (Err EINVAL, s)
        else
          let (stream, s1) = (if flags AND MAP_ANONYMOUS \<noteq> 0
                              then (let (st, s1) = so_new so New_PassthroughStream s in (Some st, s1))
                              else (GetStream fd (v_fds s), s))
          in case stream of
               None \<Rightarrow> (Err EBADF, s1)
             | Some st \<Rightarrow>
                 let len1 = RoundToPageSize page_size len in
                 (case so_mmap so st addr1 len1 prot flags offset s1 of
                    (Ret new_addr, s2) \<Rightarrow>
                      let (removed, s3) =
                            (if flags AND MAP_FIXED \<noteq> 0
                             then (case RemoveFileStreamsByAddr mo nacl (unat addr1) (unat len1) False (v_mem s2, s2) of
                                     (r, mr, s3) \<Rightarrow> (r, s3\<lparr>v_mem := mr\<rparr>))
                             else (Ret 0, s2))
                      in if removed = Fatal then (Fatal, s3)
                         else (case AddFileStreamByAddr mo (unat new_addr) (unat len1) offset prot flags (Some st) (v_mem s3) of
                            (Ret True, mr) \<Rightarrow> (Ret new_addr, s3\<lparr>v_mem := mr\<rparr>)
                          | (Ret False, mr) \<Rightarrow> (Err ENODEV, s3\<lparr>v_mem := mr\<rparr>)
                          | (Err e, mr) \<Rightarrow> (Err e, s3\<lparr>v_mem := mr\<rparr>)
                          | (Fatal, mr) \<Rightarrow> (Fatal, s3\<lparr>v_mem := mr\<rparr>))
                  | (Err e, s2) \<Rightarrow> (Err e, s2)
                  | (Fatal, s2) \<Rightarrow> (Fatal, s2)))"

definition vfs_mprotect :: "'w vfs mapped_ops \<Rightarrow> u32 \<Rightarrow> u32 \<Rightarrow> u32 \<Rightarrow> u32 \<Rightarrow> 'w vfs \<Rightarrow> int outcome \<times> 'w vfs" where
  "vfs_mprotect mo page_size addr len prot s =
     (if \<not> IsPageAligned page_size addr then (Err EINVAL, s)
      else case ChangeProtectionModeByAddr mo (unat addr) (unat (RoundToPageSize page_size len)) prot (v_mem s, s) of
             (r, mr, s') \<Rightarrow> (r, s'\<lparr>v_mem := mr\<rparr>))"

definition vfs_munmap :: "'w vfs mapped_ops \<Rightarrow> bool \<Rightarrow> u32 \<Rightarrow> u32 \<Rightarrow> u32 \<Rightarrow> 'w vfs \<Rightarrow> int outcome \<times> 'w vfs" where
  "vfs_munmap mo nacl page_size addr len s =
     (if \<not> IsPageAligned page_size addr \<or> len = 0 then (Err EINVAL, s)
      else case RemoveFileStreamsByAddr mo nacl (unat addr) (unat (RoundToPageSize page_size len)) True (v_mem s, s) of
             (r, mr, s') \<Rightarrow> (r, s'\<lparr>v_mem := mr\<rparr>))"

section \<open>Debug output\<close>

text \<open>
  Once the browser is ready, output to standard output and error is also appended to a log
  file that is opened on the first write. The descriptor reserved for it stays reserved when
  opening fails, and then no later write is logged.
\<close>

definition debug_stream ::
  "'a world_scheme vfs handler_ops \<Rightarrow> int \<Rightarrow> int \<times> string \<Rightarrow> 'a world_scheme vfs \<Rightarrow> sid option \<times> 'a world_scheme vfs" where
  "debug_stream H fd entry s =
     (if fst entry = kInvalidFileNo then
        let (dfd, s1) = GetFirstUnusedDescriptorLocked s;
            s2 = s1\<lparr>v_debug_fds := AList.update fd (dfd, snd entry) (v_debug_fds s1)\<rparr>
        in if 0 \<le> dfd then
             (case GetFileSystemHandlerLocked H (snd entry) s2 of
                (None, s3) \<Rightarrow> (None, s3)
              | (Some (handler, permission), s3) \<Rightarrow>
                  (case ho_open H handler dfd (snd entry) (O_CREAT OR O_RDWR) kDefaultUserFilePermission s3 of
                     (Ret st, s4) \<Rightarrow> (Some st, add_file_stream dfd (Some st) (set_permission permission st s4))
                   | (_, s4) \<Rightarrow> (None, s4)))
           else (None, s2)
      else (GetStream (fst entry) (v_fds s), s))"

definition DebugWriteLocked ::
  "'a world_scheme vfs stream_ops \<Rightarrow> 'a world_scheme vfs handler_ops \<Rightarrow> int \<Rightarrow> byte list \<Rightarrow> 'a world_scheme vfs \<Rightarrow> 'a world_scheme vfs" where
  "DebugWriteLocked so H fd buf s =
     (if \<not> v_browser_ready s then s
      else case map_of (v_debug_fds s) fd of
             None \<Rightarrow> s
           | Some entry \<Rightarrow>
               (case debug_stream H fd entry s of
                  (None, s') \<Rightarrow> s'
                | (Some st, s') \<Rightarrow> so_debug_write so st buf s'))"

section \<open>The descriptor table inside the file system\<close>

definition fds_ok :: "'a world_scheme vfs \<Rightarrow> bool" where
  "fds_ok s \<longleftrightarrow> fd_inv (v_fds s) \<and> refs_exact (v_fds s) (v_world s) \<and>
     (\<forall>x \<in> set (fm_unused_fds (v_fds s)) \<union> dom (map_of (fm_streams (v_fds s))). 0 \<le> x)"

definition bound :: "'w vfs \<Rightarrow> int \<Rightarrow> sid option option" where
  "bound s = map_of (fm_streams (v_fds s))"

lemma GetStream_bound: "GetStream fd (v_fds s) = (case bound s fd of Some r \<Rightarrow> r | None \<Rightarrow> None)"
  by (simp add: GetStream_def bound_def)

lemma Known_bound: "IsKnownDescriptor fd (v_fds s) \<longleftrightarrow> bound s fd \<noteq> None"
  by (simp add: IsKnownDescriptor_def bound_def)

lemma add_file_stream_effect:
  assumes "fds_ok s" "GetStream fd (v_fds s) = None" "0 \<le> fd"
  shows "fds_ok (add_file_stream fd st s) \<and> bound (add_file_stream fd st s) = (bound s)(fd \<mapsto> st)"
proof -
  obtain m w where mw: "AddFileStream fd st (v_fds s, v_world s) = (m, w)" by fastforce
  have m: "m = fst (AddFileStream fd st (v_fds s, v_world s))" using mw by simp
  have str: "fm_streams m = smap_put fd st (fm_streams (v_fds s))" "set (fm_unused_fds m) \<subseteq> set (fm_unused_fds (v_fds s))"
    unfolding m fst_AddFileStream by auto
  have "fd_inv m" using add_inv [of "v_fds s" fd st "v_world s"] assms(1) by (simp add: m fds_ok_def)
  moreover have "refs_exact m w"
    using add_keeps_refs [OF _ _ _ mw] assms(1,2) by (simp add: fds_ok_def GetStream_None)
  moreover have "\<forall>x \<in> set (fm_unused_fds m) \<union> dom (map_of (fm_streams m)). 0 \<le> x"
    using assms(1,3) str by (auto simp: fds_ok_def map_of_smap_put)
  ultimately show ?thesis
    by (simp add: add_file_stream_def mw fds_ok_def bound_def str map_of_smap_put)
qed

lemma GetFirstUnusedDescriptorLocked_effect:
  assumes ok: "fds_ok s" and r: "GetFirstUnusedDescriptorLocked s = (fd, s')"
  shows "fds_ok s' \<and> v_mem s' = v_mem s \<and>
    (if fd < 0 then s' = s \<and> fm_unused_fds (v_fds s) = [] else bound s fd = None \<and> bound s' = (bound s)(fd \<mapsto> None))
    \<and> (\<forall>x. fm_min_file_id (v_fds s) \<le> x \<and> x \<le> fm_max_file_id (v_fds s) \<and> bound s x = None \<longrightarrow> 0 \<le> fd \<and> fd \<le> x)"
proof -
  obtain m w where g: "GetFirstUnusedDescriptor (v_fds s, v_world s) = (fd, m, w)"
    and s': "s' = s\<lparr>v_fds := m, v_world := w\<rparr>"
    using r by (auto simp: GetFirstUnusedDescriptorLocked_def split: prod.splits)
  have inv: "fd_inv (v_fds s)" "refs_exact (v_fds s) (v_world s)" and nn: "\<forall>x \<in> set (fm_unused_fds (v_fds s)). 0 \<le> x"
    using ok by (auto simp: fds_ok_def)
  have inv': "fd_inv m" "refs_exact m w" using get_first_inv [OF inv g] by auto
  show ?thesis
  proof (cases "fm_unused_fds (v_fds s) = []")
    case True
    with g have e: "fd = - 1" "m = v_fds s" "w = v_world s" by (auto simp: GetFirstUnusedDescriptor_def)
    have "s' = s" by (simp add: s' e)
    moreover have "bound s x \<noteq> None" if "fm_min_file_id (v_fds s) \<le> x" "x \<le> fm_max_file_id (v_fds s)" for x
      using inv(1) True that by (fastforce simp: fd_inv_def bound_def)
    ultimately show ?thesis using e ok True by auto
  next
    case False
    let ?fd = "heap_front (fm_unused_fds (v_fds s))"
    have f: "?fd \<in> set (fm_unused_fds (v_fds s))" by (rule heap_front_in [OF False])
    then have ge: "0 \<le> ?fd" using nn by blast
    then have e: "fd = ?fd" "w = v_world s" "fm_streams m = smap_put fd None (fm_streams (v_fds s))"
      "fm_unused_fds m = heap_pop (fm_unused_fds (v_fds s))"
      using GetFirstUnusedDescriptor_table [OF inv(1) False, of "v_world s"] g by auto
    have "bound s fd = None" using f e(1) inv(1) by (auto simp: fd_inv_def bound_def)
    moreover have b: "bound s' = (bound s)(fd \<mapsto> None)" by (simp add: bound_def s' e(3) map_of_smap_put)
    moreover have "fds_ok s'"
      using inv' ok ge by (auto simp: fds_ok_def s' e map_of_smap_put heap_pop_def dest: set_remove1_subset [THEN subsetD])
    moreover have "fd \<le> x" if "fm_min_file_id (v_fds s) \<le> x" "x \<le> fm_max_file_id (v_fds s)" "bound s x = None" for x
    proof -
      have "x \<in> set (fm_unused_fds (v_fds s))" using inv(1) that by (auto simp: fd_inv_def bound_def)
      then show ?thesis using heap_front_le e(1) by blast
    qed
    ultimately show ?thesis using ge e(1) by (simp add: s')
  qed
qed

lemma remove_file_stream_effect:
  assumes vt: "quiet_vtable vt" and ok: "fds_ok s" and k: "bound s fd \<noteq> None"
  shows "\<exists>s'. remove_file_stream vt fd s = Ret s' \<and> fds_ok s' \<and> bound s' = (bound s)(fd := None) \<and>
    (bound s fd = Some None \<longrightarrow> v_world s' = v_world s)"
proof -
  have inv: "fd_inv (v_fds s)" "refs_exact (v_fds s) (v_world s)" using ok by (auto simp: fds_ok_def)
  obtain old where old: "map_of (fm_streams (v_fds s)) fd = Some old" using k by (auto simp: bound_def)
  then obtain m w where r: "RemoveFileStream vt fd (v_fds s, v_world s) = Ret (m, w)"
    by (cases old) (auto simp: RemoveFileStream_def Let_def)
  have m: "m = (v_fds s)\<lparr>fm_streams := smap_del fd (fm_streams (v_fds s)), fm_unused_fds := heap_push fd (fm_unused_fds (v_fds s))\<rparr>"
    using RemoveFileStream_table [OF r] by simp
  have "fd_inv m" by (rule remove_inv [OF inv(1) r])
  moreover have "refs_exact m w" by (rule quiet_vtable.remove_keeps_refs [OF vt inv r])
  moreover have b: "map_of (fm_streams m) = (map_of (fm_streams (v_fds s)))(fd := None)"
    using inv(1) by (simp add: m fd_inv_def map_of_smap_del)
  moreover have "\<forall>x \<in> set (fm_unused_fds m) \<union> dom (map_of (fm_streams m)). 0 \<le> x"
    using ok old b by (auto simp: fds_ok_def m heap_push_def split: if_splits)
  moreover have "w = v_world s" if "old = None"
    using r old that by (auto simp: RemoveFileStream_def Let_def)
  ultimately show ?thesis
    using old by (simp add: remove_file_stream_def r fds_ok_def bound_def)
qed

lemma CloseLocked_effect:
  assumes "quiet_vtable vt" "fds_ok s"
  shows "fds_ok (snd (CloseLocked vt fd s)) \<and>
    bound (snd (CloseLocked vt fd s)) = (if GetStream fd (v_fds s) = None then bound s else (bound s)(fd := None)) \<and>
    fst (CloseLocked vt fd s) = (GetStream fd (v_fds s) \<noteq> None)"
proof (cases "GetStream fd (v_fds s)")
  case (Some st)
  then have "bound s fd \<noteq> None" by (auto simp: GetStream_bound split: option.splits)
  from remove_file_stream_effect [OF assms this] Some show ?thesis
    by (auto simp: CloseLocked_def)
qed (use assms in \<open>simp add: CloseLocked_def\<close>)

lemma DupLocked_effect:
  assumes vt: "quiet_vtable vt" and ok: "fds_ok s" and st: "GetStream fd (v_fds s) = Some st"
    and r: "DupLocked vt fd newfd s = (Ret n, s')"
  shows "fds_ok s' \<and> 0 \<le> n \<and> bound s' = (bound s)(n \<mapsto> Some st) \<and>
    (if newfd < 0 then bound s n = None else n = newfd)"
proof -
  obtain n1 s1 where p: "(if newfd < 0 then GetFirstUnusedDescriptorLocked s else (newfd, s)) = (n1, s1)" by fastforce
  have n: "n1 = n" "0 \<le> n" using r st p by (auto simp: DupLocked_def split: if_splits)
  have one: "fds_ok s1 \<and> (if newfd < 0 then bound s n = None \<and> bound s1 = (bound s)(n \<mapsto> None) else n = newfd \<and> s1 = s)"
  proof (cases "newfd < 0")
    case True
    with p GetFirstUnusedDescriptorLocked_effect [OF ok, of n1 s1] n show ?thesis by auto
  qed (use p ok n in auto)
  show ?thesis
  proof (cases "fd = n")
    case True
    have b: "bound s n = Some (Some st)"
      using st True by (auto simp: GetStream_bound split: option.splits)
    with one have "n = newfd" "s1 = s" "\<not> newfd < 0" by (auto split: if_splits)
    moreover have "s' = s1" using r st p n True by (auto simp: DupLocked_def split: if_splits)
    ultimately show ?thesis using b ok n by (auto simp: fun_upd_idem)
  next
    case False
    let ?c = "snd (CloseLocked vt n s1)"
    have s': "s' = add_file_stream n (Some st) ?c"
      using r st p n False by (auto simp: DupLocked_def split: if_splits)
    have c: "fds_ok ?c" "bound ?c = (if GetStream n (v_fds s1) = None then bound s1 else (bound s1)(n := None))"
      using CloseLocked_effect [OF vt, of s1 n] one by blast+
    have g: "GetStream n (v_fds ?c) = None"
      unfolding GetStream_bound [of n ?c] c(2)
      using GetStream_bound [of n s1] by (auto split: option.splits)
    have "fds_ok s' \<and> bound s' = (bound ?c)(n \<mapsto> Some st)"
      unfolding s' by (rule add_file_stream_effect [OF c(1) g n(2)])
    moreover have "(bound ?c)(n \<mapsto> Some st) = (bound s)(n \<mapsto> Some st)"
      using c(2) one by (auto simp: fun_eq_iff split: if_splits)
    ultimately show ?thesis using one n by auto
  qed
qed

lemma connected_pair_fail:
  assumes vt: "quiet_vtable vt" and ok: "fds_ok s" and r: "connected_pair so vt c1 c2 s = (Err e, s')"
  shows "e = EMFILE \<and> bound s' = bound s \<and> fds_ok s' \<and> v_world s' = v_world s"
proof -
  obtain fd1 s1 where g1: "GetFirstUnusedDescriptorLocked s = (fd1, s1)" by fastforce
  obtain fd2 s2 where g2: "GetFirstUnusedDescriptorLocked s1 = (fd2, s2)" by fastforce
  note e1 = GetFirstUnusedDescriptorLocked_effect [OF ok g1]
  have w: "v_world s2 = v_world s1" "v_world s1 = v_world s"
    using g1 g2 by (auto simp: GetFirstUnusedDescriptorLocked_def GetFirstUnusedDescriptor_def AddFileStream_def Let_def
        split: prod.splits if_splits option.splits)
  show ?thesis
  proof (cases "fd1 < 0")
    case True
    with r g1 e1 ok show ?thesis by (auto simp: connected_pair_def)
  next
    case False
    have ok1: "fds_ok s1" and b1: "bound s fd1 = None" "bound s1 = (bound s)(fd1 \<mapsto> None)" using e1 False by auto
    show ?thesis
    proof (cases "fd2 < 0")
      case True
      have s2: "s2 = s1" using GetFirstUnusedDescriptorLocked_effect [OF ok1 g2] True by auto
      have "bound s1 fd1 \<noteq> None" "bound s1 fd1 = Some None" using b1 by auto
      with remove_file_stream_effect [OF vt ok1, of fd1] obtain s3 where
        s3: "remove_file_stream vt fd1 s2 = Ret s3" "fds_ok s3" "bound s3 = (bound s1)(fd1 := None)" "v_world s3 = v_world s1"
        by (auto simp: s2)
      have "bound s3 = bound s" using s3(3) b1 by (auto simp: fun_eq_iff)
      with r g1 g2 False True s3 w show ?thesis by (auto simp: connected_pair_def)
    next
      case f2: False
      with r g1 g2 False show ?thesis by (auto simp: connected_pair_def Let_def split: prod.splits)
    qed
  qed
qed

section \<open>Properties\<close>

lemmas vfs_calls = vfs_read_def vfs_write_def vfs_readv_def vfs_writev_def vfs_pread_def vfs_pwrite_def vfs_lseek_def
  vfs_fstat_def vfs_fstatfs_def vfs_ftruncate_def vfs_getdents_def vfs_fdatasync_def vfs_fsync_def vfs_ioctl_def
  vfs_epoll_wait_def vfs_shutdown_def vfs_connect_def vfs_bind_def vfs_listen_def vfs_accept_def vfs_getpeername_def
  vfs_getsockname_def vfs_send_def vfs_sendto_def vfs_sendmsg_def vfs_recv_def vfs_recvfrom_def vfs_recvmsg_def
  vfs_getsockopt_def vfs_setsockopt_def with_stream_def

text \<open>
  C24. \<open>dup\<close> and \<open>dup2\<close>: a successful call binds the returned descriptor to the very stream of
  the old one, closes what the new descriptor named before, leaves every other descriptor
  alone, and keeps the table consistent (each stream's reference count is the number of its
  descriptors). \<open>dup\<close> (and \<open>dup2\<close> with a negative descriptor) returns one that was not in use.
\<close>

theorem DupLocked_shares_stream:
  assumes "quiet_vtable vt" and "fds_ok s" and "DupLocked vt fd newfd s = (Ret n, s')"
  shows "\<exists>st. GetStream fd (v_fds s) = Some st \<and> GetStream n (v_fds s') = Some st \<and>
    (\<forall>x. x \<noteq> n \<longrightarrow> GetStream x (v_fds s') = GetStream x (v_fds s)) \<and> fds_ok s' \<and>
    (if newfd < 0 then \<not> vfs_IsKnownDescriptor n s else n = newfd)"
proof -
  obtain st where st: "GetStream fd (v_fds s) = Some st"
    using assms(3) by (auto simp: DupLocked_def split: option.splits)
  from DupLocked_effect [OF assms(1,2) st assms(3)] st show ?thesis
    by (intro exI [of _ st]) (auto simp: GetStream_bound vfs_IsKnownDescriptor_def Known_bound)
qed

text \<open>Streams that answer every call as the base class does (and reads and writes as an epoll stream).\<close>

definition base_ops :: "world vfs stream_ops" where
  "base_ops = \<lparr>
     so_new = (\<lambda>c s. (0, s)), so_set_peer = (\<lambda>a b s. s),
     so_read = (\<lambda>st n s. (Err EINVAL, s)), so_write = (\<lambda>st b s. (Err EINVAL, s)), so_debug_write = (\<lambda>st b s. s),
     so_readv = (\<lambda>st v n s. FileStream_readv (\<lambda>k s. (Err EINVAL, s)) v n s),
     so_writev = (\<lambda>st v n s. FileStream_writev (\<lambda>b s. (Err EINVAL, s)) v n s),
     so_pread = (\<lambda>st n off s. FileStream_pread (\<lambda>o' w s. (FileStream_lseek, s)) (\<lambda>k s. (Err EINVAL, s)) n off s),
     so_pwrite = (\<lambda>st b off s. FileStream_pwrite 0 (\<lambda>o' w s. (FileStream_lseek, s)) (\<lambda>b s. (Err EINVAL, s)) b off s),
     so_lseek = (\<lambda>st off w s. (FileStream_lseek, s)),
     so_fstat = (\<lambda>st s. (Err ENOSYS, s)), so_fstatfs = (\<lambda>st s. (Err ENOSYS, s)),
     so_ftruncate = (\<lambda>st n s. (FileStream_ftruncate, s)), so_getdents = (\<lambda>st n s. (Err ENOTDIR, s)),
     so_fcntl = (\<lambda>st c s. case FileStream_fcntl c (w_streams (v_world s) st) of
                   (r, f) \<Rightarrow> (r, s\<lparr>v_world := upd_stream st (\<lambda>_. f) (v_world s)\<rparr>)),
     so_fdatasync = (\<lambda>st s. (FileStream_fdatasync, s)), so_fsync = (\<lambda>st s. (FileStream_fsync, s)),
     so_ioctl = (\<lambda>st r a s. (Err EINVAL, s)), so_mmap = (\<lambda>st a l p f off s. (Err ENODEV, s)),
     so_epoll_ctl = (\<lambda>st op t e s. (FileStream_epoll_ctl, s)), so_epoll_wait = (\<lambda>st m t s. (Err EINVAL, s)),
     so_GetPollEvents = (\<lambda>st s. FileStream_GetPollEvents),
     so_IsSelectReadReady = (\<lambda>st s. FileStream_IsSelectReadReady),
     so_IsSelectWriteReady = (\<lambda>st s. FileStream_IsSelectWriteReady),
     so_IsSelectExceptionReady = (\<lambda>st s. FileStream_IsSelectExceptionReady),
     so_connect = (\<lambda>st a l s. (FileStream_connect, s)), so_bind = (\<lambda>st a l s. (FileStream_bind, s)),
     so_listen = (\<lambda>st b s. (FileStream_listen, s)), so_accept = (\<lambda>st l s. (Err ENOTSOCK, s)),
     so_getpeername = (\<lambda>st l s. (Err ENOTSOCK, s)), so_getsockname = (\<lambda>st l s. (Err ENOTSOCK, s)),
     so_send = (\<lambda>st b f s. (Err ENOTSOCK, s)), so_sendto = (\<lambda>st b f a l s. (Err ENOTSOCK, s)),
     so_sendmsg = (\<lambda>st m f s. (FileStream_sendmsg, s)), so_recv = (\<lambda>st n f s. (Err ENOTSOCK, s)),
     so_recvfrom = (\<lambda>st n f l s. (Err ENOTSOCK, s)), so_recvmsg = (\<lambda>st m f s. (Err ENOTSOCK, s)),
     so_getsockopt = (\<lambda>st l n k s. (Err ENOTSOCK, s)), so_setsockopt = (\<lambda>st l n v k s. (FileStream_setsockopt, s))\<rparr>"

text \<open>A small file system: descriptor 0 is bound to stream 7, descriptors 1 and 2 are free.\<close>

definition small_world :: world where
  "small_world = \<lparr>w_streams = \<lambda>s. if s = 7 then (FileStream 0 [] 0)\<lparr>fs_file_ref_count := 1, fs_had_file_refs := True\<rparr> else FileStream 0 [] 0\<rparr>"

definition small_vfs :: "world vfs" where
  "small_vfs = (VirtualFileSystem False 0 2 ''/'' 0 0 small_world)\<lparr>v_fds := small_table\<rparr>"

lemma small_vfs_ok: "fds_ok small_vfs"
proof -
  have "refs_exact small_table small_world"
    by (auto simp: refs_exact_def small_world_def small_table_def fd_count_def FileStream_def)
  with small_table_inv show ?thesis
    by (auto simp: fds_ok_def small_vfs_def VirtualFileSystem_def small_table_def split: if_splits)
qed

theorem DupLocked_shares_stream_witness:
  "GetStream 1 (v_fds (snd (DupLocked FileStream_vtable 0 (- 1) small_vfs))) = Some 7"
proof -
  let ?r = "DupLocked FileStream_vtable 0 (- 1) small_vfs"
  have r: "?r = (Ret 1, snd ?r)"
    by (simp add: DupLocked_def small_vfs_def VirtualFileSystem_def small_table_def GetStream_def
        GetFirstUnusedDescriptorLocked_def GetFirstUnusedDescriptor_def heap_front_def heap_pop_def Let_def split: prod.splits)
  have g: "GetStream 0 (v_fds small_vfs) = Some 7"
    by (simp add: GetStream_def small_vfs_def VirtualFileSystem_def small_table_def)
  from DupLocked_shares_stream [OF base_vt.quiet_vtable_axioms small_vfs_ok r] g show ?thesis by auto
qed

lemma vfs_socket_fail:
  assumes vt: "quiet_vtable vt" and ok: "fds_ok s" and r: "vfs_socket so vt fam typ proto s = (Err e, s')"
  shows "bound s' = bound s \<and> fds_ok s' \<and> v_world s' = v_world s"
proof -
  obtain fd s1 where g: "GetFirstUnusedDescriptorLocked s = (fd, s1)" by fastforce
  note e1 = GetFirstUnusedDescriptorLocked_effect [OF ok g]
  have w: "v_world s1 = v_world s"
    using g by (auto simp: GetFirstUnusedDescriptorLocked_def GetFirstUnusedDescriptor_def AddFileStream_def Let_def
        split: prod.splits if_splits option.splits)
  show ?thesis
  proof (cases "fd < 0")
    case True
    with r g e1 ok show ?thesis by (auto simp: vfs_socket_def)
  next
    case False
    have ok1: "fds_ok s1" and b: "bound s fd = None" "bound s1 = (bound s)(fd \<mapsto> None)" using e1 False by auto
    then have "bound s1 fd \<noteq> None" "bound s1 fd = Some None" by auto
    with remove_file_stream_effect [OF vt ok1, of fd] obtain s2 where
      s2: "remove_file_stream vt fd s1 = Ret s2" "fds_ok s2" "bound s2 = (bound s1)(fd := None)" "v_world s2 = v_world s1"
      by auto
    have "s' = s2"
      using r g False s2(1) by (auto simp: vfs_socket_def Let_def split: option.splits prod.splits if_splits)
    then show ?thesis using s2 b w by (auto simp: fun_eq_iff)
  qed
qed

text \<open>
  C28. A failing \<open>socket\<close>, \<open>socketpair\<close> or \<open>pipe2\<close> leaves no descriptor reserved: every
  descriptor is bound as before, no stream's references change and the table stays consistent,
  also when the second of two descriptors is missing.
\<close>

theorem failed_calls_leak_no_descriptor:
  assumes "quiet_vtable vt" and "fds_ok s"
    and "vfs_pipe2 so vt flags s = (Err e, s') \<or> vfs_socketpair so vt fam typ proto sv s = (Err e, s') \<or>
         vfs_socket so vt fam typ proto s = (Err e, s')"
  shows "bound s' = bound s \<and> v_world s' = v_world s \<and> fds_ok s'"
  using assms(3)
proof (elim disjE)
  assume "vfs_pipe2 so vt flags s = (Err e, s')"
  then show ?thesis using connected_pair_fail [OF assms(1,2)] by (auto simp: vfs_pipe2_def)
next
  assume "vfs_socketpair so vt fam typ proto sv s = (Err e, s')"
  then show ?thesis
    using connected_pair_fail [OF assms(1,2)] assms(2) by (auto simp: vfs_socketpair_def split: if_splits)
next
  assume "vfs_socket so vt fam typ proto s = (Err e, s')"
  then show ?thesis using vfs_socket_fail [OF assms(1,2)] by blast
qed

theorem failed_calls_leak_no_descriptor_witness:
  "bound (snd (vfs_socket base_ops FileStream_vtable AF_UNIX 77 0 small_vfs)) = bound small_vfs"
proof -
  let ?r = "vfs_socket base_ops FileStream_vtable AF_UNIX 77 0 small_vfs"
  obtain fd s1 where g: "GetFirstUnusedDescriptorLocked small_vfs = (fd, s1)" by fastforce
  have fd: "fd = 1"
    using g by (auto simp: small_vfs_def VirtualFileSystem_def small_table_def
        GetFirstUnusedDescriptorLocked_def GetFirstUnusedDescriptor_def heap_front_def Let_def split: prod.splits)
  with GetFirstUnusedDescriptorLocked_effect [OF small_vfs_ok g]
  have "fds_ok s1" "bound s1 fd \<noteq> None" by auto
  from remove_file_stream_effect [OF base_vt.quiet_vtable_axioms this] have "\<exists>s2. ?r = (Err EAFNOSUPPORT, s2)"
    using g fd by (auto simp: vfs_socket_def socket_consts Let_def)
  then obtain s2 where r: "?r = (Err EAFNOSUPPORT, s2)" by blast
  from failed_calls_leak_no_descriptor [OF base_vt.quiet_vtable_axioms small_vfs_ok disjI2, OF disjI2, OF r] r show ?thesis by simp
qed

text \<open>
  Every call on a descriptor without a stream fails with \<^verbatim>\<open>EBADF\<close> and changes nothing,
  except that \<open>ftruncate\<close> checks its length first and \<open>fcntl\<close> on a reserved descriptor
  succeeds without effect.
\<close>

theorem unbound_descriptor_EBADF:
  assumes "GetStream fd (v_fds s) = None"
  shows "vfs_read so fd n s = (Err EBADF, s) \<and> vfs_write so fd buf s = (Err EBADF, s)
    \<and> vfs_readv so fd iov cnt s = (Err EBADF, s) \<and> vfs_writev so fd iovs cnt s = (Err EBADF, s)
    \<and> vfs_pread so fd n off s = (Err EBADF, s) \<and> vfs_pwrite so fd buf off s = (Err EBADF, s)
    \<and> vfs_lseek so fd off wh s = (Err EBADF, s) \<and> vfs_fstat so fd s = (Err EBADF, s)
    \<and> vfs_ftruncate so fd len s = (Err (if len < 0 then EINVAL else EBADF), s)
    \<and> vfs_fcntl so fd cmd s = (if vfs_IsKnownDescriptor fd s then Ret (0, False) else Err EBADF, s)
    \<and> vfs_epoll_ctl so fd op fd2 ev s = (Err EBADF, s) \<and> vfs_epoll_ctl so fd2 op fd ev s = (Err EBADF, s)
    \<and> vfs_sendmsg so fd msg flags s = (Err EBADF, s) \<and> vfs_recvmsg so fd msg flags s = (Err EBADF, s)
    \<and> vfs_accept so fd al s = (Err EBADF, s) \<and> vfs_close vt fd s = (Err EBADF, s)
    \<and> vfs_dup2 vt fd fd2 s = (Err EBADF, s)"
  using assms
  by (auto simp: vfs_calls vfs_fcntl_def vfs_epoll_ctl_def vfs_IsKnownDescriptor_def vfs_close_def CloseLocked_def
      vfs_dup2_def DupLocked_def split: option.split)

theorem unbound_descriptor_EBADF_witness:
  "fst (vfs_fcntl base_ops 1 F_GETFL (snd (GetFirstUnusedDescriptorLocked small_vfs))) = Ret (0, False)
   \<and> fst (vfs_fcntl base_ops 5 F_GETFL small_vfs) = Err EBADF"
proof -
  have g: "GetStream 5 (v_fds small_vfs) = None" "\<not> vfs_IsKnownDescriptor 5 small_vfs"
    by (simp_all add: GetStream_def vfs_IsKnownDescriptor_def IsKnownDescriptor_def small_vfs_def VirtualFileSystem_def small_table_def)
  obtain fd s1 where r: "GetFirstUnusedDescriptorLocked small_vfs = (fd, s1)" by fastforce
  have fd: "fd = 1"
    using r by (auto simp: small_vfs_def VirtualFileSystem_def small_table_def
        GetFirstUnusedDescriptorLocked_def GetFirstUnusedDescriptor_def heap_front_def Let_def split: prod.splits)
  with GetFirstUnusedDescriptorLocked_effect [OF small_vfs_ok r]
  have h: "GetStream 1 (v_fds s1) = None" "vfs_IsKnownDescriptor 1 s1"
    by (auto simp: GetStream_bound Known_bound vfs_IsKnownDescriptor_def)
  show ?thesis
    using unbound_descriptor_EBADF [OF g(1)] g(2) unbound_descriptor_EBADF [OF h(1)] h(2) r by auto
qed

lemma IsPollReadyLocked_count:
  "fst (IsPollReadyLocked so fds b s) = int (length (filter (\<lambda>p. poll_events so s p \<noteq> 0) fds))"
  by (induction fds) (auto simp: Let_def split: prod.splits)

lemma IsPollReadyLocked_apply:
  "snd (IsPollReadyLocked so fds True s) = map (\<lambda>p. p\<lparr>pfd_revents := poll_events so s p\<rparr>) fds"
  by (induction fds) (auto simp: Let_def split: prod.splits)

lemma wait_loop_result:
  "wait_loop ready limit s ws = Some s' \<Longrightarrow>
   ready s' \<or> (\<exists>a b t. (a, b, t) \<in> set ws \<and> WaitUntil limit a b)"
proof (induction ws arbitrary: s)
  case Nil
  then show ?case by (subst (asm) wait_loop.simps) (auto split: if_splits)
next
  case (Cons x ws)
  obtain a b t where x: "x = (a, b, t)" by (cases x)
  show ?case
  proof (cases "ready s \<or> WaitUntil limit a b")
    case True
    with Cons.prems x show ?thesis by (subst (asm) wait_loop.simps) (auto simp: Let_def split: if_splits)
  next
    case False
    with Cons.prems x have "wait_loop ready limit (if fst (WaitUntilInternal limit a b) then t else s) ws = Some s'"
      by (subst (asm) wait_loop.simps) (simp add: Let_def)
    from Cons.IH [OF this] show ?thesis by auto
  qed
qed

text \<open>
  C21. \<open>poll\<close>, for any behaviour of other threads during the wait: the result is the number of
  entries with a non-zero \<open>revents\<close>, every \<open>revents\<close> is the readiness at the end of the call
  (\<^verbatim>\<open>POLLNVAL\<close> for an unbound descriptor), and the call comes back empty-handed only with a zero
  time-out, or with a positive one once the clock has reached the limit; with a negative
  time-out it returns only when something is ready.
\<close>

theorem vfs_poll_result:
  assumes "vfs_poll so now fds timeout s wakeups = Some ((n, fds'), s')" and "0 \<le> now"
  shows "n = int (length (filter (\<lambda>p. pfd_revents p \<noteq> 0) fds')) \<and>
    fds' = map (\<lambda>p. p\<lparr>pfd_revents := poll_events so s' p\<rparr>) fds \<and>
    (n = 0 \<longrightarrow> timeout = 0 \<or> (0 < timeout \<and>
       (\<exists>a b t. (a, b, t) \<in> set wakeups \<and> now + timeout * 1000 \<le> max a b)))"
proof -
  from assms(1) have n: "n = fst (IsPollReadyLocked so fds True s')" and f: "fds' = snd (IsPollReadyLocked so fds True s')"
    by (auto simp: vfs_poll_def)
  have f': "fds' = map (\<lambda>p. p\<lparr>pfd_revents := poll_events so s' p\<rparr>) fds" using f by (simp add: IsPollReadyLocked_apply)
  have n': "n = int (length (filter (\<lambda>p. pfd_revents p \<noteq> 0) fds'))"
    by (simp add: n f' IsPollReadyLocked_count filter_map comp_def)
  let ?limit = "TimeOutToTimeLimit now (max 0 timeout * 1000)"
  have "0 < timeout \<and> (\<exists>a b t. (a, b, t) \<in> set wakeups \<and> now + timeout * 1000 \<le> max a b)"
    if "n = 0" "timeout \<noteq> 0"
  proof -
    have loop: "wait_loop (\<lambda>s. fst (IsPollReadyLocked so fds False s) \<noteq> 0) ?limit s wakeups = Some s'"
      using assms(1) that(2) by (auto simp: vfs_poll_def)
    have "fst (IsPollReadyLocked so fds False s') = 0" using that(1) n by (simp add: IsPollReadyLocked_count)
    with wait_loop_result [OF loop] obtain a b t where ab: "(a, b, t) \<in> set wakeups" "WaitUntil ?limit a b"
      by blast
    then have "?limit \<noteq> 0" "?limit \<le> max a b" by (auto simp: WaitUntil_true is_null_def)
    moreover from this have "0 < timeout" by (auto simp: TimeOutToTimeLimit_def max_def split: if_splits)
    ultimately show ?thesis using ab(1) by (force simp: TimeOutToTimeLimit_def)
  qed
  with n' f' show ?thesis by blast
qed

theorem vfs_poll_result_witness:
  "\<exists>fds'. vfs_poll base_ops 100 [\<lparr>pfd_fd = 5, pfd_events = 0, pfd_revents = 0\<rparr>] (- 1) small_vfs [] = Some ((1, fds'), small_vfs)
     \<and> length (filter (\<lambda>p. pfd_revents p \<noteq> 0) fds') = 1"
proof -
  let ?p = "\<lparr>pfd_fd = 5, pfd_events = 0, pfd_revents = 0\<rparr> :: pollfd"
  have e: "poll_events base_ops small_vfs ?p = POLLNVAL"
    by (simp add: poll_events_def GetStream_def small_vfs_def VirtualFileSystem_def small_table_def poll_bits)
  then have c: "fst (IsPollReadyLocked base_ops [?p] b small_vfs) = 1" for b
    by (simp add: IsPollReadyLocked_count poll_bits)
  have r: "vfs_poll base_ops 100 [?p] (- 1) small_vfs [] =
      Some ((1, snd (IsPollReadyLocked base_ops [?p] True small_vfs)), small_vfs)"
    using c [of True] c [of False] by (simp add: vfs_poll_def wait_loop.simps prod_eq_iff)
  from vfs_poll_result [OF r] r show ?thesis by auto
qed

end
