(* ===== verification/Vfs_Files.thy ===== *)
theory Vfs_Files
  imports Vfs_Fds
begin

text \<open>
  The path calls of the virtual file system
  (\<^verbatim>\<open>src/src/posix_translation/virtual_file_system.cc\<close>): opening, with the cache of
  files opened in advance, file attributes, changes of the tree, the current directory, mount
  points. Normalising a path need not return, so a call yields an option; otherwise it is an
  outcome with the next state.
\<close>

type_synonym ('r, 'w) path_call = "'w vfs \<Rightarrow> ('r outcome \<times> 'w vfs) option"

section \<open>Denying access\<close>

text \<open>Linux reports that a file does not exist before it reports missing permission.\<close>

definition DenyAccessForModifyLocked :: "'w vfs handler_ops \<Rightarrow> string \<Rightarrow> hid \<Rightarrow> 'w vfs \<Rightarrow> 'r outcome \<times> 'w vfs" where
  "DenyAccessForModifyLocked H path handler s =
     (case ho_stat H handler path s of
        (Ret st, s') \<Rightarrow> (Err EACCES, s')
      | (Err e, s') \<Rightarrow> (Err e, s')
      | (Fatal, s') \<Rightarrow> (Fatal, s'))"

definition DenyAccessForCreateLocked :: "'w vfs handler_ops \<Rightarrow> string \<Rightarrow> hid \<Rightarrow> 'w vfs \<Rightarrow> 'r outcome \<times> 'w vfs" where
  "DenyAccessForCreateLocked H path handler s = DenyAccessForModifyLocked H (GetDirNameInPlace path) handler s"

section \<open>Files opened in advance\<close>

definition kPreopenPendingFd :: int where
  "kPreopenPendingFd = - 2"

text \<open>The multimap from paths to descriptors keeps entries with equal keys in insertion order.\<close>

fun erase_first :: "string \<Rightarrow> (string \<times> int) list \<Rightarrow> (string \<times> int) list" where
  "erase_first path [] = []"
| "erase_first path ((p, fd) # m) = (if p = path then m else (p, fd) # erase_first path m)"

fun fill_pending :: "string \<Rightarrow> int \<Rightarrow> (string \<times> int) list \<Rightarrow> (string \<times> int) list" where
  "fill_pending path new_fd [] = []"
| "fill_pending path new_fd ((p, fd) # m) =
     (if p = path \<and> fd = kPreopenPendingFd then (p, new_fd) # m else (p, fd) # fill_pending path new_fd m)"

definition ClosePreopenedFilesWithResolvedPathLocked ::
  "'a world_scheme vtable \<Rightarrow> string \<Rightarrow> 'a world_scheme vfs \<Rightarrow> 'a world_scheme vfs" where
  "ClosePreopenedFilesWithResolvedPathLocked vt resolved_path s =
     (let s1 = fold (\<lambda>(p, fd) s. if p = resolved_path \<and> 0 \<le> fd then snd (CloseLocked vt fd s) else s) (v_preopened_fds s) s
      in s1\<lparr>v_preopened_fds := filter (\<lambda>(p, fd). p \<noteq> resolved_path) (v_preopened_fds s1)\<rparr>)"

text \<open>
  Waiting for a pending entry: \<open>wakeups\<close> are the states found at the successive wake-ups.
  The result is the descriptor taken from the cache, if there is one; \<open>None\<close> outside means
  that the call is still waiting.
\<close>

fun take_preopened :: "string \<Rightarrow> 'w vfs \<Rightarrow> 'w vfs list \<Rightarrow> (int option \<times> 'w vfs) option" where
  "take_preopened resolved s wakeups =
     (case map_of (v_preopened_fds s) resolved of
        None \<Rightarrow> Some (None, s)
      | Some fd \<Rightarrow>
          if fd \<noteq> kPreopenPendingFd
          then Some (Some fd, s\<lparr>v_preopened_fds := erase_first resolved (v_preopened_fds s)\<rparr>)
          else case wakeups of [] \<Rightarrow> None | s' # rest \<Rightarrow> take_preopened resolved s' rest)"

declare take_preopened.simps [simp del]

section \<open>Opening\<close>

text \<open>\<open>open_fresh\<close> is the part of \<^verbatim>\<open>OpenLocked\<close> after the cache was consulted.\<close>

definition open_denied ::
  "'w vfs handler_ops \<Rightarrow> string \<Rightarrow> u32 \<Rightarrow> hid \<Rightarrow> 'w vfs \<Rightarrow> int outcome \<times> 'w vfs" where
  "open_denied H resolved oflag handler s =
     (if oflag AND O_CREAT \<noteq> 0 then
        (case ho_stat H handler resolved s of
           (Ret st, s1) \<Rightarrow>
             if S_ISDIR (st_mode st) then (Err EISDIR, s1)
             else if oflag AND O_EXCL \<noteq> 0 then (Err EEXIST, s1)
             else DenyAccessForCreateLocked H resolved handler s1
         | (Err e, s1) \<Rightarrow> DenyAccessForCreateLocked H resolved handler s1
         | (Fatal, s1) \<Rightarrow> (Fatal, s1))
      else DenyAccessForModifyLocked H resolved handler s)"

definition open_fresh ::
  "'a world_scheme vfs handler_ops \<Rightarrow> 'a world_scheme vtable \<Rightarrow> string \<Rightarrow> u32 \<Rightarrow> u32 \<Rightarrow> 'a world_scheme vfs \<Rightarrow> int outcome \<times> 'a world_scheme vfs" where
  "open_fresh H vt resolved oflag cmode s =
     (case GetFileSystemHandlerLocked H resolved s of
        (None, s1) \<Rightarrow> (Err ENOENT, s1)
      | (Some (handler, permission), s1) \<Rightarrow>
          if (oflag AND O_ACCMODE \<noteq> O_RDONLY \<or> oflag AND (O_CREAT OR O_TRUNC) \<noteq> 0) \<and> \<not> is_writable permission
          then open_denied H resolved oflag handler s1
          else
            let (fd, s2) = GetFirstUnusedDescriptorLocked s1 in
            if fd < 0 then (Err EMFILE, s2)
            else
              case ho_open H handler fd resolved oflag cmode s2 of
                (Ret stream, s3) \<Rightarrow>
                  let s4 = add_file_stream fd (Some stream) (set_permission permission stream s3);
                      s5 = (if IsEligibleForPreopen oflag then s4
                            else ClosePreopenedFilesWithResolvedPathLocked vt resolved s4)
                  in (Ret fd, s5)
              | (Err e, s3) \<Rightarrow> (case remove_file_stream vt fd s3 of Ret s4 \<Rightarrow> (Err e, s4) | _ \<Rightarrow> (Fatal, s3))
              | (Fatal, s3) \<Rightarrow> (Fatal, s3))"

text \<open>A cached descriptor is returned as it is, even the -1 of a failed attempt (without an error number).\<close>

definition OpenLocked ::
  "base_lib \<Rightarrow> 'a world_scheme vfs handler_ops \<Rightarrow> 'a world_scheme vtable \<Rightarrow> string \<Rightarrow> u32 \<Rightarrow> u32 \<Rightarrow> bool \<Rightarrow>
   'a world_scheme vfs list \<Rightarrow> (int, 'a world_scheme) path_call" where
  "OpenLocked B H vt pathname oflag cmode use_preopened wakeups s =
     do {
       resolved \<leftarrow> GetNormalizedPathLocked B H s kResolveSymlinks pathname;
       if use_preopened \<and> IsEligibleForPreopen oflag
       then do {
         (cached, s1) \<leftarrow> take_preopened resolved s wakeups;
         (case cached of
            Some fd \<Rightarrow> Some (Ret fd, s1)
          | None \<Rightarrow> Some (open_fresh H vt resolved oflag cmode s1))
       }
       else Some (open_fresh H vt resolved oflag cmode s)
     }"

definition vfs_open ::
  "base_lib \<Rightarrow> 'a world_scheme vfs handler_ops \<Rightarrow> 'a world_scheme vtable \<Rightarrow> string \<Rightarrow> u32 \<Rightarrow> u32 \<Rightarrow>
   'a world_scheme vfs list \<Rightarrow> (int, 'a world_scheme) path_call" where
  "vfs_open B H vt pathname oflag cmode wakeups s = OpenLocked B H vt pathname oflag cmode True wakeups s"

definition SchedulePreopen :: "base_lib \<Rightarrow> 'w vfs handler_ops \<Rightarrow> string \<Rightarrow> (unit, 'w) path_call" where
  "SchedulePreopen B H path s =
     (if v_preopen_started s then Some (Fatal, s)
      else do {
        resolved \<leftarrow> GetNormalizedPathLocked B H s kResolveSymlinks path;
        Some (Ret (), s\<lparr>v_scheduled_preopens := v_scheduled_preopens s @ [resolved],
                         v_preopened_fds := v_preopened_fds s @ [(resolved, kPreopenPendingFd)]\<rparr>)
      })"

definition Broadcast :: "'w vfs \<Rightarrow> 'w vfs" where
  "Broadcast s = s\<lparr>v_broadcasts := v_broadcasts s + 1\<rparr>"

definition fd_of_open :: "int outcome \<Rightarrow> int" where
  "fd_of_open r = (case r of Ret fd \<Rightarrow> fd | _ \<Rightarrow> - 1)"

text \<open>One round of the preopen thread's loop, and the loop.\<close>

definition perform_one ::
  "base_lib \<Rightarrow> 'a world_scheme vfs handler_ops \<Rightarrow> 'a world_scheme vtable \<Rightarrow> string \<Rightarrow> 'a world_scheme vfs \<Rightarrow> 'a world_scheme vfs option" where
  "perform_one B H vt resolved s =
     (if (resolved, kPreopenPendingFd) \<in> set (v_preopened_fds s)
      then do {
        (r, s1) \<leftarrow> OpenLocked B H vt resolved 0 0 False [] s;
        Some (Broadcast (s1\<lparr>v_preopened_fds := fill_pending resolved (fd_of_open r) (v_preopened_fds s1)\<rparr>))
      }
      else Some s)"

fun perform_preopens ::
  "base_lib \<Rightarrow> 'a world_scheme vfs handler_ops \<Rightarrow> 'a world_scheme vtable \<Rightarrow> string list \<Rightarrow> 'a world_scheme vfs \<Rightarrow> 'a world_scheme vfs option" where
  "perform_preopens B H vt [] s = Some s"
| "perform_preopens B H vt (resolved # rest) s =
     do { s1 \<leftarrow> perform_one B H vt resolved s; perform_preopens B H vt rest s1 }"

definition PerformPreopens ::
  "base_lib \<Rightarrow> 'a world_scheme vfs handler_ops \<Rightarrow> 'a world_scheme vtable \<Rightarrow> 'a world_scheme vfs \<Rightarrow> 'a world_scheme vfs option" where
  "PerformPreopens B H vt s = perform_preopens B H vt (v_scheduled_preopens s) s"

text \<open>Starting the thread only marks it as started; its work is \<open>PerformPreopens\<close>.\<close>

definition StartPreopenLocked :: "'w vfs \<Rightarrow> unit outcome \<times> 'w vfs" where
  "StartPreopenLocked s = (if v_preopen_started s then (Fatal, s) else (Ret (), s\<lparr>v_preopen_started := True\<rparr>))"

definition SetBrowserReady :: "bool \<Rightarrow> 'w vfs \<Rightarrow> unit outcome \<times> 'w vfs" where
  "SetBrowserReady enable_preopen s =
     (let s1 = s\<lparr>v_browser_ready := True\<rparr> in
      case (if enable_preopen then StartPreopenLocked s1 else (Ret (), s1)) of
        (Ret _, s2) \<Rightarrow> (Ret (), Broadcast s2)
      | r \<Rightarrow> r)"

section \<open>File attributes\<close>

definition StatLocked :: "base_lib \<Rightarrow> 'w vfs handler_ops \<Rightarrow> string \<Rightarrow> (stat_buf, 'w) path_call" where
  "StatLocked B H pathname s =
     do {
       resolved \<leftarrow> GetNormalizedPathLocked B H s kResolveSymlinks pathname;
       Some (case GetFileSystemHandlerLocked H resolved s of
               (None, s1) \<Rightarrow> (Err ENOENT, s1)
             | (Some (handler, permission), s1) \<Rightarrow>
                 (case ho_stat H handler resolved s1 of
                    (Ret out, s2) \<Rightarrow> (Ret (FillPermissionInfoToStat permission out), s2)
                  | r \<Rightarrow> r))
     }"

definition vfs_stat :: "base_lib \<Rightarrow> 'w vfs handler_ops \<Rightarrow> string \<Rightarrow> (stat_buf, 'w) path_call" where
  "vfs_stat B H pathname = StatLocked B H pathname"

text \<open>A missing handler is dereferenced, which aborts the process.\<close>

definition vfs_lstat :: "base_lib \<Rightarrow> 'w vfs handler_ops \<Rightarrow> string \<Rightarrow> (stat_buf, 'w) path_call" where
  "vfs_lstat B H pathname s =
     do {
       normalized \<leftarrow> GetNormalizedPathLocked B H s kResolveParentSymlinks pathname;
       (case mm_GetFileSystemHandler (v_mounts s) normalized 0 of
          (None, _) \<Rightarrow> Some (Fatal, s)
        | (Some handler, _) \<Rightarrow>
            (case ho_readlink H handler normalized s of
               None \<Rightarrow> StatLocked B H normalized s
             | Some resolved \<Rightarrow>
                 let (ino, s1) = GetInodeUncheckedLocked normalized s in
                 Some (Ret \<lparr>st_ino = ino, st_mode = S_IFLNK OR 0x1FF, st_uid = kRootUid, st_gid = kRootGid,
                            st_nlink = 1, st_size = int (length resolved), st_blksize = 4096, st_mtime = 0\<rparr>, s1)))
     }"

definition vfs_readlink :: "base_lib \<Rightarrow> 'w vfs handler_ops \<Rightarrow> string \<Rightarrow> nat \<Rightarrow> (string, 'w) path_call" where
  "vfs_readlink B H pathname bufsiz s =
     do {
       normalized \<leftarrow> GetNormalizedPathLocked B H s kResolveParentSymlinks pathname;
       Some (case mm_GetFileSystemHandler (v_mounts s) normalized 0 of
               (None, _) \<Rightarrow> (Err ENOENT, s)
             | (Some handler, _) \<Rightarrow>
                 (case ho_readlink H handler normalized s of
                    Some resolved \<Rightarrow> (Ret (take bufsiz resolved), s)
                  | None \<Rightarrow>
                      (case ho_stat H handler normalized s of
                         (Ret st, s1) \<Rightarrow> (Err EINVAL, s1)
                       | (Err e, s1) \<Rightarrow> (Err ENOENT, s1)
                       | (Fatal, s1) \<Rightarrow> (Fatal, s1))))
     }"

definition vfs_statfs :: "base_lib \<Rightarrow> 'w vfs handler_ops \<Rightarrow> string \<Rightarrow> (statfs_buf, 'w) path_call" where
  "vfs_statfs B H pathname s =
     do {
       resolved \<leftarrow> GetNormalizedPathLocked B H s kResolveSymlinks pathname;
       Some (case GetFileSystemHandlerLocked H resolved s of
               (None, s1) \<Rightarrow> (Err ENOENT, s1)
             | (Some (handler, _), s1) \<Rightarrow> ho_statfs H handler resolved s1)
     }"

record statvfs_buf =
  vf_bsize :: int
  vf_frsize :: int
  vf_blocks :: int
  vf_bfree :: int
  vf_bavail :: int
  vf_files :: int
  vf_ffree :: int
  vf_favail :: int
  vf_fsid :: int
  vf_flag :: int
  vf_namemax :: int

definition to_statvfs :: "statfs_buf \<Rightarrow> statvfs_buf" where
  "to_statvfs b =
     \<lparr>vf_bsize = f_bsize b, vf_frsize = f_bsize b, vf_blocks = f_blocks b, vf_bfree = f_bfree b,
      vf_bavail = f_bavail b, vf_files = f_files b, vf_ffree = f_ffree b, vf_favail = f_ffree b,
      vf_fsid = hd (f_fsid b), vf_flag = 0, vf_namemax = f_namelen b\<rparr>"

definition vfs_statvfs :: "base_lib \<Rightarrow> 'w vfs handler_ops \<Rightarrow> string \<Rightarrow> (statvfs_buf, 'w) path_call" where
  "vfs_statvfs B H pathname s =
     map_option (\<lambda>(r, s'). (case r of Ret b \<Rightarrow> Ret (to_statvfs b) | Err e \<Rightarrow> Err e | Fatal \<Rightarrow> Fatal, s'))
       (vfs_statfs B H pathname s)"

definition W_OK :: u32 where "W_OK = 2"
definition X_OK :: u32 where "X_OK = 1"

definition vfs_access :: "base_lib \<Rightarrow> 'w vfs handler_ops \<Rightarrow> string \<Rightarrow> u32 \<Rightarrow> (int, 'w) path_call" where
  "vfs_access B H pathname mode s =
     map_option (\<lambda>(r, s'). (case r of
         Err e \<Rightarrow> Err e
       | Fatal \<Rightarrow> Fatal
       | Ret st \<Rightarrow>
           if mode AND W_OK \<noteq> 0 \<and> st_mode st AND S_IWOTH = 0 \<and> IsAppUid (v_uid s') \<and> \<not> IsAppUid (st_uid st)
           then Err EACCES
           else if mode AND X_OK \<noteq> 0 \<and> st_mode st AND S_IXUSR = 0 then Err EACCES
           else Ret 0, s'))
       (StatLocked B H pathname s)"

definition PATH_MAX :: nat where "PATH_MAX = 4096"

definition vfs_realpath :: "base_lib \<Rightarrow> 'w vfs handler_ops \<Rightarrow> string option \<Rightarrow> (string, 'w) path_call" where
  "vfs_realpath B H path s =
     (case path of
        None \<Rightarrow> Some (Err EINVAL, s)
      | Some p \<Rightarrow>
          do {
            (r, s1) \<leftarrow> StatLocked B H p s;
            (case r of
               Err e \<Rightarrow> Some (Err e, s1)
             | Fatal \<Rightarrow> Some (Fatal, s1)
             | Ret _ \<Rightarrow>
                 do {
                   resolved \<leftarrow> GetNormalizedPathLocked B H s1 kResolveSymlinks p;
                   Some (if PATH_MAX \<le> length resolved then Err ENAMETOOLONG else Ret resolved, s1)
                 })
          })"

section \<open>Changing the tree\<close>

text \<open>
  The calls share one shape: resolve the path, find the handler, deny access when the path is
  not writable, otherwise let the handler do it.
\<close>

definition modify_path ::
  "base_lib \<Rightarrow> 'w vfs handler_ops \<Rightarrow> normalize_option \<Rightarrow> (hid \<Rightarrow> string \<Rightarrow> 'w vfs \<Rightarrow> int outcome \<times> 'w vfs) \<Rightarrow>
   (hid \<Rightarrow> string \<Rightarrow> 'w vfs \<Rightarrow> int outcome \<times> 'w vfs) \<Rightarrow> string \<Rightarrow> (int, 'w) path_call" where
  "modify_path B H option deny call pathname s =
     do {
       resolved \<leftarrow> GetNormalizedPathLocked B H s option pathname;
       Some (case GetFileSystemHandlerLocked H resolved s of
               (None, s1) \<Rightarrow> (Err ENOENT, s1)
             | (Some (handler, permission), s1) \<Rightarrow>
                 if \<not> is_writable permission then deny handler resolved s1 else call handler resolved s1)
     }"

abbreviation deny_modify :: "'w vfs handler_ops \<Rightarrow> hid \<Rightarrow> string \<Rightarrow> 'w vfs \<Rightarrow> int outcome \<times> 'w vfs" where
  "deny_modify H \<equiv> (\<lambda>handler path. DenyAccessForModifyLocked H path handler)"

definition vfs_mkdir :: "base_lib \<Rightarrow> 'w vfs handler_ops \<Rightarrow> string \<Rightarrow> u32 \<Rightarrow> (int, 'w) path_call" where
  "vfs_mkdir B H pathname mode =
     modify_path B H kResolveSymlinks
       (\<lambda>handler resolved s.
          case ho_stat H handler resolved s of
            (Ret st, s1) \<Rightarrow> (Err EEXIST, s1)
          | (Err e, s1) \<Rightarrow> DenyAccessForCreateLocked H resolved handler s1
          | (Fatal, s1) \<Rightarrow> (Fatal, s1))
       (\<lambda>handler resolved. ho_mkdir H handler resolved mode) pathname"

definition vfs_remove ::
  "base_lib \<Rightarrow> 'a world_scheme vfs handler_ops \<Rightarrow> 'a world_scheme vtable \<Rightarrow> string \<Rightarrow> (int, 'a world_scheme) path_call" where
  "vfs_remove B H vt pathname =
     modify_path B H kResolveParentSymlinks (deny_modify H)
       (\<lambda>handler resolved s. ho_remove H handler resolved (ClosePreopenedFilesWithResolvedPathLocked vt resolved s)) pathname"

definition vfs_unlink ::
  "base_lib \<Rightarrow> 'a world_scheme vfs handler_ops \<Rightarrow> 'a world_scheme vtable \<Rightarrow> string \<Rightarrow> (int, 'a world_scheme) path_call" where
  "vfs_unlink B H vt pathname =
     modify_path B H kResolveParentSymlinks (deny_modify H)
       (\<lambda>handler resolved s. ho_unlink H handler resolved (ClosePreopenedFilesWithResolvedPathLocked vt resolved s)) pathname"

definition vfs_rmdir :: "base_lib \<Rightarrow> 'w vfs handler_ops \<Rightarrow> string \<Rightarrow> (int, 'w) path_call" where
  "vfs_rmdir B H pathname =
     modify_path B H kResolveSymlinks (deny_modify H) (\<lambda>handler resolved. ho_rmdir H handler resolved) pathname"

definition vfs_truncate :: "base_lib \<Rightarrow> 'w vfs handler_ops \<Rightarrow> string \<Rightarrow> int \<Rightarrow> (int, 'w) path_call" where
  "vfs_truncate B H pathname len =
     modify_path B H kResolveSymlinks (deny_modify H) (\<lambda>handler resolved. ho_truncate H handler resolved len) pathname"

record utimbuf =
  actime :: int
  modtime :: int

definition vfs_utime :: "base_lib \<Rightarrow> 'w vfs handler_ops \<Rightarrow> string \<Rightarrow> utimbuf \<Rightarrow> (int, 'w) path_call" where
  "vfs_utime B H pathname ts =
     modify_path B H kResolveSymlinks (deny_modify H)
       (\<lambda>handler resolved. ho_utimes H handler resolved
          (\<lparr>tv_sec = actime ts, tv_usec = 0\<rparr>, \<lparr>tv_sec = modtime ts, tv_usec = 0\<rparr>)) pathname"

definition vfs_utimes :: "base_lib \<Rightarrow> 'w vfs handler_ops \<Rightarrow> string \<Rightarrow> timeval \<times> timeval \<Rightarrow> (int, 'w) path_call" where
  "vfs_utimes B H pathname ts =
     modify_path B H kResolveSymlinks (deny_modify H) (\<lambda>handler resolved. ho_utimes H handler resolved ts) pathname"

text \<open>
  When renaming is denied, both paths are examined and the error is the strongest one found:
  \<^verbatim>\<open>ENOTDIR\<close> before \<^verbatim>\<open>ENOENT\<close> before \<^verbatim>\<open>EACCES\<close>.
\<close>

definition rename_denied :: "'w vfs handler_ops \<Rightarrow> string \<Rightarrow> string \<Rightarrow> hid \<Rightarrow> 'w vfs \<Rightarrow> int outcome \<times> 'w vfs" where
  "rename_denied H resolved_oldpath resolved_newpath handler s =
     (case DenyAccessForModifyLocked H resolved_oldpath handler s of
        (Err oldpath_errno, s1) \<Rightarrow>
          (case DenyAccessForCreateLocked H resolved_newpath handler s1 of
             (Err newpath_errno, s2) \<Rightarrow>
               (Err (if oldpath_errno = ENOTDIR \<or> newpath_errno = ENOTDIR then ENOTDIR
                     else if oldpath_errno = ENOENT \<or> newpath_errno = ENOENT then ENOENT
                     else EACCES), s2)
           | r \<Rightarrow> r)
      | r \<Rightarrow> r)"

definition vfs_rename ::
  "base_lib \<Rightarrow> 'a world_scheme vfs handler_ops \<Rightarrow> 'a world_scheme vtable \<Rightarrow> string \<Rightarrow> string \<Rightarrow> (int, 'a world_scheme) path_call" where
  "vfs_rename B H vt oldpath newpath s =
     do {
       resolved_oldpath \<leftarrow> GetNormalizedPathLocked B H s kResolveSymlinks oldpath;
       (case GetFileSystemHandlerLocked H resolved_oldpath s of
          (None, s1) \<Rightarrow> Some (Err ENOENT, s1)
        | (Some (handler, permission_old), s1) \<Rightarrow>
            do {
              resolved_newpath \<leftarrow> GetNormalizedPathLocked B H s1 kResolveSymlinks newpath;
              (case GetFileSystemHandlerLocked H resolved_newpath s1 of
                 (None, s2) \<Rightarrow> Some (Err ENOENT, s2)
               | (Some (another_handler, permission_new), s2) \<Rightarrow>
                   if handler \<noteq> another_handler then Some (Err EXDEV, s2)
                   else if resolved_newpath = resolved_oldpath
                   then map_option (\<lambda>(r, s3). (case r of Ret _ \<Rightarrow> Ret 0 | Err e \<Rightarrow> Err e | Fatal \<Rightarrow> Fatal, s3))
                          (StatLocked B H resolved_newpath s2)
                   else if \<not> is_writable permission_old \<or> \<not> is_writable permission_new
                   then Some (rename_denied H resolved_oldpath resolved_newpath handler s2)
                   else
                     let s3 = ClosePreopenedFilesWithResolvedPathLocked vt resolved_newpath
                                (ClosePreopenedFilesWithResolvedPathLocked vt resolved_oldpath s2)
                     in Some (ho_rename H handler resolved_oldpath resolved_newpath s3))
            })
     }"

definition vfs_symlink :: "base_lib \<Rightarrow> 'w vfs handler_ops \<Rightarrow> string \<Rightarrow> string \<Rightarrow> (int, 'w) path_call" where
  "vfs_symlink B H oldpath newpath s =
     do {
       resolved_newpath \<leftarrow> GetNormalizedPathLocked B H s kResolveSymlinks newpath;
       let parent = GetDirName resolved_newpath;
       Some (case GetFileSystemHandlerLocked H resolved_newpath s of
               (None, s1) \<Rightarrow> (Err ENOENT, s1)
             | (Some (handler, permission_new), s1) \<Rightarrow>
                 (case ho_stat H handler parent s1 of
                    (Ret st, s2) \<Rightarrow>
                      if \<not> is_writable permission_new then
                        (case ho_stat H handler resolved_newpath s2 of
                           (Ret st', s3) \<Rightarrow> (Err EEXIST, s3)
                         | (Err e, s3) \<Rightarrow> DenyAccessForModifyLocked H parent handler s3
                         | (Fatal, s3) \<Rightarrow> (Fatal, s3))
                      else ho_symlink H handler oldpath resolved_newpath s2
                  | (Err e, s2) \<Rightarrow> (Err ENOENT, s2)
                  | (Fatal, s2) \<Rightarrow> (Fatal, s2)))
     }"

section \<open>The process environment\<close>

definition vfs_umask :: "u32 \<Rightarrow> 'w vfs \<Rightarrow> u32 \<times> 'w vfs" where
  "vfs_umask new_mask s = (v_umask s, s\<lparr>v_umask := new_mask\<rparr>)"

text \<open>The loop of \<^verbatim>\<open>chdir\<close> drops all trailing slashes, so the root becomes the empty path.\<close>

definition strip_slashes :: "string \<Rightarrow> string" where
  "strip_slashes path = rev (dropWhile (\<lambda>c. c = CHR ''/'') (rev path))"

definition vfs_chdir :: "base_lib \<Rightarrow> 'w vfs handler_ops \<Rightarrow> string \<Rightarrow> (int, 'w) path_call" where
  "vfs_chdir B H path s =
     (if path = [] then Some (Err ENOENT, s)
      else do {
        new_path \<leftarrow> (if strip_slashes path = [] then Some []
                      else GetNormalizedPathLocked B H s kResolveSymlinks (strip_slashes path));
        (r, s1) \<leftarrow> (if new_path = [] then Some (Ret (), s)
                    else map_option (\<lambda>(r, s1).
                           (case r of
                              Err e \<Rightarrow> Err e
                            | Fatal \<Rightarrow> Fatal
                            | Ret st \<Rightarrow> if S_ISDIR (st_mode st) then Ret () else Err ENOTDIR, s1))
                         (StatLocked B H new_path s));
        Some (case r of
                Ret _ \<Rightarrow> (Ret 0, s1\<lparr>v_cwd := new_path @ ''/''\<rparr>)
              | Err e \<Rightarrow> (Err e, s1)
              | Fatal \<Rightarrow> (Fatal, s1))
      })"

text \<open>\<open>buf\<close> says whether a buffer was passed, \<open>malloc_ok\<close> whether allocating one succeeds.\<close>

definition vfs_getcwd :: "bool \<Rightarrow> bool \<Rightarrow> nat \<Rightarrow> 'w vfs \<Rightarrow> string outcome" where
  "vfs_getcwd malloc_ok buf sz s =
     (let path_length = (if 1 < length (v_cwd s) then length (v_cwd s) - 1 else length (v_cwd s)) in
      if buf \<and> sz = 0 then Err EINVAL
      else if sz \<le> path_length \<and> (buf \<or> sz \<noteq> 0) then Err ERANGE
      else if \<not> buf \<and> \<not> malloc_ok then Err ENOMEM
      else Ret (take path_length (v_cwd s)))"

section \<open>Mount points\<close>

definition lift_mounts :: "((hid mount_point_manager \<times> 'w vfs) outcome) \<Rightarrow> 'w vfs \<Rightarrow> unit outcome \<times> 'w vfs" where
  "lift_mounts r s =
     (case r of Ret (mm, s') \<Rightarrow> (Ret (), s'\<lparr>v_mounts := mm\<rparr>) | Err e \<Rightarrow> (Err e, s) | Fatal \<Rightarrow> (Fatal, s))"

definition Mount :: "'w vfs handler_ops \<Rightarrow> string \<Rightarrow> hid \<Rightarrow> 'w vfs \<Rightarrow> unit outcome \<times> 'w vfs" where
  "Mount H path handler s = lift_mounts (mm_Add (ho_OnMounted H) path handler (v_mounts s, s)) s"

definition Unmount :: "'w vfs handler_ops \<Rightarrow> string \<Rightarrow> 'w vfs \<Rightarrow> 'w vfs" where
  "Unmount H path s = (let (mm, s') = mm_Remove (ho_OnUnmounted H) path (v_mounts s, s) in s'\<lparr>v_mounts := mm\<rparr>)"

definition ChangeMountPointOwner :: "'w vfs handler_ops \<Rightarrow> string \<Rightarrow> u32 \<Rightarrow> 'w vfs \<Rightarrow> unit outcome \<times> 'w vfs" where
  "ChangeMountPointOwner H path owner_uid s =
     lift_mounts (mm_ChangeOwner (ho_OnMounted H) path owner_uid (v_mounts s, s)) s"

text \<open>The owner is changed under the path as it was given, not under the resolved one.\<close>

definition vfs_chown :: "base_lib \<Rightarrow> 'w vfs handler_ops \<Rightarrow> string \<Rightarrow> u32 \<Rightarrow> u32 \<Rightarrow> (int, 'w) path_call" where
  "vfs_chown B H path owner gid s =
     (if IsAppUid (v_uid s) then Some (Err EPERM, s)
      else do {
        resolved \<leftarrow> GetNormalizedPathLocked B H s kResolveSymlinks path;
        (r, s1) \<leftarrow> StatLocked B H path s;
        Some (case r of
                Err e \<Rightarrow> (Err e, s1)
              | Fatal \<Rightarrow> (Fatal, s1)
              | Ret st \<Rightarrow>
                  (case ChangeMountPointOwner H
                          (if S_ISDIR (st_mode st) \<and> \<not> EndsWithSlash path then path @ ''/'' else path) owner s1 of
                     (Ret _, s2) \<Rightarrow> (Ret 0, s2)
                   | (Err e, s2) \<Rightarrow> (Err e, s2)
                   | (Fatal, s2) \<Rightarrow> (Fatal, s2)))
      })"

definition vfs_InvalidateCache :: "'w vfs handler_ops \<Rightarrow> 'w vfs \<Rightarrow> 'w vfs" where
  "vfs_InvalidateCache H s = fold (\<lambda>h. ho_InvalidateCache H h) (mm_GetAllFileSystemHandlers (v_mounts s)) s"

definition vfs_AddToCache :: "base_lib \<Rightarrow> 'w vfs handler_ops \<Rightarrow> string \<Rightarrow> pp_file_info \<Rightarrow> bool \<Rightarrow> 'w vfs \<Rightarrow> 'w vfs option" where
  "vfs_AddToCache B H path file_info exists s =
     do {
       resolved \<leftarrow> GetNormalizedPathLocked B H s kResolveSymlinks path;
       Some (case mm_GetFileSystemHandler (v_mounts s) path 0 of
               (Some handler, _) \<Rightarrow> ho_AddToCache H handler path file_info exists s
             | (None, _) \<Rightarrow> s)
     }"

section \<open>Handlers whose reading functions leave the descriptor table alone\<close>

text \<open>
  What opening a file relies on: initialising a handler, looking at an attribute and opening a
  file do not bind or release descriptors, nor do they change reference counts.
\<close>

definition same_fds :: "'a world_scheme vfs \<Rightarrow> 'a world_scheme vfs \<Rightarrow> bool" where
  "same_fds s s' \<longleftrightarrow> v_fds s' = v_fds s \<and>
     (\<forall>t. fs_file_ref_count (w_streams (v_world s') t) = fs_file_ref_count (w_streams (v_world s) t) \<and>
          fs_had_file_refs (w_streams (v_world s') t) = fs_had_file_refs (w_streams (v_world s) t))"

lemma same_fds_refl [simp]: "same_fds s s"
  by (simp add: same_fds_def)

lemma same_fds_trans: "same_fds s t \<Longrightarrow> same_fds t u \<Longrightarrow> same_fds s u"
  by (simp add: same_fds_def)

lemma same_fds_ok: "same_fds s s' \<Longrightarrow> fds_ok s \<Longrightarrow> fds_ok s'"
  by (simp add: same_fds_def fds_ok_def refs_exact_def)

lemma same_fds_bound: "same_fds s s' \<Longrightarrow> bound s' = bound s"
  by (simp add: same_fds_def bound_def)

lemma set_permission_same [simp]: "same_fds s (set_permission p st s)"
  by (simp add: same_fds_def set_permission_def)

locale quiet_handlers =
  fixes H :: "'a world_scheme vfs handler_ops"
  assumes init_quiet: "same_fds s (ho_Initialize H h s)"
    and stat_quiet: "same_fds s (snd (ho_stat H h p s))"
    and open_quiet: "same_fds s (snd (ho_open H h fd p f m s))"
begin

lemma get_handler_quiet: "GetFileSystemHandlerLocked H p s = (r, s') \<Longrightarrow> same_fds s s'"
  using init_quiet by (auto simp: GetFileSystemHandlerLocked_def Let_def split: prod.splits option.splits if_splits)

lemma deny_quiet: "same_fds s (snd (DenyAccessForModifyLocked H p h s))"
  using stat_quiet [of s h p] by (auto simp: DenyAccessForModifyLocked_def split: prod.splits outcome.splits)

lemma open_denied_quiet: "same_fds s (snd (open_denied H p f h s))"
  using stat_quiet [of s h p]
  by (auto simp: open_denied_def DenyAccessForCreateLocked_def split: prod.splits outcome.splits
      intro: deny_quiet same_fds_trans [OF _ deny_quiet])

lemma open_denied_fails: "fst (open_denied H p f h s) \<noteq> Ret fd"
  by (auto simp: open_denied_def DenyAccessForCreateLocked_def DenyAccessForModifyLocked_def split: prod.splits outcome.splits)

lemma open_fresh_cases:
  assumes vt: "quiet_vtable vt" and ok: "fds_ok s" and r: "open_fresh H vt resolved oflag cmode s = (r, s')" and nf: "r \<noteq> Fatal"
  shows "(\<exists>e. r = Err e \<and> bound s' = bound s \<and> fds_ok s') \<or>
    (\<exists>fd st s4. r = Ret fd \<and> 0 \<le> fd \<and> bound s fd = None \<and> fds_ok s4 \<and> bound s4 = (bound s)(fd \<mapsto> Some st) \<and>
       s' = (if IsEligibleForPreopen oflag then s4 else ClosePreopenedFilesWithResolvedPathLocked vt resolved s4))"
proof (cases "GetFileSystemHandlerLocked H resolved s")
  case (Pair hp s1)
  have q1: "same_fds s s1" by (rule get_handler_quiet [OF Pair])
  have ok1: "fds_ok s1" and b1: "bound s1 = bound s" using same_fds_ok [OF q1 ok] same_fds_bound [OF q1] by auto
  show ?thesis
  proof (cases hp)
    case None
    with r Pair ok1 b1 show ?thesis by (auto simp: open_fresh_def)
  next
    case (Some x)
    obtain handler permission where x: "hp = Some (handler, permission)" using Some by (cases x) auto
    let ?deny = "(oflag AND O_ACCMODE \<noteq> O_RDONLY \<or> oflag AND (O_CREAT OR O_TRUNC) \<noteq> 0) \<and> \<not> is_writable permission"
    show ?thesis
    proof (cases ?deny)
      case True
      then have "open_denied H resolved oflag handler s1 = (r, s')" using r Pair x by (simp add: open_fresh_def)
      with open_denied_quiet [of s1 resolved oflag handler] open_denied_fails [of resolved oflag handler s1]
      have "same_fds s1 s'" "\<exists>e. r = Err e" using nf by (auto, metis outcome.exhaust)
      then show ?thesis using ok1 b1 same_fds_ok same_fds_bound by metis
    next
      case False
      obtain fd s2 where g: "GetFirstUnusedDescriptorLocked s1 = (fd, s2)" by fastforce
      note e = GetFirstUnusedDescriptorLocked_effect [OF ok1 g]
      show ?thesis
      proof (cases "fd < 0")
        case True
        with r Pair x False g e b1 show ?thesis by (auto simp: open_fresh_def)
      next
        case pos: False
        have ok2: "fds_ok s2" and b2: "bound s1 fd = None" "bound s2 = (bound s1)(fd \<mapsto> None)" using e pos by auto
        obtain o' s3 where op: "ho_open H handler fd resolved oflag cmode s2 = (o', s3)" by fastforce
        have q3: "same_fds s2 s3" using open_quiet [of s2 handler fd resolved oflag cmode] op by simp
        have ok3: "fds_ok s3" and b3: "bound s3 = bound s2" using same_fds_ok [OF q3 ok2] same_fds_bound [OF q3] by auto
        have k: "bound s3 fd \<noteq> None" "GetStream fd (v_fds s3) = None"
          using b2 b3 by (auto simp: GetStream_bound)
        from remove_file_stream_effect [OF vt ok3 k(1)] obtain s4 where
          s4: "remove_file_stream vt fd s3 = Ret s4" "fds_ok s4" "bound s4 = (bound s3)(fd := None)" by auto
        have b4: "bound s4 = bound s" using s4(3) b1 b2 b3 by (auto simp: fun_eq_iff)
        show ?thesis
        proof (cases o')
          case (Ret st)
          let ?p = "set_permission permission st s3"
          have okp: "fds_ok ?p" and bp: "bound ?p = bound s3"
            using same_fds_ok [OF set_permission_same ok3] same_fds_bound [OF set_permission_same] by auto
          have gp: "GetStream fd (v_fds ?p) = None" using k(2) by (simp add: GetStream_bound bp)
          from add_file_stream_effect [OF okp gp, of "Some st"] pos
          have "fds_ok (add_file_stream fd (Some st) ?p)" "bound (add_file_stream fd (Some st) ?p) = (bound s)(fd \<mapsto> Some st)"
            using bp b1 b2 b3 by auto
          moreover have "r = Ret fd" "s' = (let s4 = add_file_stream fd (Some st) ?p in
               if IsEligibleForPreopen oflag then s4 else ClosePreopenedFilesWithResolvedPathLocked vt resolved s4)"
            using r Pair x False g pos op Ret by (auto simp: open_fresh_def Let_def)
          ultimately show ?thesis using pos b1 b2 by (auto simp: Let_def)
        next
          case (Err er)
          then have "r = Err er" "s' = s4" using r Pair x False g pos op s4(1) by (auto simp: open_fresh_def)
          then show ?thesis using b4 s4(2) by blast
        next
          case Fatal
          with r nf Pair x False g pos op show ?thesis by (auto simp: open_fresh_def)
        qed
      qed
    qed
  qed
qed

end

interpretation root_quiet: quiet_handlers "root_handler :: 'a world_scheme vfs handler_ops"
  by unfold_locales (simp_all add: root_handler_def)

lemma fold_close_effect:
  assumes vt: "quiet_vtable vt" and ok: "fds_ok s"
  shows "let s' = fold (\<lambda>(p, fd) s. if p = path \<and> 0 \<le> fd then snd (CloseLocked vt fd s) else s) entries s in
    fds_ok s' \<and> v_preopened_fds s' = v_preopened_fds s \<and>
    (\<forall>x. GetStream x (v_fds s') = (if 0 \<le> x \<and> (path, x) \<in> set entries then None else GetStream x (v_fds s)))"
  using ok
proof (induction entries arbitrary: s)
  case (Cons e entries)
  obtain p fd where e: "e = (p, fd)" by (cases e)
  define c where "c = (if p = path \<and> 0 \<le> fd then snd (CloseLocked vt fd s) else s)"
  have pre: "v_preopened_fds (snd (CloseLocked vt fd s)) = v_preopened_fds s"
    by (auto simp: CloseLocked_def remove_file_stream_def split: option.splits outcome.splits prod.splits)
  have c: "fds_ok c" "v_preopened_fds c = v_preopened_fds s"
    "GetStream x (v_fds c) = (if p = path \<and> 0 \<le> fd \<and> x = fd then None else GetStream x (v_fds s))" for x
    using CloseLocked_effect [OF vt Cons.prems, of fd] Cons.prems pre by (auto simp: c_def GetStream_bound split: if_splits)
  let ?F = "\<lambda>(p, fd) s. if p = path \<and> 0 \<le> fd then snd (CloseLocked vt fd s) else s"
  have step: "fold ?F (e # entries) s = fold ?F entries c" by (simp add: e c_def)
  from Cons.IH [OF c(1)] show ?case
    unfolding Let_def step by (auto simp: c e)
qed simp

section \<open>Paths only depend on the links\<close>

lemma ResolveSymlinks_cong:
  "link_target H s = link_target H' s \<Longrightarrow> ResolveSymlinks H s = ResolveSymlinks H' s"
proof (rule ext)
  fix p
  assume eq: "link_target H s = link_target H' s"
  show "ResolveSymlinks H s p = ResolveSymlinks H' s p"
  proof (cases "ResolveSymlinks H s p")
    case (Some q)
    with ResolveSymlinks_sound [OF Some] eq show ?thesis
      using ResolveSymlinks_complete [of H' s] by auto
  next
    case None
    then show ?thesis
      using ResolveSymlinks_sound [of H' s p] ResolveSymlinks_complete [of H s] eq
      by (cases "ResolveSymlinks H' s p") auto
  qed
qed

lemma normalize_loop_cong:
  assumes "link_target H s = link_target H' s"
  shows "normalize_loop H s o' ds path = normalize_loop H' s o' ds path"
proof (induction ds arbitrary: path)
  case (Cons d ds)
  then have "normalize_loop H s o' ds = normalize_loop H' s o' ds" by (rule ext)
  then show ?case
    by (simp only: normalize_loop.simps Let_def ResolveSymlinks_cong [OF assms] cong: option.case_cong)
qed simp

lemma GetNormalizedPathLocked_cong:
  "link_target H s = link_target H' s \<Longrightarrow> GetNormalizedPathLocked B H s o' p = GetNormalizedPathLocked B H' s o' p"
  unfolding GetNormalizedPathLocked_def Let_def by (simp add: normalize_loop_cong [of H s H'])

text \<open>A handler record with every function that changes the tree replaced.\<close>

definition with_mutators where
  "with_mutators H f1 f2 f3 f4 f5 f6 f7 f8 =
     H\<lparr>ho_mkdir := f1, ho_rmdir := f2, ho_truncate := f3, ho_utimes := f4, ho_remove := f5, ho_unlink := f6,
       ho_rename := f7, ho_symlink := f8\<rparr>"

lemma with_mutators_path:
  "GetNormalizedPathLocked B (with_mutators H f1 f2 f3 f4 f5 f6 f7 f8) s o' p = GetNormalizedPathLocked B H s o' p"
  "GetFileSystemHandlerLocked (with_mutators H f1 f2 f3 f4 f5 f6 f7 f8) p s = GetFileSystemHandlerLocked H p s"
  "DenyAccessForModifyLocked (with_mutators H f1 f2 f3 f4 f5 f6 f7 f8) = (DenyAccessForModifyLocked H :: string \<Rightarrow> hid \<Rightarrow> _ \<Rightarrow> 'r outcome \<times> _)"
  "ho_stat (with_mutators H f1 f2 f3 f4 f5 f6 f7 f8) = ho_stat H"
  "DenyAccessForCreateLocked (with_mutators H f1 f2 f3 f4 f5 f6 f7 f8) = (DenyAccessForCreateLocked H :: string \<Rightarrow> hid \<Rightarrow> _ \<Rightarrow> 'r outcome \<times> _)"
proof -
  have "link_target (with_mutators H f1 f2 f3 f4 f5 f6 f7 f8) s = link_target H s"
    by (auto simp: fun_eq_iff link_target_def with_mutators_def split: option.split prod.split)
  then show "GetNormalizedPathLocked B (with_mutators H f1 f2 f3 f4 f5 f6 f7 f8) s o' p = GetNormalizedPathLocked B H s o' p"
    by (rule GetNormalizedPathLocked_cong)
  show "GetFileSystemHandlerLocked (with_mutators H f1 f2 f3 f4 f5 f6 f7 f8) p s = GetFileSystemHandlerLocked H p s"
    by (simp add: GetFileSystemHandlerLocked_def with_mutators_def split: option.split prod.split)
qed (simp_all add: GetFileSystemHandlerLocked_def DenyAccessForModifyLocked_def DenyAccessForCreateLocked_def with_mutators_def fun_eq_iff)

lemma deny_is_error:
  "ho_stat H h p s = (r, s') \<Longrightarrow> r \<noteq> Fatal \<Longrightarrow> \<exists>e. DenyAccessForModifyLocked H p h s = (Err e, s')"
  by (cases r) (auto simp: DenyAccessForModifyLocked_def)

section \<open>Properties\<close>


text \<open>An app's process in the small file system without links, where only \<open>/x\<close> exists.\<close>

definition plain_handler :: "'w vfs handler_ops" where
  "plain_handler = root_handler\<lparr>ho_readlink := \<lambda>h p s. FileSystemHandler_readlink,
     ho_stat := \<lambda>h p s. (if p = ''/x'' then Ret \<lparr>st_ino = 1, st_mode = S_IFREG, st_uid = 0, st_gid = 0,
                            st_nlink = 1, st_size = 0, st_blksize = 0, st_mtime = 0\<rparr> else Err ENOENT, s)\<rparr>"

definition app_vfs :: "world vfs" where
  "app_vfs = (root_vfs small_world)\<lparr>v_uid := 10000\<rparr>"

lemma plain_no_links: "link_target plain_handler s = (\<lambda>_. None)"
  by (auto simp: fun_eq_iff link_target_def plain_handler_def FileSystemHandler_readlink_def split: prod.split option.split)

lemma plain_normalize:
  assumes "clean_components p" "IsAbsolutePath p" "abs_path (lexical [] (norm_components p)) = q"
  shows "GetNormalizedPathLocked chromium_base plain_handler s o' p = Some q"
  using normalize_absolute [OF chromium.base_strings_axioms assms(1,2) plain_no_links] assms(3) by simp

lemma plain_x: "GetNormalizedPathLocked chromium_base plain_handler s o' ''/x'' = Some ''/x''"
  by (rule plain_normalize) code_simp+

lemma root_mount: "mm_GetFileSystemHandler (v_mounts app_vfs) ''/x'' 0 = (Some 0, kRootUid)"
  by code_simp

lemma app_handler_x:
  assumes "ho_IsInitialized H 0 app_vfs" "\<not> ho_IsWorldWritable H 0 ''/x'' app_vfs"
  shows "GetFileSystemHandlerLocked H ''/x'' app_vfs = (Some (0, \<lparr>file_uid = kRootUid, is_writable = False\<rparr>), app_vfs)"
proof -
  have "IsAppUid (v_uid app_vfs)" "kRootUid \<noteq> v_uid app_vfs"
    by (simp_all add: app_vfs_def IsAppUid_def kFirstAppUid_def kRootUid_def)
  with assms show ?thesis by (simp add: GetFileSystemHandlerLocked_def root_mount)
qed

lemma plain_handler_x:
  "GetFileSystemHandlerLocked plain_handler ''/x'' app_vfs = (Some (0, \<lparr>file_uid = kRootUid, is_writable = False\<rparr>), app_vfs)"
  by (rule app_handler_x) (simp_all add: plain_handler_def root_handler_def FileSystemHandler_IsInitialized_def)




text \<open>
  Invalidating the cache of files opened in advance (which \<open>unlink\<close>, \<open>remove\<close>, \<open>rename\<close> and
  an \<open>open\<close> that may change the file do): no entry for the path is left, every descriptor
  cached for it is closed, the entries of other paths and the other descriptors stay, and the
  table stays consistent.
\<close>

theorem ClosePreopenedFiles_invalidates:
  assumes "quiet_vtable vt" and "fds_ok s"
  shows "let s' = ClosePreopenedFilesWithResolvedPathLocked vt path s in
    fds_ok s' \<and> map_of (v_preopened_fds s') path = None \<and>
    filter (\<lambda>(p, fd). p \<noteq> path) (v_preopened_fds s') = filter (\<lambda>(p, fd). p \<noteq> path) (v_preopened_fds s) \<and>
    (\<forall>x. GetStream x (v_fds s') = (if 0 \<le> x \<and> (path, x) \<in> set (v_preopened_fds s) then None else GetStream x (v_fds s)))"
proof -
  define s1 where "s1 = fold (\<lambda>(p, fd) s. if p = path \<and> 0 \<le> fd then snd (CloseLocked vt fd s) else s) (v_preopened_fds s) s"
  have e: "fds_ok s1" "v_preopened_fds s1 = v_preopened_fds s"
    "\<forall>x. GetStream x (v_fds s1) = (if 0 \<le> x \<and> (path, x) \<in> set (v_preopened_fds s) then None else GetStream x (v_fds s))"
    using fold_close_effect [OF assms, of path "v_preopened_fds s"] unfolding Let_def s1_def by blast+
  have "fds_ok (s1\<lparr>v_preopened_fds := l\<rparr>)" for l using e(1) by (simp add: fds_ok_def)
  moreover have "map_of (filter (\<lambda>(p, fd). p \<noteq> path) l) path = None" for l :: "(string \<times> int) list"
    by (induction l) auto
  ultimately show ?thesis
    using e(2,3) unfolding ClosePreopenedFilesWithResolvedPathLocked_def Let_def s1_def [symmetric] by simp
qed

theorem ClosePreopenedFiles_invalidates_witness:
  "GetStream 0 (v_fds (ClosePreopenedFilesWithResolvedPathLocked FileStream_vtable ''/x''
     (small_vfs\<lparr>v_preopened_fds := [(''/x'', 0), (''/y'', - 1)]\<rparr>))) = None"
proof -
  let ?s = "small_vfs\<lparr>v_preopened_fds := [(''/x'', 0), (''/y'', - 1)]\<rparr>"
  have "fds_ok ?s" using small_vfs_ok by (simp add: fds_ok_def)
  from ClosePreopenedFiles_invalidates [OF base_vt.quiet_vtable_axioms this, of "''/x''"] show ?thesis
    by (simp add: Let_def)
qed

lemma erase_first_count:
  "map_of m p = Some fd \<Longrightarrow> length (filter (\<lambda>(q, f). q = p) (erase_first p m)) + 1 = length (filter (\<lambda>(q, f). q = p) m)
    \<and> filter (\<lambda>(q, f). q \<noteq> p) (erase_first p m) = filter (\<lambda>(q, f). q \<noteq> p) m"
  by (induction p m rule: erase_first.induct) (auto split: if_splits)

text \<open>
  A file opened in advance is handed out once: when \<open>open\<close> takes a descriptor from the
  cache, in whatever state the last wake-up found, that descriptor was the first entry of the
  path, exactly this entry is gone afterwards and nothing else has changed. A wait ends only
  when the entry is no longer pending.
\<close>

theorem take_preopened_once:
  assumes "take_preopened p s wakeups = Some (Some fd, s')"
  shows "\<exists>t \<in> set (s # wakeups). map_of (v_preopened_fds t) p = Some fd \<and> fd \<noteq> kPreopenPendingFd \<and>
    s' = t\<lparr>v_preopened_fds := v_preopened_fds s'\<rparr> \<and>
    length (filter (\<lambda>(q, f). q = p) (v_preopened_fds s')) + 1 = length (filter (\<lambda>(q, f). q = p) (v_preopened_fds t)) \<and>
    filter (\<lambda>(q, f). q \<noteq> p) (v_preopened_fds s') = filter (\<lambda>(q, f). q \<noteq> p) (v_preopened_fds t)"
  using assms
proof (induction p s wakeups rule: take_preopened.induct)
  case (1 p s wakeups)
  show ?case
  proof (cases "map_of (v_preopened_fds s) p")
    case None
    with "1.prems" show ?thesis by (subst (asm) take_preopened.simps) simp
  next
    case (Some f)
    show ?thesis
    proof (cases "f = kPreopenPendingFd")
      case True
      with "1.prems" Some obtain t rest where w: "wakeups = t # rest" "take_preopened p t rest = Some (Some fd, s')"
        by (subst (asm) take_preopened.simps) (auto split: list.splits)
      from "1.IH" [OF Some _ w] True show ?thesis unfolding w(1) by auto
    next
      case False
      with "1.prems" Some have "fd = f" "s' = s\<lparr>v_preopened_fds := erase_first p (v_preopened_fds s)\<rparr>"
        by (subst (asm) take_preopened.simps, simp)+
      then show ?thesis using Some False erase_first_count [OF Some] by auto
    qed
  qed
qed

theorem take_preopened_once_witness:
  "\<exists>s'. take_preopened ''/x'' (small_vfs\<lparr>v_preopened_fds := [(''/x'', 0)]\<rparr>) [] = Some (Some 0, s')
     \<and> filter (\<lambda>(q, f). q = ''/x'') (v_preopened_fds s') = []"
proof -
  let ?s = "small_vfs\<lparr>v_preopened_fds := [(''/x'', 0)]\<rparr>"
  obtain s' where r: "take_preopened ''/x'' ?s [] = Some (Some 0, s')"
    by (simp add: take_preopened.simps kPreopenPendingFd_def)
  from take_preopened_once [OF r] have "length (filter (\<lambda>(q, f). q = ''/x'') (v_preopened_fds s')) = 0" by simp
  with r show ?thesis by simp
qed

text \<open>
  \<open>getcwd\<close> undoes \<open>chdir\<close>: after a successful \<open>chdir\<close> to a path, \<open>getcwd\<close> with a buffer that
  is large enough (or with a null buffer and size zero) returns the normalised path, without
  a trailing slash unless it is the root.
\<close>

theorem chdir_getcwd:
  assumes "vfs_chdir B H path s = Some (Ret n, s')"
    and "strip_slashes path \<noteq> []" and "GetNormalizedPathLocked B H s kResolveSymlinks (strip_slashes path) = Some q"
    and "q \<noteq> []" and "length q < sz"
  shows "vfs_getcwd malloc_ok True sz s' = Ret q \<and> vfs_getcwd True False 0 s' = Ret q"
proof -
  have "path \<noteq> []" using assms(2) by (auto simp: strip_slashes_def)
  with assms have "v_cwd s' = q @ ''/''"
    by (cases "StatLocked B H q s")
      (auto simp: vfs_chdir_def split: outcome.splits if_splits)
  with assms(4,5) show ?thesis by (simp add: vfs_getcwd_def)
qed

definition dir_handler :: "'w vfs handler_ops" where
  "dir_handler = plain_handler\<lparr>ho_stat := \<lambda>h p s. (Ret \<lparr>st_ino = 1, st_mode = S_IFDIR, st_uid = 0, st_gid = 0,
     st_nlink = 1, st_size = 0, st_blksize = 0, st_mtime = 0\<rparr>, s)\<rparr>"

lemma dir_x: "GetNormalizedPathLocked chromium_base dir_handler s o' ''/x'' = Some ''/x''"
proof -
  have l: "link_target dir_handler s = (\<lambda>_. None)"
    by (auto simp: fun_eq_iff link_target_def dir_handler_def plain_handler_def FileSystemHandler_readlink_def split: prod.split option.split)
  have c: "clean_components ''/x''" "IsAbsolutePath ''/x''" and n: "abs_path (lexical [] (norm_components ''/x'')) = ''/x''"
    by code_simp+
  show ?thesis using normalize_absolute [OF chromium.base_strings_axioms c l, of o'] n by simp
qed

theorem chdir_getcwd_witness:
  "\<exists>s'. vfs_chdir chromium_base dir_handler ''/x//'' app_vfs = Some (Ret 0, s') \<and> vfs_getcwd True True 10 s' = Ret ''/x''"
proof -
  have sp: "strip_slashes ''/x//'' = ''/x''" by code_simp
  have g: "GetFileSystemHandlerLocked dir_handler ''/x'' app_vfs = (Some (0, \<lparr>file_uid = kRootUid, is_writable = False\<rparr>), app_vfs)"
    by (rule app_handler_x) (simp_all add: dir_handler_def plain_handler_def root_handler_def FileSystemHandler_IsInitialized_def)
  have d: "S_ISDIR (st_mode (FillPermissionInfoToStat \<lparr>file_uid = kRootUid, is_writable = False\<rparr> \<lparr>st_ino = 1, st_mode = S_IFDIR,
      st_uid = 0, st_gid = 0, st_nlink = 1, st_size = 0, st_blksize = 0, st_mtime = 0\<rparr>))"
    by code_simp
  have st: "StatLocked chromium_base dir_handler ''/x'' app_vfs =
      Some (Ret (FillPermissionInfoToStat \<lparr>file_uid = kRootUid, is_writable = False\<rparr> \<lparr>st_ino = 1, st_mode = S_IFDIR,
      st_uid = 0, st_gid = 0, st_nlink = 1, st_size = 0, st_blksize = 0, st_mtime = 0\<rparr>), app_vfs)"
    by (simp add: StatLocked_def dir_x g) (simp add: dir_handler_def)
  have c: "vfs_chdir chromium_base dir_handler ''/x//'' app_vfs = Some (Ret 0, app_vfs\<lparr>v_cwd := ''/x/''\<rparr>)"
    using d by (simp add: vfs_chdir_def sp dir_x st)
  from chdir_getcwd [OF c, of "''/x''" 10 True] c show ?thesis by (simp add: sp dir_x)
qed

lemma no_handler_relative:
  assumes "path \<noteq> []" "CHR ''/'' \<notin> set path" "map_of (mount_point_map mm) path = None" "map_of (mount_point_map mm) (path @ ''/'') = None"
  shows "fst (mm_GetFileSystemHandler mm path uid) = None"
proof -
  have n: "\<not> EndsWithSlash path" using assms(2) by (cases path rule: rev_cases) auto
  have r: "rfind CHR ''/'' (path @ ''/'') (Some (length path - 1)) = None"
    using assms(1,2) by (auto simp: rfind_def find_rev_upt_None nth_append dest: nth_mem)
  have "GetDirNameInPlace (path @ ''/'') = kCurrentDirectory"
    using assms(1) r by (cases path) (simp_all add: GetDirNameInPlace_def Let_def EndsWithSlash_def)
  then have "mount_search mm path = Inr ''.''"
    using n assms(4) by (subst mount_search.simps) (simp add: EnsurePathEndsWithSlash_def kCurrentDirectory_def Let_def)
  then show ?thesis using assms(1,3) by (simp add: mm_GetFileSystemHandler_def)
qed

text \<open>
  C37. \<open>chown\<close> of a file by a relative name aborts the process: the code resolves the path for
  the existence check but then changes the owner under the name as given, for which no mount
  point is found.
\<close>

theorem chown_relative_aborts:
  assumes "\<not> IsAppUid (v_uid s)" and "GetNormalizedPathLocked B H s kResolveSymlinks path \<noteq> None"
    and "StatLocked B H path s = Some (Ret st, s1)" and "\<not> S_ISDIR (st_mode st)"
    and "path \<noteq> []" and "CHR ''/'' \<notin> set path"
    and "map_of (mount_point_map (v_mounts s1)) path = None" and "map_of (mount_point_map (v_mounts s1)) (path @ ''/'') = None"
  shows "vfs_chown B H path owner gid s = Some (Fatal, s1)"
proof -
  have "fst (mm_GetFileSystemHandler (v_mounts s1) path 0) = None" by (rule no_handler_relative [OF assms(5-8)])
  then have "mm_ChangeOwner (ho_OnMounted H) path owner (v_mounts s1, s1) = Fatal"
    using assms(7) by (auto simp: mm_ChangeOwner_def Let_def split: prod.splits)
  then have "ChangeMountPointOwner H path owner s1 = (Fatal, s1)" by (simp add: ChangeMountPointOwner_def lift_mounts_def)
  with assms(1-4) show ?thesis by (auto simp: vfs_chown_def)
qed

theorem chown_relative_aborts_witness:
  "\<exists>s1. vfs_chown chromium_base plain_handler ''x'' 0 0 (app_vfs\<lparr>v_uid := 0\<rparr>) = Some (Fatal, s1)"
proof -
  let ?s = "app_vfs\<lparr>v_uid := 0\<rparr>"
  have sl: "ResolveSymlinks plain_handler s p = Some p" for s and p :: string
    by (rule ResolveSymlinks_plain) (simp add: plain_no_links)
  have cwd: "v_cwd ?s = ''/''" by (simp add: app_vfs_def root_vfs_def VirtualFileSystem_def)
  have t: "RemoveTrailingSlashes ''x'' = ''x''" "RemoveSingleDotsAndRedundantSlashes chromium_base ''x'' = ''x''"
    "SplitString chromium_base ''/x'' CHR ''/'' = [[], ''x'']"
    by code_simp+
  have n: "GetNormalizedPathLocked chromium_base plain_handler ?s kResolveSymlinks ''x'' = Some ''/x''"
    by (simp add: GetNormalizedPathLocked_def Let_def t cwd sl)
  have "mm_GetFileSystemHandler (v_mounts ?s) ''/x'' 0 = (Some 0, kRootUid)" using root_mount by simp
  then have g: "GetFileSystemHandlerLocked plain_handler ''/x'' ?s = (Some (0, \<lparr>file_uid = kRootUid, is_writable = True\<rparr>), ?s)"
    by (simp add: GetFileSystemHandlerLocked_def plain_handler_def root_handler_def FileSystemHandler_IsInitialized_def
        IsAppUid_def kFirstAppUid_def)
  let ?st = "FillPermissionInfoToStat \<lparr>file_uid = kRootUid, is_writable = True\<rparr> \<lparr>st_ino = 1, st_mode = S_IFREG, st_uid = 0, st_gid = 0,
      st_nlink = 1, st_size = 0, st_blksize = 0, st_mtime = 0\<rparr>"
  have st: "StatLocked chromium_base plain_handler ''x'' ?s = Some (Ret ?st, ?s)"
    by (simp add: StatLocked_def n g) (simp add: plain_handler_def)
  have nd: "\<not> S_ISDIR (st_mode ?st)" by code_simp
  have u: "\<not> IsAppUid (v_uid ?s)" by (simp add: IsAppUid_def kFirstAppUid_def)
  have m: "map_of (mount_point_map (v_mounts ?s)) ''x'' = None" "map_of (mount_point_map (v_mounts ?s)) (''x'' @ ''/'') = None"
    by (simp_all add: app_vfs_def root_vfs_def VirtualFileSystem_def)
  from chown_relative_aborts [OF u _ st nd _ _ m] n show ?thesis by auto
qed

text \<open>
  \<open>lstat\<close> of the empty path aborts the process (it uses the handler without checking that
  there is one), in every state and for all handlers, where \<open>stat\<close> reports \<^verbatim>\<open>ENOENT\<close>.
\<close>

theorem lstat_empty_aborts:
  "vfs_lstat B H [] s = Some (Fatal, s) \<and> vfs_stat B H [] s = Some (Err ENOENT, s)"
proof -
  have t: "RemoveTrailingSlashes [] = []" by (subst RemoveTrailingSlashes.simps) simp
  have "GetNormalizedPathLocked B H s o' [] = Some []" for o'
    by (simp add: GetNormalizedPathLocked_def t Let_def RemoveSingleDotsAndRedundantSlashes_def)
  then show ?thesis
    by (simp add: vfs_lstat_def vfs_stat_def StatLocked_def mm_GetFileSystemHandler_def GetFileSystemHandlerLocked_def)
qed

end
