(* ===== verification/Socket_Stream.thy ===== *)
theory Socket_Stream
  imports Vfs_Fds Time_Util
begin

text \<open>
  The base class of sockets and its options: \<^verbatim>\<open>src/src/posix_translation/socket_stream.cc\<close>
  and the checks of \<^verbatim>\<open>socket_util.cc\<close> it uses. Option values are copied as raw memory, so they
  are lists of bytes; an \<^verbatim>\<open>int\<close> is four bytes, little endian. A null pointer is \<open>None\<close>.
\<close>

section \<open>Integers in memory\<close>

definition int_bytes :: "int \<Rightarrow> byte list" where
  "int_bytes x = map (\<lambda>i. word_of_int (x div 256 ^ i)) [0 ..< 4]"

definition bytes_int :: "byte list \<Rightarrow> int" where
  "bytes_int bs = signed_take_bit 31 (\<Sum>i < 4. uint (bs ! i) * 256 ^ i)"

definition timeval_bytes :: "timeval \<Rightarrow> byte list" where
  "timeval_bytes t = int_bytes (tv_sec t) @ int_bytes (tv_usec t)"

definition bytes_timeval :: "byte list \<Rightarrow> timeval" where
  "bytes_timeval bs = \<lparr>tv_sec = bytes_int bs, tv_usec = bytes_int (drop 4 bs)\<rparr>"

section \<open>Checks of arguments\<close>

text \<open>An error number, or \<open>None\<close> for zero. \<open>optlen\<close> is the pointed-to length.\<close>

definition VerifyGetSocketOption :: "bool \<Rightarrow> int option \<Rightarrow> errno option" where
  "VerifyGetSocketOption optval_given optlen =
     (case optlen of
        None \<Rightarrow> Some EFAULT
      | Some len \<Rightarrow> if len < 0 then Some EINVAL else if len \<noteq> 0 \<and> \<not> optval_given then Some EFAULT else None)"

definition VerifySetSocketOption :: "bool \<Rightarrow> int \<Rightarrow> int \<Rightarrow> errno option" where
  "VerifySetSocketOption optval_given optlen expected_optlen =
     (if optlen < expected_optlen then Some EINVAL else if \<not> optval_given then Some EFAULT else None)"

definition VerifyTimeoutSocketOption :: "timeval \<Rightarrow> errno option" where
  "VerifyTimeoutSocketOption timeout =
     (if tv_usec timeout < 0 \<or> 1000000 \<le> tv_usec timeout then Some EDOM else None)"

definition VerifyOutputSocketAddress :: "bool \<Rightarrow> int option \<Rightarrow> errno option" where
  "VerifyOutputSocketAddress addr_given addrlen =
     (case addrlen of
        None \<Rightarrow> Some EFAULT
      | Some len \<Rightarrow> if len < 0 then Some EINVAL else if len \<noteq> 0 \<and> \<not> addr_given then Some EFAULT else None)"

text \<open>The bytes stored at \<open>optval\<close> (none through a null pointer) and the new length.\<close>

definition CopySocketOption :: "byte list \<Rightarrow> bool \<Rightarrow> int \<Rightarrow> byte list \<times> int" where
  "CopySocketOption storage optval_given optlen =
     (let len = min optlen (int (length storage)) in (if optval_given then take (nat len) storage else [], len))"

section \<open>The class\<close>

record socket_stream =
  ss_family :: int
  ss_broadcast :: "byte list"
  ss_error :: "byte list"
  ss_reuse_addr :: "byte list"
  ss_recv_buffer_size :: "byte list"
  ss_send_buffer_size :: "byte list"
  ss_linger :: "byte list"
  ss_recv_timeout :: int
  ss_send_timeout :: int

definition SocketStream :: "int \<Rightarrow> socket_stream" where
  "SocketStream socket_family =
     \<lparr>ss_family = socket_family, ss_broadcast = int_bytes 0, ss_error = int_bytes 0, ss_reuse_addr = int_bytes 0,
      ss_recv_buffer_size = int_bytes 0, ss_send_buffer_size = int_bytes 0, ss_linger = int_bytes 0 @ int_bytes 0,
      ss_recv_timeout = 0, ss_send_timeout = 0\<rparr>"

text \<open>The mode is that of a socket, open to all.\<close>

definition SocketStream_fstat :: "stat_buf outcome" where
  "SocketStream_fstat =
     Ret \<lparr>st_ino = 0, st_mode = 0xC000 OR 0x1FF, st_uid = 0, st_gid = 0, st_nlink = 1, st_size = 0, st_blksize = 4096, st_mtime = 0\<rparr>"

definition SocketStream_fdatasync :: "int outcome" where "SocketStream_fdatasync = Err EINVAL"
definition SocketStream_fsync :: "int outcome" where "SocketStream_fsync = Err EINVAL"

definition SOL_SOCKET :: int where "SOL_SOCKET = 1"
definition SO_REUSEADDR :: int where "SO_REUSEADDR = 2"
definition SO_ERROR :: int where "SO_ERROR = 4"
definition SO_BROADCAST :: int where "SO_BROADCAST = 6"
definition SO_SNDBUF :: int where "SO_SNDBUF = 7"
definition SO_RCVBUF :: int where "SO_RCVBUF = 8"
definition SO_LINGER :: int where "SO_LINGER = 13"
definition SO_PASSCRED :: int where "SO_PASSCRED = 16"
definition SO_PEERCRED :: int where "SO_PEERCRED = 17"
definition SO_RCVTIMEO :: int where "SO_RCVTIMEO = 20"
definition SO_SNDTIMEO :: int where "SO_SNDTIMEO = 21"
definition IPPROTO_IPV6 :: int where "IPPROTO_IPV6 = 41"
definition IPV6_MULTICAST_HOPS :: int where "IPV6_MULTICAST_HOPS = 18"

lemmas so_consts = SOL_SOCKET_def SO_REUSEADDR_def SO_ERROR_def SO_BROADCAST_def SO_SNDBUF_def SO_RCVBUF_def
  SO_LINGER_def SO_PASSCRED_def SO_PEERCRED_def SO_RCVTIMEO_def SO_SNDTIMEO_def IPPROTO_IPV6_def IPV6_MULTICAST_HOPS_def

definition kMinSocketBuffSize :: int where "kMinSocketBuffSize = 128"
definition kMaxSocketBuffSize :: int where "kMaxSocketBuffSize = 4 * 1024 * 1024"

text \<open>Which member an option is stored in; \<open>No_storage\<close> is the option that is ignored.\<close>

datatype opt_storage = St_error | St_reuse_addr | St_recv_buffer | St_send_buffer | St_broadcast | St_linger | No_storage

definition GetOptNameData :: "int \<Rightarrow> int \<Rightarrow> byte list option \<Rightarrow> int \<Rightarrow> (int \<times> opt_storage) option" where
  "GetOptNameData level optname user_data user_data_len =
     (if level = SOL_SOCKET then
        (if optname = SO_ERROR then Some (4, St_error)
         else if optname = SO_REUSEADDR then Some (4, St_reuse_addr)
         else if optname = SO_RCVBUF \<or> optname = SO_SNDBUF then
           (if user_data \<noteq> None \<and> 4 \<le> user_data_len \<and>
               (bytes_int (the user_data) < kMinSocketBuffSize \<or> kMaxSocketBuffSize < bytes_int (the user_data))
            then None
            else Some (4, if optname = SO_RCVBUF then St_recv_buffer else St_send_buffer))
         else if optname = SO_BROADCAST then Some (4, St_broadcast)
         else if optname = SO_LINGER then Some (8, St_linger)
         else None)
      else if level = IPPROTO_IPV6 \<and> optname = IPV6_MULTICAST_HOPS then Some (4, No_storage)
      else None)"

definition load_option :: "opt_storage \<Rightarrow> socket_stream \<Rightarrow> byte list option" where
  "load_option st ss =
     (case st of
        St_error \<Rightarrow> Some (ss_error ss) | St_reuse_addr \<Rightarrow> Some (ss_reuse_addr ss)
      | St_recv_buffer \<Rightarrow> Some (ss_recv_buffer_size ss) | St_send_buffer \<Rightarrow> Some (ss_send_buffer_size ss)
      | St_broadcast \<Rightarrow> Some (ss_broadcast ss) | St_linger \<Rightarrow> Some (ss_linger ss) | No_storage \<Rightarrow> None)"

definition store_option :: "opt_storage \<Rightarrow> byte list \<Rightarrow> socket_stream \<Rightarrow> socket_stream" where
  "store_option st bs ss =
     (case st of
        St_error \<Rightarrow> ss\<lparr>ss_error := bs\<rparr> | St_reuse_addr \<Rightarrow> ss\<lparr>ss_reuse_addr := bs\<rparr>
      | St_recv_buffer \<Rightarrow> ss\<lparr>ss_recv_buffer_size := bs\<rparr> | St_send_buffer \<Rightarrow> ss\<lparr>ss_send_buffer_size := bs\<rparr>
      | St_broadcast \<Rightarrow> ss\<lparr>ss_broadcast := bs\<rparr> | St_linger \<Rightarrow> ss\<lparr>ss_linger := bs\<rparr> | No_storage \<Rightarrow> ss)"

definition GetTimeoutSocketOption :: "int \<Rightarrow> bool \<Rightarrow> int option \<Rightarrow> (byte list \<times> int) outcome" where
  "GetTimeoutSocketOption value optval_given optlen =
     (case VerifyGetSocketOption optval_given optlen of
        Some e \<Rightarrow> Err e
      | None \<Rightarrow>
          let value_timeval = (if 0 < value then TimeDeltaToTimeVal value else \<lparr>tv_sec = 0, tv_usec = 0\<rparr>)
          in Ret (CopySocketOption (timeval_bytes value_timeval) optval_given (the optlen)))"

definition SetTimeoutSocketOption :: "byte list option \<Rightarrow> int \<Rightarrow> int outcome" where
  "SetTimeoutSocketOption optval optlen =
     (case VerifySetSocketOption (optval \<noteq> None) optlen 8 of
        Some e \<Rightarrow> Err e
      | None \<Rightarrow>
          let timeout = bytes_timeval (the optval)
          in case VerifyTimeoutSocketOption timeout of Some e \<Rightarrow> Err e | None \<Rightarrow> Ret (TimeValToTimeDelta timeout))"

text \<open>The result is what is stored at \<open>optval\<close> and the new length.\<close>

definition SocketStream_getsockopt :: "socket_stream \<Rightarrow> int \<Rightarrow> int \<Rightarrow> bool \<Rightarrow> int option \<Rightarrow> (byte list \<times> int) outcome" where
  "SocketStream_getsockopt ss level optname optval_given optlen =
     (if level = SOL_SOCKET \<and> optname = SO_RCVTIMEO then GetTimeoutSocketOption (ss_recv_timeout ss) optval_given optlen
      else if level = SOL_SOCKET \<and> optname = SO_SNDTIMEO then GetTimeoutSocketOption (ss_send_timeout ss) optval_given optlen
      else
        case optlen of
          None \<Rightarrow> Err EFAULT
        | Some olen \<Rightarrow>
            (case GetOptNameData level optname None 0 of
               None \<Rightarrow> Err EINVAL
             | Some (len, storage) \<Rightarrow>
                 if olen < len \<and> optval_given then Err EINVAL
                 else Ret (if optval_given
                           then (case load_option storage ss of Some bs \<Rightarrow> bs | None \<Rightarrow> replicate (nat len) 0)
                           else [], len)))"

definition SocketStream_setsockopt :: "int \<Rightarrow> int \<Rightarrow> byte list option \<Rightarrow> int \<Rightarrow> socket_stream \<Rightarrow> int outcome \<times> socket_stream" where
  "SocketStream_setsockopt level optname optval optlen ss =
     (if level = SOL_SOCKET \<and> optname = SO_RCVTIMEO then
        (case SetTimeoutSocketOption optval optlen of
           Ret t \<Rightarrow> (Ret 0, ss\<lparr>ss_recv_timeout := t\<rparr>) | Err e \<Rightarrow> (Err e, ss) | Fatal \<Rightarrow> (Fatal, ss))
      else if level = SOL_SOCKET \<and> optname = SO_SNDTIMEO then
        (case SetTimeoutSocketOption optval optlen of
           Ret t \<Rightarrow> (Ret 0, ss\<lparr>ss_send_timeout := t\<rparr>) | Err e \<Rightarrow> (Err e, ss) | Fatal \<Rightarrow> (Fatal, ss))
      else
        case GetOptNameData level optname optval optlen of
          None \<Rightarrow> (Err EINVAL, ss)
        | Some (len, storage) \<Rightarrow>
            if optlen < len then (Err EINVAL, ss)
            else (Ret 0, case optval of Some bs \<Rightarrow> store_option storage (take (nat len) bs) ss | None \<Rightarrow> ss))"

definition FIONBIO :: u32 where "FIONBIO = 0x5421"

text \<open>\<^verbatim>\<open>FIONBIO\<close> switches non-blocking mode; every other request is the base class's.\<close>

definition SocketStream_ioctl :: "u32 \<Rightarrow> int \<Rightarrow> file_stream \<Rightarrow> int outcome \<times> file_stream" where
  "SocketStream_ioctl request val f =
     (if request = FIONBIO
      then (Ret 0, f\<lparr>fs_oflag := (if val \<noteq> 0 then fs_oflag f OR O_NONBLOCK else fs_oflag f AND NOT O_NONBLOCK)\<rparr>)
      else (FileStream_ioctl, f))"

section \<open>Library lemmas\<close>

lemma length_int_bytes [simp]: "length (int_bytes x) = 4"
  by (simp add: int_bytes_def)

lemma int_bytes_nth: "i < 4 \<Longrightarrow> uint (int_bytes x ! i) = x div 256 ^ i mod 256"
  by (simp add: int_bytes_def uint_word_of_int)

lemma bytes_int_append: "length bs = 4 \<Longrightarrow> bytes_int (bs @ cs) = bytes_int bs"
  by (simp add: bytes_int_def nth_append)

lemma digit_sum:
  fixes x b :: int
  assumes "0 < b"
  shows "(\<Sum>i < n. (x div b ^ i mod b) * b ^ i) = x mod b ^ n"
proof (induction n)
  case (Suc n)
  have "x mod b ^ Suc n = b ^ n * (x div b ^ n mod b) + x mod b ^ n"
    using assms zmod_zmult2_eq [of b x "b ^ n"] by (simp add: mult.commute)
  then show ?case using Suc.IH by (simp add: mult.commute)
qed simp

lemma bytes_int_bytes:
  assumes "- (2 ^ 31) \<le> x" "x < 2 ^ 31"
  shows "bytes_int (int_bytes x) = x"
proof -
  have "(\<Sum>i < 4. uint (int_bytes x ! i) * 256 ^ i) = x mod 256 ^ 4"
    using digit_sum [where b = 256 and n = 4 and x = x] by (simp add: int_bytes_nth)
  moreover have "x mod (256 :: int) ^ 4 = take_bit 32 x" by (simp add: take_bit_eq_mod)
  ultimately have "bytes_int (int_bytes x) = signed_take_bit 31 x"
    by (simp add: bytes_int_def signed_take_bit_take_bit)
  then show ?thesis using assms by (simp add: signed_take_bit_int_eq_self)
qed

lemma length_timeval_bytes [simp]: "length (timeval_bytes t) = 8"
  by (simp add: timeval_bytes_def)

text \<open>
  C15. A receive time-out set with \<^verbatim>\<open>setsockopt\<close> from a well-formed \<^verbatim>\<open>timeval\<close> in memory is
  accepted and read back byte for byte by \<^verbatim>\<open>getsockopt\<close> when its seconds are not negative; a
  negative time-out is accepted too and reads back as zero. Microseconds outside a second are
  refused with \<^verbatim>\<open>EDOM\<close> and leave the socket as it was.
\<close>

theorem recv_timeout_roundtrip:
  assumes "- (2 ^ 31) \<le> tv_sec t" "tv_sec t < 2 ^ 31" "- (2 ^ 31) \<le> tv_usec t" "tv_usec t < 2 ^ 31"
  shows "let (r, ss') = SocketStream_setsockopt SOL_SOCKET SO_RCVTIMEO (Some (timeval_bytes t)) 8 ss
         in if 0 \<le> tv_usec t \<and> tv_usec t < 1000000
            then r = Ret 0 \<and>
                 SocketStream_getsockopt ss' SOL_SOCKET SO_RCVTIMEO True (Some 8) =
                   Ret (timeval_bytes (if 0 \<le> tv_sec t then t else \<lparr>tv_sec = 0, tv_usec = 0\<rparr>), 8)
            else r = Err EDOM \<and> ss' = ss"
proof -
  have bt: "bytes_timeval (timeval_bytes t) = t"
    using assms by (simp add: bytes_timeval_def timeval_bytes_def bytes_int_append bytes_int_bytes)
  show ?thesis
  proof (cases "0 \<le> tv_usec t \<and> tv_usec t < 1000000")
    case False
    then show ?thesis
      by (auto simp: SocketStream_setsockopt_def SetTimeoutSocketOption_def VerifySetSocketOption_def
          VerifyTimeoutSocketOption_def bt Let_def)
  next
    case True
    have zero: "t = \<lparr>tv_sec = 0, tv_usec = 0\<rparr>" if "0 \<le> tv_sec t" "\<not> 0 < TimeValToTimeDelta t"
      using that True by (cases t) (auto simp: TimeValToTimeDelta_def kMicrosecondsPerSecond_def)
    have neg: "\<not> 0 < TimeValToTimeDelta t" if "tv_sec t < 0"
      using that True by (auto simp: TimeValToTimeDelta_def kMicrosecondsPerSecond_def)
    show ?thesis
      using True assms zero neg timeval_delta_back [of t]
      by (auto simp: SocketStream_setsockopt_def SetTimeoutSocketOption_def VerifySetSocketOption_def
          VerifyTimeoutSocketOption_def bt Let_def SocketStream_getsockopt_def GetTimeoutSocketOption_def
          VerifyGetSocketOption_def CopySocketOption_def kMicrosecondsPerSecond_def not_le)
  qed
qed

theorem recv_timeout_roundtrip_witness:
  "let (r, ss') = SocketStream_setsockopt SOL_SOCKET SO_RCVTIMEO (Some (timeval_bytes \<lparr>tv_sec = 3, tv_usec = 500\<rparr>)) 8 (SocketStream 1)
   in r = Ret 0 \<and>
      SocketStream_getsockopt ss' SOL_SOCKET SO_RCVTIMEO True (Some 8) = Ret (timeval_bytes \<lparr>tv_sec = 3, tv_usec = 500\<rparr>, 8)"
  using recv_timeout_roundtrip [of "\<lparr>tv_sec = 3, tv_usec = 500\<rparr>" "SocketStream 1"] by simp

end
