(* ===== verification/Local_Sockets.thy ===== *)
theory Local_Sockets
  imports Socket_Stream Circular_Buffer Mount_Points
begin

text \<open>
  Local sockets and pipes: \<^verbatim>\<open>src/src/posix_translation/local_socket.cc\<close>, with the two tables of
  bound names, \<^verbatim>\<open>abstract_socket_namespace.cc\<close> and \<^verbatim>\<open>logd_socket_namespace.cc\<close>.

  The sockets are objects of a world that extends the world of streams; a reference to a socket is
  its number. The operations act on the state of the virtual file system, since \<^verbatim>\<open>accept\<close> adds a
  descriptor, sending descriptors duplicates them and receiving may close them. Assertions
  (\<^verbatim>\<open>ALOG_ASSERT\<close>) are compiled out. A blocking call takes the history of its wait, the states found
  at its wake-ups, and has the result \<open>None\<close> while it is still waiting.
\<close>

section \<open>Data\<close>

record ucred =
  cr_pid :: int
  cr_uid :: int
  cr_gid :: int

record datagram =
  dg_cred :: ucred
  dg_content :: "byte list"

datatype connect_state = SOCKET_NEW | SOCKET_CONNECTING | SOCKET_CONNECTED | SOCKET_LISTENING

record local_socket =
  ls_socket :: socket_stream
  ls_type :: int
  ls_state :: connect_state
  ls_dir :: local_direction
  ls_connection_queue :: "sid list"
  ls_backlog :: u32
  ls_buffer :: circular_buffer
  ls_peer :: "sid option"
  ls_queue :: "datagram list"
  ls_cmsg_fds :: "int list list"
  ls_abstract_name :: string
  ls_logd_name :: string
  ls_logd_target :: string
  ls_my_cred :: ucred
  ls_peer_cred :: ucred
  ls_pass_cred :: "byte list"

text \<open>
  The namespaces, the number of the next socket object, the process number that the process
  emulator gives the calling thread, and how often a socket broadcast on the condition variable.
  A name of the \<^verbatim>\<open>logd\<close> table may be mapped to a null pointer.
\<close>

record local_world = world +
  w_local :: "sid \<Rightarrow> local_socket"
  w_abstract :: "(string \<times> sid) list"
  w_abstract_updates :: update_producer
  w_logd :: "(string \<times> sid option) list"
  w_next :: sid
  w_pid :: int
  w_broadcasts :: nat

type_synonym 'a lvfs = "'a local_world_scheme vfs"

definition sock :: "'a lvfs \<Rightarrow> sid \<Rightarrow> local_socket" where
  "sock s i = w_local (v_world s) i"

definition upd_local :: "sid \<Rightarrow> (local_socket \<Rightarrow> local_socket) \<Rightarrow> 'a local_world_scheme \<Rightarrow> 'a local_world_scheme" where
  "upd_local i f w = w\<lparr>w_local := (w_local w)(i := f (w_local w i))\<rparr>"

definition upd_sock :: "sid \<Rightarrow> (local_socket \<Rightarrow> local_socket) \<Rightarrow> 'a lvfs \<Rightarrow> 'a lvfs" where
  "upd_sock i f s = s\<lparr>v_world := upd_local i f (v_world s)\<rparr>"

definition w_Broadcast :: "'a local_world_scheme \<Rightarrow> 'a local_world_scheme" where
  "w_Broadcast w = w\<lparr>w_broadcasts := w_broadcasts w + 1\<rparr>"

definition sys_Broadcast :: "'a lvfs \<Rightarrow> 'a lvfs" where
  "sys_Broadcast s = s\<lparr>v_world := w_Broadcast (v_world s)\<rparr>"

definition notify :: "'a local_world_scheme vtable \<Rightarrow> sid \<Rightarrow> 'a lvfs \<Rightarrow> 'a lvfs" where
  "notify vt i s = s\<lparr>v_world := NotifyListeners vt i (v_world s)\<rparr>"

definition is_block :: "sid \<Rightarrow> 'a lvfs \<Rightarrow> bool" where
  "is_block i s \<longleftrightarrow> fs_oflag (w_streams (v_world s) i) AND O_NONBLOCK = 0"

section \<open>Bound names\<close>

text \<open>\<^verbatim>\<open>AbstractSocketNamespace\<close>; the map is a hash table, so its order means nothing.\<close>

definition AbstractSocketNamespace_Bind ::
  "string \<Rightarrow> sid option \<Rightarrow> 'a local_world_scheme \<Rightarrow> int outcome \<times> 'a local_world_scheme" where
  "AbstractSocketNamespace_Bind name stream w0 =
     (let w = w0\<lparr>w_abstract_updates := ProduceUpdate (w_abstract_updates w0)\<rparr> in
      case stream of
        None \<Rightarrow> (Ret 0, w\<lparr>w_abstract := filter (\<lambda>e. fst e \<noteq> name) (w_abstract w)\<rparr>)
      | Some st \<Rightarrow>
          if map_of (w_abstract w) name = None then (Ret 0, w\<lparr>w_abstract := (name, st) # w_abstract w\<rparr>)
          else (Err EADDRINUSE, w))"

definition AbstractSocketNamespace_GetByName :: "string \<Rightarrow> 'a local_world_scheme \<Rightarrow> sid option" where
  "AbstractSocketNamespace_GetByName name w = map_of (w_abstract w) name"

definition AbstractSocketNamespace_GetAllStreams :: "'a local_world_scheme \<Rightarrow> sid list" where
  "AbstractSocketNamespace_GetAllStreams w = map snd (w_abstract w)"

definition IsNameAccepted :: "string \<Rightarrow> bool" where
  "IsNameAccepted name \<longleftrightarrow>
     name \<in> {''/dev/socket/logd'', ''/dev/socket/logdr'', ''/dev/socket/logdw'',
             ''/dev/socket/testlogd'', ''/dev/socket/testlogdr'', ''/dev/socket/testlogdw''}"

text \<open>Assignment through \<^verbatim>\<open>operator[]\<close> stores the pointer, a null one too.\<close>

definition LogdSocketNamespace_Bind ::
  "string \<Rightarrow> sid option \<Rightarrow> 'a local_world_scheme \<Rightarrow> int outcome \<times> 'a local_world_scheme" where
  "LogdSocketNamespace_Bind name stream w =
     (if \<not> IsNameAccepted name then (Err EOPNOTSUPP, w)
      else if stream \<noteq> None \<and> map_of (w_logd w) name \<noteq> None then (Err EADDRINUSE, w)
      else (Ret 0, w\<lparr>w_logd := (name, stream) # filter (\<lambda>e. fst e \<noteq> name) (w_logd w)\<rparr>))"

definition LogdSocketNamespace_GetByName :: "string \<Rightarrow> 'a local_world_scheme \<Rightarrow> sid option" where
  "LogdSocketNamespace_GetByName name w = (case map_of (w_logd w) name of None \<Rightarrow> None | Some st \<Rightarrow> st)"

section \<open>Life time\<close>

definition kBufferSize :: nat where "kBufferSize = 224 * 1024"

text \<open>\<open>uid\<close> is what the process emulator gives; \<open>uid_t\<close> is unsigned, so \<^verbatim>\<open>-1\<close> is its largest value.\<close>

definition new_local_socket :: "int \<Rightarrow> int \<Rightarrow> int \<Rightarrow> local_direction \<Rightarrow> local_socket" where
  "new_local_socket pid uid socket_type stream_dir =
     \<lparr>ls_socket = SocketStream AF_UNIX, ls_type = socket_type, ls_state = SOCKET_NEW, ls_dir = stream_dir,
      ls_connection_queue = [], ls_backlog = 0,
      ls_buffer = (if socket_type = SOCK_STREAM \<and> stream_dir \<noteq> WRITE_ONLY
                   then cb_set_capacity CircularBuffer kBufferSize else CircularBuffer),
      ls_peer = None, ls_queue = [], ls_cmsg_fds = [],
      ls_abstract_name = [], ls_logd_name = [], ls_logd_target = [],
      ls_my_cred = \<lparr>cr_pid = pid, cr_uid = uid, cr_gid = uid\<rparr>,
      ls_peer_cred = \<lparr>cr_pid = 0, cr_uid = 2 ^ 32 - 1, cr_gid = 2 ^ 32 - 1\<rparr>,
      ls_pass_cred = int_bytes 0\<rparr>"

definition LocalSocket :: "u32 \<Rightarrow> int \<Rightarrow> local_direction \<Rightarrow> 'a lvfs \<Rightarrow> sid \<times> 'a lvfs" where
  "LocalSocket oflag socket_type stream_dir s =
     (let w = v_world s; i = w_next w;
          f = (FileStream oflag [] 0)
                \<lparr>fs_permission := \<lparr>file_uid = v_uid s, is_writable = True\<rparr>, fs_is_listening_enabled := True\<rparr>
      in (i, s\<lparr>v_world := upd_local i (\<lambda>_. new_local_socket (w_pid w) (uint (v_uid s)) socket_type stream_dir)
                            (upd_stream i (\<lambda>_. f) w)\<lparr>w_next := i + 1\<rparr>\<rparr>))"

definition LocalSocket_OnLastFileRef :: "sid \<Rightarrow> 'a local_world_scheme \<Rightarrow> 'a local_world_scheme" where
  "LocalSocket_OnLastFileRef i w0 =
     (let w1 = (case ls_peer (w_local w0 i) of
                  Some p \<Rightarrow> w_Broadcast (upd_local i (\<lambda>l. l\<lparr>ls_peer := None\<rparr>) (upd_local p (\<lambda>l. l\<lparr>ls_peer := None\<rparr>) w0))
                | None \<Rightarrow> w0);
          w2 = (if ls_abstract_name (w_local w1 i) \<noteq> []
                then snd (AbstractSocketNamespace_Bind (ls_abstract_name (w_local w1 i)) None w1) else w1)
      in if ls_logd_name (w_local w2 i) \<noteq> []
         then snd (LogdSocketNamespace_Bind (ls_logd_name (w_local w2 i)) None w2) else w2)"

definition local_vtable :: "'a local_world_scheme vtable" where
  "local_vtable = \<lparr>vt_HandleNotificationFrom = (\<lambda>l st c w. w), vt_OnLastFileRef = LocalSocket_OnLastFileRef\<rparr>"

definition LocalSocket_set_peer :: "sid \<Rightarrow> sid \<Rightarrow> 'a lvfs \<Rightarrow> 'a lvfs" where
  "LocalSocket_set_peer i peer s =
     upd_sock i (\<lambda>l. l\<lparr>ls_peer := Some peer, ls_state := SOCKET_CONNECTED, ls_peer_cred := ls_my_cred (sock s peer)\<rparr>) s"

definition LocalSocket_lseek :: "int outcome" where "LocalSocket_lseek = Err ESPIPE"

section \<open>Addresses and options\<close>

text \<open>
  An address is the memory from the \<^verbatim>\<open>sockaddr\<close> on: two bytes of family, then \<^verbatim>\<open>sun_path\<close>;
  \<open>addrlen\<close> bytes of it belong to the caller.
\<close>

definition bytes_string :: "byte list \<Rightarrow> string" where
  "bytes_string bs = map (\<lambda>b. char_of (unat b)) bs"

definition sa_family :: "byte list \<Rightarrow> int" where
  "sa_family addr = uint (addr ! 0) + 256 * uint (addr ! 1)"

definition ValidateSockaddr :: "byte list \<Rightarrow> int \<Rightarrow> bool" where
  "ValidateSockaddr addr addrlen \<longleftrightarrow> sa_family addr = AF_UNIX \<and> \<not> addrlen < 2 + 1"

definition ConvertSockaddrToName :: "byte list \<Rightarrow> int \<Rightarrow> string option" where
  "ConvertSockaddrToName addr addrlen =
     (if addr ! 2 = 0 then None
      else Some (bytes_string (takeWhile (\<lambda>b. b \<noteq> 0) (take (nat (addrlen - 2)) (drop 2 addr)))))"

definition ConvertSockaddrToAbstractName :: "byte list \<Rightarrow> int \<Rightarrow> string option" where
  "ConvertSockaddrToAbstractName addr addrlen =
     (if addr ! 2 \<noteq> 0 then None else Some (bytes_string (take (nat (addrlen - 2 - 1)) (drop (2 + 1) addr))))"

definition LocalSocket_bind :: "sid \<Rightarrow> byte list \<Rightarrow> int \<Rightarrow> 'a lvfs \<Rightarrow> int outcome \<times> 'a lvfs" where
  "LocalSocket_bind i addr addrlen s =
     (if \<not> ValidateSockaddr addr addrlen then (Err EINVAL, s)
      else if ls_abstract_name (sock s i) \<noteq> [] \<or> ls_logd_name (sock s i) \<noteq> [] then (Err EINVAL, s)
      else
        case ConvertSockaddrToName addr addrlen of
          Some name \<Rightarrow>
            (case LogdSocketNamespace_Bind name (Some i) (v_world s) of
               (Ret r, w) \<Rightarrow> (Ret r, upd_sock i (\<lambda>l. l\<lparr>ls_logd_name := name\<rparr>) (s\<lparr>v_world := w\<rparr>))
             | (e, w) \<Rightarrow> (e, s\<lparr>v_world := w\<rparr>))
        | None \<Rightarrow>
            (case ConvertSockaddrToAbstractName addr addrlen of
               Some name \<Rightarrow>
                 (case AbstractSocketNamespace_Bind name (Some i) (v_world s) of
                    (Ret r, w) \<Rightarrow> (Ret r, upd_sock i (\<lambda>l. l\<lparr>ls_abstract_name := name\<rparr>) (s\<lparr>v_world := w\<rparr>))
                  | (e, w) \<Rightarrow> (e, s\<lparr>v_world := w\<rparr>))
             | None \<Rightarrow> (Err ENOSYS, s)))"

definition LocalSocket_listen :: "sid \<Rightarrow> int \<Rightarrow> 'a lvfs \<Rightarrow> int outcome \<times> 'a lvfs" where
  "LocalSocket_listen i backlog s =
     (if ls_type (sock s i) = SOCK_DGRAM then (Err EOPNOTSUPP, s)
      else if ls_abstract_name (sock s i) = [] \<and> ls_logd_name (sock s i) = [] then (Err EINVAL, s)
      else (Ret 0, upd_sock i (\<lambda>l. l\<lparr>ls_state := SOCKET_LISTENING, ls_backlog := word_of_int backlog\<rparr>) s))"

definition ucred_bytes :: "ucred \<Rightarrow> byte list" where
  "ucred_bytes c = int_bytes (cr_pid c) @ int_bytes (cr_uid c) @ int_bytes (cr_gid c)"

definition LocalSocket_getsockopt :: "sid \<Rightarrow> int \<Rightarrow> int \<Rightarrow> bool \<Rightarrow> int option \<Rightarrow> 'a lvfs \<Rightarrow> (byte list \<times> int) outcome" where
  "LocalSocket_getsockopt i level optname optval_given optlen s =
     (if level = SOL_SOCKET \<and> optname = SO_PEERCRED then
        (case VerifyGetSocketOption optval_given optlen of
           Some e \<Rightarrow> Err e
         | None \<Rightarrow> let len = min (the optlen) 12 in Ret (take (nat len) (ucred_bytes (ls_peer_cred (sock s i))), len))
      else if level = SOL_SOCKET \<and> optname = SO_PASSCRED then
        (case VerifyGetSocketOption optval_given optlen of
           Some e \<Rightarrow> Err e
         | None \<Rightarrow> let len = min (the optlen) 4 in Ret (take (nat len) (ls_pass_cred (sock s i)), len))
      else SocketStream_getsockopt (ls_socket (sock s i)) level optname optval_given optlen)"

definition LocalSocket_setsockopt :: "sid \<Rightarrow> int \<Rightarrow> int \<Rightarrow> byte list option \<Rightarrow> int \<Rightarrow> 'a lvfs \<Rightarrow> int outcome \<times> 'a lvfs" where
  "LocalSocket_setsockopt i level optname optval optlen s =
     (if level = SOL_SOCKET \<and> optname = SO_PASSCRED then
        (case VerifySetSocketOption (optval \<noteq> None) optlen 4 of
           Some e \<Rightarrow> (Err e, s)
         | None \<Rightarrow> (Ret 0, upd_sock i (\<lambda>l. l\<lparr>ls_pass_cred := take 4 (the optval)\<rparr>) s))
      else
        let (r, ss) = SocketStream_setsockopt level optname optval optlen (ls_socket (sock s i))
        in (r, upd_sock i (\<lambda>l. l\<lparr>ls_socket := ss\<rparr>) s))"

definition FIONREAD :: u32 where "FIONREAD = 0x541B"

text \<open>The second component is the integer stored through the argument, if one is.\<close>

definition LocalSocket_ioctl :: "sid \<Rightarrow> u32 \<Rightarrow> int \<Rightarrow> 'a lvfs \<Rightarrow> (int \<times> int option) outcome \<times> 'a lvfs" where
  "LocalSocket_ioctl i request val s =
     (if request = FIONREAD then
        (Ret (0, Some (if ls_type (sock s i) = SOCK_STREAM then int (cb_size (ls_buffer (sock s i)))
                       else case ls_queue (sock s i) of d # _ \<Rightarrow> int (length (dg_content d)) | [] \<Rightarrow> 0)), s)
      else
        case SocketStream_ioctl request val (w_streams (v_world s) i) of
          (Ret r, f) \<Rightarrow> (Ret (r, None), s\<lparr>v_world := upd_stream i (\<lambda>_. f) (v_world s)\<rparr>)
        | (Err e, f) \<Rightarrow> (Err e, s)
        | (Fatal, f) \<Rightarrow> (Fatal, s))"

section \<open>Readiness\<close>

definition CanRead :: "sid \<Rightarrow> 'a lvfs \<Rightarrow> bool" where
  "CanRead i s =
     (let l = sock s i in
      if ls_type l \<noteq> SOCK_DGRAM \<and> ls_peer l = None then True
      else if ls_type l = SOCK_STREAM then 0 < cb_size (ls_buffer l)
      else ls_queue l \<noteq> [])"

definition buffer_room :: "sid \<Rightarrow> 'a lvfs \<Rightarrow> bool" where
  "buffer_room p s \<longleftrightarrow> cb_size (ls_buffer (sock s p)) < cb_capacity (ls_buffer (sock s p))"

definition CanWrite :: "sid \<Rightarrow> 'a lvfs \<Rightarrow> bool" where
  "CanWrite i s =
     (case ls_peer (sock s i) of
        None \<Rightarrow> True
      | Some p \<Rightarrow> if ls_type (sock s i) = SOCK_STREAM then buffer_room p s else True)"

definition LocalSocket_GetPollEvents :: "sid \<Rightarrow> 'a lvfs \<Rightarrow> 16 word" where
  "LocalSocket_GetPollEvents i s =
     (let l = sock s i in
      case ls_state l of
        SOCKET_NEW \<Rightarrow> POLLOUT OR POLLHUP
      | SOCKET_CONNECTING \<Rightarrow> 0
      | SOCKET_CONNECTED \<Rightarrow>
          (case ls_dir l of
             READ_ONLY \<Rightarrow>
               (if 0 < cb_size (ls_buffer l) then POLLIN else 0) OR (if ls_peer l = None then POLLHUP else 0)
           | WRITE_ONLY \<Rightarrow>
               (case ls_peer l of
                  None \<Rightarrow> POLLOUT OR POLLERR
                | Some p \<Rightarrow> if buffer_room p s then POLLOUT else 0)
           | READ_WRITE \<Rightarrow>
               (if CanRead i s then POLLIN else 0) OR (if CanWrite i s then POLLOUT else 0)
               OR (if ls_type l \<noteq> SOCK_DGRAM \<and> ls_peer l = None then POLLHUP else 0))
      | SOCKET_LISTENING \<Rightarrow> if ls_connection_queue l \<noteq> [] then POLLIN OR POLLOUT else POLLOUT)"

definition LocalSocket_IsSelectReadReady :: "sid \<Rightarrow> 'a lvfs \<Rightarrow> bool" where
  "LocalSocket_IsSelectReadReady i s \<longleftrightarrow> LocalSocket_GetPollEvents i s AND (POLLIN OR POLLHUP OR POLLERR) \<noteq> 0"

definition LocalSocket_IsSelectWriteReady :: "sid \<Rightarrow> 'a lvfs \<Rightarrow> bool" where
  "LocalSocket_IsSelectWriteReady i s \<longleftrightarrow> LocalSocket_GetPollEvents i s AND (POLLOUT OR POLLERR) \<noteq> 0"

definition LocalSocket_IsSelectExceptionReady :: bool where
  "LocalSocket_IsSelectExceptionReady = False"


section \<open>Connecting\<close>

definition HandleConnectLocked :: "'a local_world_scheme vtable \<Rightarrow> sid \<Rightarrow> sid \<Rightarrow> 'a lvfs \<Rightarrow> bool \<times> 'a lvfs" where
  "HandleConnectLocked vt i client s =
     (let l = sock s i in
      if ls_type l = SOCK_STREAM \<or> ls_type l = SOCK_SEQPACKET then
        if ls_state l \<noteq> SOCKET_LISTENING then (False, s)
        else if unat (ls_backlog l) = length (ls_connection_queue l) then (False, s)
        else
          let s1 = upd_sock i (\<lambda>l. l\<lparr>ls_connection_queue := ls_connection_queue l @ [client]\<rparr>) s
          in (True, if length (ls_connection_queue (sock s1 i)) = 1 then notify vt i (sys_Broadcast s1) else s1)
      else (True, s))"

text \<open>A wait without a time limit: the states at the wake-ups until the condition fails.\<close>

fun wait_while :: "('s \<Rightarrow> bool) \<Rightarrow> 's \<Rightarrow> 's list \<Rightarrow> 's option" where
  "wait_while blocked s wakeups =
     (if \<not> blocked s then Some s
      else case wakeups of [] \<Rightarrow> None | s' # rest \<Rightarrow> wait_while blocked s' rest)"

declare wait_while.simps [simp del]

definition WaitForLocalSocketConnect :: "sid \<Rightarrow> 'a lvfs \<Rightarrow> 'a lvfs list \<Rightarrow> 'a lvfs option" where
  "WaitForLocalSocketConnect i s wakeups =
     (if ls_type (sock s i) = SOCK_STREAM \<or> ls_type (sock s i) = SOCK_SEQPACKET
      then wait_while (\<lambda>s. ls_state (sock s i) = SOCKET_CONNECTING)
             (upd_sock i (\<lambda>l. l\<lparr>ls_state := SOCKET_CONNECTING\<rparr>) s) wakeups
      else Some s)"

text \<open>The address's name in the \<^verbatim>\<open>logd\<close> table (empty for an abstract one) and the socket bound to it.\<close>

definition find_bound :: "byte list \<Rightarrow> int \<Rightarrow> 'a local_world_scheme \<Rightarrow> (string \<times> sid option) option" where
  "find_bound addr addrlen w =
     (case ConvertSockaddrToName addr addrlen of
        Some name \<Rightarrow> Some (name, LogdSocketNamespace_GetByName name w)
      | None \<Rightarrow>
          (case ConvertSockaddrToAbstractName addr addrlen of
             Some name \<Rightarrow> Some ([], AbstractSocketNamespace_GetByName name w)
           | None \<Rightarrow> None))"

text \<open>The part of \<^verbatim>\<open>connect\<close> before the wait.\<close>

definition connect_start :: "'a local_world_scheme vtable \<Rightarrow> sid \<Rightarrow> byte list \<Rightarrow> int \<Rightarrow> 'a lvfs \<Rightarrow> int outcome \<times> 'a lvfs" where
  "connect_start vt i addr addrlen s =
     (if ls_state (sock s i) = SOCKET_CONNECTED \<or> ls_state (sock s i) = SOCKET_LISTENING then (Err EISCONN, s)
      else if ls_type (sock s i) \<noteq> SOCK_DGRAM \<and> \<not> is_block i s then (Err ENOSYS, s)
      else if \<not> ValidateSockaddr addr addrlen then (Err EINVAL, s)
      else
        case find_bound addr addrlen (v_world s) of
          None \<Rightarrow> (Err ENOSYS, s)
        | Some (logd_name, None) \<Rightarrow> (Err ECONNREFUSED, s)
        | Some (logd_name, Some b) \<Rightarrow>
            if ls_type (sock s b) \<noteq> ls_type (sock s i) then (Err ECONNREFUSED, s)
            else
              case HandleConnectLocked vt b i s of
                (False, s1) \<Rightarrow> (Err ECONNREFUSED, s1)
              | (True, s1) \<Rightarrow> (Ret 0, upd_sock i (\<lambda>l. l\<lparr>ls_logd_target := logd_name\<rparr>) s1))"

definition LocalSocket_connect ::
  "'a local_world_scheme vtable \<Rightarrow> sid \<Rightarrow> byte list \<Rightarrow> int \<Rightarrow> 'a lvfs \<Rightarrow> 'a lvfs list \<Rightarrow> (int outcome \<times> 'a lvfs) option" where
  "LocalSocket_connect vt i addr addrlen s wakeups =
     (case connect_start vt i addr addrlen s of
        (Ret r, s1) \<Rightarrow> map_option (\<lambda>s2. (Ret r, s2)) (WaitForLocalSocketConnect i s1 wakeups)
      | r \<Rightarrow> Some r)"

definition drop_closed :: "sid \<Rightarrow> 'a lvfs \<Rightarrow> 'a lvfs" where
  "drop_closed i s =
     upd_sock i (\<lambda>l. l\<lparr>ls_connection_queue :=
       dropWhile (\<lambda>c. IsClosed (w_streams (v_world s) c)) (ls_connection_queue l)\<rparr>) s"

fun WaitForOpenedConnectToAccept :: "sid \<Rightarrow> int \<Rightarrow> 'a lvfs \<Rightarrow> 'a lvfs wakeup list \<Rightarrow> 'a lvfs option" where
  "WaitForOpenedConnectToAccept i time_limit s wakeups =
     (let s0 = drop_closed i s in
      if ls_connection_queue (sock s0 i) \<noteq> [] then Some s0
      else case wakeups of
             [] \<Rightarrow> None
           | (start_time, end_time, s') # rest \<Rightarrow>
               let s1 = (if fst (WaitUntilInternal time_limit start_time end_time) then s' else s0)
               in if WaitUntil time_limit start_time end_time then Some s1
                  else WaitForOpenedConnectToAccept i time_limit s1 rest)"

declare WaitForOpenedConnectToAccept.simps [simp del]

text \<open>
  The part of \<^verbatim>\<open>accept\<close> after the wait; \<open>addr_len\<close> is the caller's length when it passed an
  address. The result has the bytes stored at the address; the length stored is always two.
\<close>

definition accept_finish ::
  "'a local_world_scheme vtable \<Rightarrow> sid \<Rightarrow> int option \<Rightarrow> 'a lvfs \<Rightarrow> (int \<times> byte list option) outcome \<times> 'a lvfs" where
  "accept_finish vt i addr_len s =
     (if IsClosed (w_streams (v_world s) i) then (Err EBADF, s)
      else case ls_connection_queue (sock s i) of
        [] \<Rightarrow> (Err EAGAIN, s)
      | client # rest \<Rightarrow>
          let (server, s1) = LocalSocket (fs_oflag (w_streams (v_world s) i)) (ls_type (sock s i)) READ_WRITE s;
              (accept_fd, s2) = AddFileStreamLocked server s1
          in if accept_fd < 0 then (Err EMFILE, s2)
             else
               let s3 = upd_sock i (\<lambda>l. l\<lparr>ls_connection_queue := rest\<rparr>) s2;
                   s4 = LocalSocket_set_peer client server (LocalSocket_set_peer server client s3);
                   s5 = notify vt i (sys_Broadcast s4)
               in (Ret (accept_fd, map_option (\<lambda>len. take (nat (min len 2)) [1, 0]) addr_len), s5))"

text \<open>\<open>addrlen\<close> is the pointed-to length; \<open>now\<close> is the clock when the call starts to wait.\<close>

definition LocalSocket_accept ::
  "'a local_world_scheme vtable \<Rightarrow> sid \<Rightarrow> bool \<Rightarrow> int option \<Rightarrow> int \<Rightarrow> 'a lvfs \<Rightarrow> 'a lvfs wakeup list
     \<Rightarrow> ((int \<times> byte list option) outcome \<times> 'a lvfs) option" where
  "LocalSocket_accept vt i addr_given addrlen now s wakeups =
     (if ls_type (sock s i) = SOCK_DGRAM then Some (Err EOPNOTSUPP, s)
      else case (if addr_given then VerifyOutputSocketAddress True addrlen else None) of
        Some e \<Rightarrow> Some (Err e, s)
      | None \<Rightarrow>
          if ls_state (sock s i) \<noteq> SOCKET_LISTENING then Some (Err EINVAL, s)
          else if \<not> is_block i s then Some (Err ENOSYS, s)
          else map_option (accept_finish vt i (if addr_given then addrlen else None))
                 (WaitForOpenedConnectToAccept i (TimeOutToTimeLimit now (ss_recv_timeout (ls_socket (sock s i)))) s wakeups))"


section \<open>Receiving\<close>

definition CMSG_ALIGN :: "nat \<Rightarrow> nat" where "CMSG_ALIGN len = (len + 3) div 4 * 4"
definition CMSG_LEN :: "nat \<Rightarrow> nat" where "CMSG_LEN len = CMSG_ALIGN 12 + len"
definition CMSG_SPACE :: "nat \<Rightarrow> nat" where "CMSG_SPACE len = CMSG_ALIGN 12 + CMSG_ALIGN len"

definition MSG_CTRUNC :: u32 where "MSG_CTRUNC = 0x8"
definition MSG_TRUNC :: u32 where "MSG_TRUNC = 0x20"
definition MSG_DONTWAIT :: u32 where "MSG_DONTWAIT = 0x40"
definition SCM_RIGHTS :: int where "SCM_RIGHTS = 1"
definition SCM_CREDENTIALS :: int where "SCM_CREDENTIALS = 2"

text \<open>The buffers of a vector after \<open>bs\<close> was stored in them one after the other.\<close>

fun fill_iov :: "byte list list \<Rightarrow> byte list \<Rightarrow> byte list list" where
  "fill_iov [] bs = []"
| "fill_iov (buf # bufs) bs = (take (length buf) bs @ drop (length bs) buf) # fill_iov bufs (drop (length buf) bs)"

text \<open>The loop over the vector for a datagram: what was copied and what remains of the content.\<close>

fun copy_datagram :: "nat list \<Rightarrow> byte list \<Rightarrow> byte list \<times> byte list" where
  "copy_datagram [] rest = ([], rest)"
| "copy_datagram (len # lens) rest =
     (if 0 < length rest then
        let n = min len (length rest); (xs, rest') = copy_datagram lens (drop n rest) in (take n rest @ xs, rest')
      else ([], rest))"

text \<open>The bytes received, the flags, the sender's credentials and the socket without what was taken.\<close>

definition recv_data :: "nat list \<Rightarrow> local_socket \<Rightarrow> byte list \<times> u32 \<times> ucred \<times> local_socket" where
  "recv_data lens l =
     (if ls_type l = SOCK_STREAM then
        let (bs, b) = (if 0 < cb_size (ls_buffer l) then scatter_read cb_size cb_read (ls_buffer l) lens
                       else ([], ls_buffer l))
        in (bs, 0, ls_peer_cred l, l\<lparr>ls_buffer := b\<rparr>)
      else
        case ls_queue l of
          [] \<Rightarrow> ([], 0, ls_peer_cred l, l)
        | d # rest \<Rightarrow>
            let (bs, remaining) = copy_datagram lens (dg_content d)
            in (bs, if 0 < length remaining then MSG_TRUNC else 0, dg_cred d, l\<lparr>ls_queue := rest\<rparr>))"

text \<open>Descriptors that do not fit the control buffer are closed, the last one first.\<close>

function trim_fds :: "'a local_world_scheme vtable \<Rightarrow> nat \<Rightarrow> int list \<Rightarrow> 'a lvfs \<Rightarrow> int list \<times> 'a lvfs" where
  "trim_fds vt controllen fds s =
     (if controllen < CMSG_SPACE (CMSG_LEN (length fds * 4)) \<and> fds \<noteq> []
      then trim_fds vt controllen (butlast fds) (snd (CloseLocked vt (last fds) s))
      else (fds, s))"
  by auto

termination trim_fds
  by (relation "measure (\<lambda>(vt, n, fds, s). length fds)") auto

declare trim_fds.simps [simp del]

text \<open>The control messages for a caller with \<open>controllen\<close> bytes: messages, length and flags.\<close>

definition recv_rights ::
  "'a local_world_scheme vtable \<Rightarrow> sid \<Rightarrow> nat \<Rightarrow> 'a lvfs \<Rightarrow> cmsghdr list \<times> nat \<times> u32 \<times> 'a lvfs" where
  "recv_rights vt i controllen s =
     (case ls_cmsg_fds (sock s i) of
        [] \<Rightarrow> ([], 0, 0, s)
      | fds0 # rest \<Rightarrow>
          let (fds, s1) = trim_fds vt controllen fds0 s;
              len = CMSG_LEN (length fds * 4);
              ctrunc = (if fds = fds0 then 0 else MSG_CTRUNC);
              s2 = upd_sock i (\<lambda>l. l\<lparr>ls_cmsg_fds := rest\<rparr>) s1
          in if controllen < CMSG_SPACE len then ([], 0, ctrunc, s2)
             else ([\<lparr>cmsg_len = len, cmsg_level = SOL_SOCKET, cmsg_type = SCM_RIGHTS, cmsg_data = concat (map int_bytes fds)\<rparr>],
                   CMSG_SPACE len, ctrunc, s2))"

definition recv_cred :: "ucred \<Rightarrow> byte list \<Rightarrow> nat \<Rightarrow> cmsghdr list \<times> nat \<Rightarrow> cmsghdr list \<times> nat" where
  "recv_cred cred pass_cred controllen out =
     (if bytes_int pass_cred \<noteq> 0 \<and> CMSG_SPACE 12 + snd out \<le> controllen
      then (fst out @ [\<lparr>cmsg_len = CMSG_LEN 12, cmsg_level = SOL_SOCKET, cmsg_type = SCM_CREDENTIALS,
                        cmsg_data = ucred_bytes cred\<rparr>], snd out + CMSG_LEN 12)
      else out)"

text \<open>The part of \<^verbatim>\<open>recvmsg\<close> after the wait. The message is an output also when the call fails.\<close>

definition recvmsg_finish ::
  "'a local_world_scheme vtable \<Rightarrow> sid \<Rightarrow> msghdr \<Rightarrow> 'a lvfs \<Rightarrow> int outcome \<times> msghdr \<times> 'a lvfs" where
  "recvmsg_finish vt i msg s =
     (let (bs, flags, cred, l) = recv_data (map length (msg_iov msg)) (sock s i);
          s1 = upd_sock i (\<lambda>_. l) s
      in if bs \<noteq> [] then
           let (rights, len, ctrunc, s2) = recv_rights vt i (msg_controllen msg) s1;
               (control, len') = recv_cred cred (ls_pass_cred (sock s2 i)) (msg_controllen msg) (rights, len);
               msg' = msg\<lparr>msg_iov := fill_iov (msg_iov msg) bs, msg_flags := flags OR ctrunc,
                          msg_control := control, msg_controllen := len'\<rparr>;
               s3 = (case ls_peer (sock s2 i) of Some p \<Rightarrow> notify vt p s2 | None \<Rightarrow> s2)
           in (Ret (int (length bs)), msg', s3)
         else
           let msg' = msg\<lparr>msg_flags := flags, msg_control := [], msg_controllen := 0\<rparr>
           in if ls_peer l = None \<and> ls_type l \<noteq> SOCK_DGRAM then (Ret 0, msg', s1) else (Err EAGAIN, msg', s1))"

definition LocalSocket_recvmsg ::
  "'a local_world_scheme vtable \<Rightarrow> sid \<Rightarrow> msghdr \<Rightarrow> u32 \<Rightarrow> 'a lvfs \<Rightarrow> 'a lvfs list \<Rightarrow> (int outcome \<times> msghdr \<times> 'a lvfs) option" where
  "LocalSocket_recvmsg vt i msg flags s wakeups =
     (if ls_dir (sock s i) = WRITE_ONLY then Some (Err EBADF, msg, s)
      else if ls_type (sock s i) \<noteq> SOCK_DGRAM \<and> ls_state (sock s i) \<noteq> SOCKET_CONNECTED then Some (Err EINVAL, msg, s)
      else map_option (recvmsg_finish vt i msg)
             (if is_block i s \<and> flags AND MSG_DONTWAIT = 0
              then wait_while (\<lambda>s. ls_peer (sock s i) \<noteq> None \<and> \<not> LocalSocket_IsSelectReadReady i s) s wakeups
              else Some s))"

definition plain_msg :: "byte list \<Rightarrow> msghdr" where
  "plain_msg buf = \<lparr>msg_name = None, msg_iov = [buf], msg_control = [], msg_controllen = 0, msg_flags = 0\<rparr>"

text \<open>
  The calls that receive into one buffer. The caller's flags are not passed on. The result is the
  bytes received.
\<close>

definition LocalSocket_recvfrom ::
  "'a local_world_scheme vtable \<Rightarrow> sid \<Rightarrow> nat \<Rightarrow> u32 \<Rightarrow> bool \<Rightarrow> 'a lvfs \<Rightarrow> 'a lvfs list \<Rightarrow> (byte list outcome \<times> 'a lvfs) option" where
  "LocalSocket_recvfrom vt i len flags addr_or_addrlen s wakeups =
     (if addr_or_addrlen then Some (Err EINVAL, s)
      else if len = 0 then Some (Ret [], s)
      else map_option (\<lambda>r. case r of
               (Ret n, msg, s') \<Rightarrow> (Ret (take (nat n) (concat (msg_iov msg))), s')
             | (Err e, msg, s') \<Rightarrow> (Err e, s')
             | (Fatal, msg, s') \<Rightarrow> (Fatal, s'))
             (LocalSocket_recvmsg vt i (plain_msg (replicate len 0)) 0 s wakeups))"

definition LocalSocket_recv ::
  "'a local_world_scheme vtable \<Rightarrow> sid \<Rightarrow> nat \<Rightarrow> u32 \<Rightarrow> 'a lvfs \<Rightarrow> 'a lvfs list \<Rightarrow> (byte list outcome \<times> 'a lvfs) option" where
  "LocalSocket_recv vt i len flags = LocalSocket_recvfrom vt i len flags False"

definition LocalSocket_read ::
  "'a local_world_scheme vtable \<Rightarrow> sid \<Rightarrow> nat \<Rightarrow> 'a lvfs \<Rightarrow> 'a lvfs list \<Rightarrow> (byte list outcome \<times> 'a lvfs) option" where
  "LocalSocket_read vt i count = LocalSocket_recv vt i count 0"

section \<open>Sending\<close>

text \<open>The descriptors in the data of a message, and their duplicates; a failing one becomes \<^verbatim>\<open>-1\<close>.\<close>

definition wire_fds :: "cmsghdr \<Rightarrow> int list" where
  "wire_fds c =
     (if cmsg_level c = SOL_SOCKET \<and> cmsg_type c = SCM_RIGHTS \<and> CMSG_LEN 0 \<le> cmsg_len c
      then map (\<lambda>k. bytes_int (drop (k * 4) (cmsg_data c))) [0 ..< (cmsg_len c - CMSG_LEN 0) div 4]
      else [])"

fun dup_fds :: "'a local_world_scheme vtable \<Rightarrow> int list \<Rightarrow> 'a lvfs \<Rightarrow> int list \<times> 'a lvfs" where
  "dup_fds vt [] s = ([], s)"
| "dup_fds vt (fd # fds) s =
     (let (r, s1) = DupLocked vt fd (- 1) s; (rs, s2) = dup_fds vt fds s1
      in ((case r of Ret n \<Rightarrow> n | _ \<Rightarrow> - 1) # rs, s2))"

text \<open>What the receiving socket takes of a message: the number of bytes and the socket with them.\<close>

definition send_data :: "byte list list \<Rightarrow> ucred \<Rightarrow> local_socket \<Rightarrow> nat \<times> local_socket" where
  "send_data iov peer_cred l =
     (if iov = [] then (0, l)
      else if ls_type l = SOCK_STREAM then
        let (n, b) = gather_write cb_write (ls_buffer l) iov in (n, l\<lparr>ls_buffer := b\<rparr>)
      else (length (concat iov), l\<lparr>ls_queue := ls_queue l @ [\<lparr>dg_cred = peer_cred, dg_content = concat iov\<rparr>]\<rparr>))"

definition HandleSendmsgLocked ::
  "'a local_world_scheme vtable \<Rightarrow> sid \<Rightarrow> msghdr \<Rightarrow> ucred \<Rightarrow> 'a lvfs \<Rightarrow> int outcome \<times> 'a lvfs" where
  "HandleSendmsgLocked vt i msg peer_cred s =
     (let (bytes_sent, l) = send_data (msg_iov msg) peer_cred (sock s i);
          s1 = upd_sock i (\<lambda>_. l) s;
          s2 = (if bytes_sent \<noteq> 0 \<and> 0 < msg_controllen msg then
                  let (fds, s') = dup_fds vt (concat (map wire_fds (msg_control msg))) s1
                  in upd_sock i (\<lambda>l. l\<lparr>ls_cmsg_fds := ls_cmsg_fds l @ [fds]\<rparr>) s'
                else s1);
          s3 = (if 0 < bytes_sent then notify vt i (sys_Broadcast s2) else s2)
      in if bytes_sent = 0 \<and> length (concat (msg_iov msg)) \<noteq> 0 then (Err EAGAIN, s3)
         else (Ret (int bytes_sent), s3))"

definition LocalSocket_sendmsg ::
  "'a local_world_scheme vtable \<Rightarrow> sid \<Rightarrow> msghdr \<Rightarrow> u32 \<Rightarrow> 'a lvfs \<Rightarrow> int outcome \<times> 'a lvfs" where
  "LocalSocket_sendmsg vt i msg flags s =
     (let l = sock s i in
      if ls_dir l = READ_ONLY then (Err EBADF, s)
      else if ls_type l \<noteq> SOCK_DGRAM \<and> ls_state l \<noteq> SOCKET_CONNECTED then (Err EINVAL, s)
      else case ls_peer l of
        Some p \<Rightarrow> HandleSendmsgLocked vt p msg (ls_my_cred l) s
      | None \<Rightarrow>
          if ls_type l = SOCK_DGRAM then
            (case (if ls_logd_target l \<noteq> [] then LogdSocketNamespace_GetByName (ls_logd_target l) (v_world s) else None) of
               Some b \<Rightarrow> HandleSendmsgLocked vt b msg (ls_my_cred l) s
             | None \<Rightarrow> (Err ECONNREFUSED, s))
          else (Err ECONNRESET, s))"

definition LocalSocket_sendto ::
  "'a local_world_scheme vtable \<Rightarrow> sid \<Rightarrow> byte list \<Rightarrow> u32 \<Rightarrow> bool \<Rightarrow> 'a lvfs \<Rightarrow> int outcome \<times> 'a lvfs" where
  "LocalSocket_sendto vt i buf flags addr_or_addrlen s =
     (if addr_or_addrlen then (Err EINVAL, s)
      else if buf = [] then (Ret 0, s)
      else LocalSocket_sendmsg vt i (plain_msg buf) 0 s)"

definition LocalSocket_send :: "'a local_world_scheme vtable \<Rightarrow> sid \<Rightarrow> byte list \<Rightarrow> u32 \<Rightarrow> 'a lvfs \<Rightarrow> int outcome \<times> 'a lvfs" where
  "LocalSocket_send vt i buf flags = LocalSocket_sendto vt i buf flags False"

definition LocalSocket_write :: "'a local_world_scheme vtable \<Rightarrow> sid \<Rightarrow> byte list \<Rightarrow> 'a lvfs \<Rightarrow> int outcome \<times> 'a lvfs" where
  "LocalSocket_write vt i buf = LocalSocket_send vt i buf 0"


end
