(* ===== verification/Local_Socket_Laws.thy ===== *)
theory Local_Socket_Laws
  imports Local_Sockets
begin

text \<open>
  The laws of local sockets: byte streams are bounded queues, datagrams keep their boundaries,
  the peer relation stays symmetric, and what pipes do behind descriptors. The virtual functions
  of the streams enter through the locale \<open>socket_vtable\<close>.
\<close>

named_theorems sock_simps \<open>rewrite rules for the state of sockets\<close>

section \<open>Frame rules\<close>

lemma sock_upd [sock_simps]: "sock (upd_sock i f s) j = (if j = i then f (sock s i) else sock s j)"
  by (simp add: sock_def upd_sock_def upd_local_def)

lemma sock_Broadcast [sock_simps]: "sock (sys_Broadcast s) j = sock s j"
  by (simp add: sock_def sys_Broadcast_def w_Broadcast_def)

lemma fds_frame [sock_simps]:
  "v_fds (upd_sock i f s) = v_fds s" "v_fds (sys_Broadcast s) = v_fds s" "v_fds (notify vt i s) = v_fds s"
  by (simp_all add: upd_sock_def sys_Broadcast_def notify_def)

lemma streams_frame [sock_simps]:
  "w_streams (v_world (upd_sock i f s)) = w_streams (v_world s)"
  "w_streams (v_world (sys_Broadcast s)) = w_streams (v_world s)"
  by (simp_all add: upd_sock_def upd_local_def sys_Broadcast_def w_Broadcast_def)

lemma is_block_frame [sock_simps]:
  "is_block j (upd_sock i f s) = is_block j s" "is_block j (sys_Broadcast s) = is_block j s"
  by (simp_all add: is_block_def sock_simps)

lemma upd_sock_same: "upd_sock i (\<lambda>_. sock s i) s = s"
  by (simp add: upd_sock_def upd_local_def sock_def)

definition refs :: "'a lvfs \<Rightarrow> sid \<Rightarrow> int" where
  "refs s t = fs_file_ref_count (w_streams (v_world s) t)"

lemma refs_frame [sock_simps]: "refs (upd_sock i f s) t = refs s t" "refs (sys_Broadcast s) t = refs s t"
  by (simp_all add: refs_def sock_simps)

text \<open>The two outcomes of \<open>recvmsg\<close> after the wait, with its steps named.\<close>

lemma recvmsg_finish_empty:
  assumes "recv_data (map length (msg_iov msg)) (sock s i) = ([], flags, cred, l)"
  shows "recvmsg_finish vt i msg s =
    (if ls_peer l = None \<and> ls_type l \<noteq> SOCK_DGRAM then Ret 0 else Err EAGAIN,
     msg\<lparr>msg_flags := flags, msg_control := [], msg_controllen := 0\<rparr>, upd_sock i (\<lambda>_. l) s)"
  by (simp add: recvmsg_finish_def assms Let_def)

lemma recvmsg_finish_data:
  assumes "recv_data (map length (msg_iov msg)) (sock s i) = (bs, flags, cred, l)" "bs \<noteq> []"
    and "upd_sock i (\<lambda>_. l) s = s1"
    and "recv_rights vt i (msg_controllen msg) s1 = (rights, len, ctrunc, s2)"
    and "recv_cred cred (ls_pass_cred (sock s2 i)) (msg_controllen msg) (rights, len) = (control, len')"
  shows "recvmsg_finish vt i msg s =
    (Ret (int (length bs)),
     msg\<lparr>msg_iov := fill_iov (msg_iov msg) bs, msg_flags := flags OR ctrunc, msg_control := control, msg_controllen := len'\<rparr>,
     case ls_peer (sock s2 i) of Some p \<Rightarrow> notify vt p s2 | None \<Rightarrow> s2)"
  by (simp add: recvmsg_finish_def assms Let_def)

lemma fill_iov_nil [simp]: "fill_iov xs [] = xs"
  by (induction xs) auto

locale socket_vtable = quiet_vtable vt
  for vt :: "'a local_world_scheme vtable" +
  assumes notify_local: "w_local (vt_HandleNotificationFrom vt l st c w) = w_local w"
    and notify_oflag: "fs_oflag (w_streams (vt_HandleNotificationFrom vt l st c w) t) = fs_oflag (w_streams w t)"
begin

lemma fold_notify_local:
  "w_local (fold (\<lambda>l. vt_HandleNotificationFrom vt l st c) ls w) = w_local w \<and>
   fs_oflag (w_streams (fold (\<lambda>l. vt_HandleNotificationFrom vt l st c) ls w) t) = fs_oflag (w_streams w t)"
  by (induction ls arbitrary: w) (simp_all add: notify_local notify_oflag)

lemma sock_notify: "sock (notify vt i s) j = sock s j"
  by (simp add: sock_def notify_def NotifyListeners_def fold_notify_local)

lemma refs_notify: "refs (notify vt i s) t = refs s t"
  by (simp add: refs_def notify_def NotifyListeners_def fold_notify)

lemma is_block_notify: "is_block j (notify vt i s) = is_block j s"
  by (simp add: is_block_def notify_def NotifyListeners_def fold_notify_local)

text \<open>A message without control data sent to a stream socket that keeps the ring's invariant.\<close>

lemma HandleSendmsgLocked_stream:
  assumes "ls_type (sock s p) = SOCK_STREAM" "cb_inv (ls_buffer (sock s p))" "msg_controllen msg = 0"
    and r: "HandleSendmsgLocked vt p msg cred s = (r, s')"
  defines "n \<equiv> min (length (concat (msg_iov msg))) (cb_capacity (ls_buffer (sock s p)) - length (cb_list (ls_buffer (sock s p))))"
  shows "r = (if n = 0 \<and> concat (msg_iov msg) \<noteq> [] then Err EAGAIN else Ret (int n)) \<and>
    (\<forall>j. refs s' j = refs s j) \<and> v_fds s' = v_fds s \<and>
    (\<exists>b. cb_inv b \<and> cb_capacity b = cb_capacity (ls_buffer (sock s p)) \<and>
         cb_list b = cb_list (ls_buffer (sock s p)) @ take n (concat (msg_iov msg)) \<and>
         sock s' = (sock s)(p := (sock s p)\<lparr>ls_buffer := b\<rparr>))"
proof -
  let ?b = "ls_buffer (sock s p)"
  define g where "g = gather_write cb_write ?b (msg_iov msg)"
  note gw = cbq.gather_write_correct [OF assms(2), of "msg_iov msg", folded g_def]
  have n: "fst g = n" using gw by (simp add: n_def)
  have sd: "send_data (msg_iov msg) cred (sock s p) = (n, (sock s p)\<lparr>ls_buffer := snd g\<rparr>)"
  proof (cases "msg_iov msg = []")
    case True
    then have "snd g = ?b" "n = 0" by (simp_all add: g_def n_def)
    with True show ?thesis by (simp add: send_data_def)
  next
    case False
    with n show ?thesis by (simp add: send_data_def assms(1) g_def [symmetric] split_beta Let_def)
  qed
  have s': "s' = (if 0 < n then notify vt p (sys_Broadcast (upd_sock p (\<lambda>_. (sock s p)\<lparr>ls_buffer := snd g\<rparr>) s))
      else upd_sock p (\<lambda>_. (sock s p)\<lparr>ls_buffer := snd g\<rparr>) s)"
    and r': "r = (if n = 0 \<and> concat (msg_iov msg) \<noteq> [] then Err EAGAIN else Ret (int n))"
    using r by (auto simp: HandleSendmsgLocked_def sd assms(3) Let_def split: if_splits)
  have "sock s' = (sock s)(p := (sock s p)\<lparr>ls_buffer := snd g\<rparr>)"
    by (auto simp: s' fun_eq_iff sock_notify sock_simps)
  moreover have "refs s' j = refs s j" "v_fds s' = v_fds s" for j
    by (simp_all add: s' refs_notify sock_simps)
  ultimately show ?thesis using r' gw n by auto
qed

lemma recvmsg_finish_stream:
  assumes "ls_type (sock s i) = SOCK_STREAM" "cb_inv (ls_buffer (sock s i))" "ls_cmsg_fds (sock s i) = []"
    and r: "recvmsg_finish vt i msg s = (r, msg', s')"
  defines "bs \<equiv> take (sum_list (map length (msg_iov msg))) (cb_list (ls_buffer (sock s i)))"
  shows "r = (if bs \<noteq> [] then Ret (int (length bs))
              else if ls_peer (sock s i) = None then Ret 0 else Err EAGAIN) \<and>
    msg_iov msg' = fill_iov (msg_iov msg) bs \<and> (\<forall>j. refs s' j = refs s j) \<and> v_fds s' = v_fds s \<and>
    (\<exists>b. cb_inv b \<and> cb_capacity b = cb_capacity (ls_buffer (sock s i)) \<and>
         cb_list b = drop (length bs) (cb_list (ls_buffer (sock s i))) \<and>
         sock s' = (sock s)(i := (sock s i)\<lparr>ls_buffer := b\<rparr>))"
proof -
  let ?b = "ls_buffer (sock s i)" and ?lens = "map length (msg_iov msg)"
  define g where "g = (if 0 < cb_size ?b then scatter_read cb_size cb_read ?b ?lens else ([], ?b))"
  have cb0: "cb_list ?b = []" if "\<not> 0 < cb_size ?b"
    using that length_cb_list [OF assms(2)] by simp
  have g: "fst g = bs" "cb_inv (snd g)" "cb_capacity (snd g) = cb_capacity ?b"
    "cb_list (snd g) = drop (length bs) (cb_list ?b)"
  proof -
    have "drop (length bs) (cb_list ?b) = drop (sum_list ?lens) (cb_list ?b)"
      by (cases "sum_list ?lens \<le> length (cb_list ?b)") (simp_all add: bs_def)
    with cbq.scatter_read_correct [OF assms(2), of ?lens]
    show "fst g = bs" "cb_inv (snd g)" "cb_capacity (snd g) = cb_capacity ?b"
      "cb_list (snd g) = drop (length bs) (cb_list ?b)"
      using assms(2) cb0 by (simp_all add: g_def bs_def)
  qed
  have rd: "recv_data ?lens (sock s i) = (bs, 0, ls_peer_cred (sock s i), (sock s i)\<lparr>ls_buffer := snd g\<rparr>)"
    using g(1) by (simp add: recv_data_def assms(1) g_def [symmetric] split_beta Let_def)
  define s1 where "s1 = upd_sock i (\<lambda>_. (sock s i)\<lparr>ls_buffer := snd g\<rparr>) s"
  have s1: "sock s1 = (sock s)(i := (sock s i)\<lparr>ls_buffer := snd g\<rparr>)" "v_fds s1 = v_fds s" "refs s1 j = refs s j" for j
    by (auto simp: s1_def fun_eq_iff sock_simps)
  have rr: "recv_rights vt i (msg_controllen msg) s1 = ([], 0, 0, s1)"
    by (simp add: recv_rights_def s1 assms(3))
  have "r = (if bs \<noteq> [] then Ret (int (length bs)) else if ls_peer (sock s i) = None then Ret 0 else Err EAGAIN) \<and>
    msg_iov msg' = fill_iov (msg_iov msg) bs \<and> sock s' = sock s1 \<and> v_fds s' = v_fds s1 \<and>
    (\<forall>j. refs s' j = refs s1 j)"
  proof (cases "bs = []")
    case True
    then show ?thesis
      using r recvmsg_finish_empty [of msg s i 0 "ls_peer_cred (sock s i)" _ vt] rd
      by (auto simp: s1_def assms(1) socket_consts)
  next
    case False
    obtain control len' where "recv_cred (ls_peer_cred (sock s i)) (ls_pass_cred (sock s1 i)) (msg_controllen msg) ([], 0) = (control, len')"
      by fastforce
    from recvmsg_finish_data [OF rd False s1_def [symmetric] rr this] r False show ?thesis
      by (auto simp: sock_notify refs_notify sock_simps fun_eq_iff split: option.splits)
  qed
  then show ?thesis using g s1 by auto
qed

end

interpretation local_vt: socket_vtable "local_vtable :: 'a local_world_scheme vtable"
proof
  fix i and w :: "'a local_world_scheme" and t
  have "w_streams (LocalSocket_OnLastFileRef i w) = w_streams w"
    by (auto simp: LocalSocket_OnLastFileRef_def Let_def AbstractSocketNamespace_Bind_def LogdSocketNamespace_Bind_def
        w_Broadcast_def upd_local_def split: option.splits)
  then show "fs_file_ref_count (w_streams (vt_OnLastFileRef local_vtable i w) t) = fs_file_ref_count (w_streams w t)"
    "fs_had_file_refs (w_streams (vt_OnLastFileRef local_vtable i w) t) = fs_had_file_refs (w_streams w t)"
    by (simp_all add: local_vtable_def)
qed (simp_all add: local_vtable_def)

section \<open>Byte streams\<close>

lemmas poll_consts = POLLIN_def POLLOUT_def POLLERR_def POLLHUP_def

lemma poll_in_ready:
  "(POLLIN OR x) AND (POLLIN OR POLLHUP OR POLLERR) \<noteq> 0" "(x OR POLLHUP) AND (POLLIN OR POLLHUP OR POLLERR) \<noteq> 0"
proof -
  have "bit ((POLLIN OR x) AND (POLLIN OR POLLHUP OR POLLERR)) 0" by (simp add: poll_consts bit_simps)
  then show "(POLLIN OR x) AND (POLLIN OR POLLHUP OR POLLERR) \<noteq> 0" by (metis bit_0_eq bot_apply bot_bool_def)
  have "bit ((x OR POLLHUP) AND (POLLIN OR POLLHUP OR POLLERR)) 4" by (simp add: poll_consts bit_simps)
  then show "(x OR POLLHUP) AND (POLLIN OR POLLHUP OR POLLERR) \<noteq> 0" by (metis bit_0_eq bot_apply bot_bool_def)
qed

lemma stream_read_ready:
  assumes "ls_type (sock s i) = SOCK_STREAM" "ls_state (sock s i) = SOCKET_CONNECTED" "ls_dir (sock s i) \<noteq> WRITE_ONLY"
    and "0 < cb_size (ls_buffer (sock s i)) \<or> ls_peer (sock s i) = None"
  shows "LocalSocket_IsSelectReadReady i s"
proof (cases "ls_dir (sock s i)")
  case READ_WRITE
  have "CanRead i s" using assms by (auto simp: CanRead_def Let_def socket_consts)
  with READ_WRITE assms(2) have "LocalSocket_GetPollEvents i s = POLLIN OR ((if CanWrite i s then POLLOUT else 0)
      OR (if ls_type (sock s i) \<noteq> SOCK_DGRAM \<and> ls_peer (sock s i) = None then POLLHUP else 0))"
    unfolding LocalSocket_GetPollEvents_def Let_def by (simp add: or.assoc)
  then show ?thesis using poll_in_ready by (auto simp: LocalSocket_IsSelectReadReady_def)
next
  case READ_ONLY
  let ?in = "if 0 < cb_size (ls_buffer (sock s i)) then POLLIN else 0"
    and ?hup = "if ls_peer (sock s i) = None then POLLHUP else 0"
  have "LocalSocket_GetPollEvents i s = ?in OR ?hup"
    using READ_ONLY assms(2) unfolding LocalSocket_GetPollEvents_def Let_def by simp
  then show ?thesis
    using assms(4) poll_in_ready(1) [of ?hup] poll_in_ready(2) [of ?in] by (auto simp: LocalSocket_IsSelectReadReady_def)
qed (use assms(3) in simp)

lemma wait_while_now: "\<not> blocked s \<Longrightarrow> wait_while blocked s h = Some s"
  by (subst wait_while.simps) simp

lemma stream_recvmsg_now:
  assumes "ls_type (sock s i) = SOCK_STREAM" "ls_state (sock s i) = SOCKET_CONNECTED" "ls_dir (sock s i) \<noteq> WRITE_ONLY"
    and "0 < cb_size (ls_buffer (sock s i)) \<or> ls_peer (sock s i) = None"
  shows "LocalSocket_recvmsg vt i msg flags s h = Some (recvmsg_finish vt i msg s)"
  using assms stream_read_ready [OF assms] by (simp add: LocalSocket_recvmsg_def wait_while_now)

text \<open>One direction of a connected byte stream, and the bytes under way in it.\<close>

definition stream_link :: "'a lvfs \<Rightarrow> sid \<Rightarrow> sid \<Rightarrow> bool" where
  "stream_link s i p \<longleftrightarrow>
     ls_type (sock s i) = SOCK_STREAM \<and> ls_state (sock s i) = SOCKET_CONNECTED \<and> ls_dir (sock s i) \<noteq> READ_ONLY \<and>
     ls_peer (sock s i) = Some p \<and>
     ls_type (sock s p) = SOCK_STREAM \<and> ls_state (sock s p) = SOCKET_CONNECTED \<and> ls_dir (sock s p) \<noteq> WRITE_ONLY \<and>
     cb_inv (ls_buffer (sock s p)) \<and> ls_cmsg_fds (sock s p) = []"

definition in_flight :: "'a lvfs \<Rightarrow> sid \<Rightarrow> byte list" where
  "in_flight s p = cb_list (ls_buffer (sock s p))"

definition room :: "'a lvfs \<Rightarrow> sid \<Rightarrow> nat" where
  "room s p = cb_capacity (ls_buffer (sock s p)) - length (in_flight s p)"

lemma stream_send_effect:
  assumes vt: "socket_vtable vt" and l: "stream_link s i p" and "msg_controllen msg = 0"
    and r: "LocalSocket_sendmsg vt i msg flags s = (r, s')"
  defines "n \<equiv> min (length (concat (msg_iov msg))) (room s p)"
  shows "r = (if n = 0 \<and> concat (msg_iov msg) \<noteq> [] then Err EAGAIN else Ret (int n)) \<and>
    stream_link s' i p \<and> in_flight s' p = in_flight s p @ take n (concat (msg_iov msg)) \<and> v_fds s' = v_fds s \<and>
    cb_capacity (ls_buffer (sock s' p)) = cb_capacity (ls_buffer (sock s p)) \<and>
    (\<forall>k. sock s' k = (sock s k)\<lparr>ls_buffer := ls_buffer (sock s' k)\<rparr> \<and> refs s' k = refs s k)"
proof -
  have h: "HandleSendmsgLocked vt p msg (ls_my_cred (sock s i)) s = (r, s')"
    using r l by (simp add: LocalSocket_sendmsg_def stream_link_def Let_def)
  have p: "ls_type (sock s p) = SOCK_STREAM" "cb_inv (ls_buffer (sock s p))" using l by (auto simp: stream_link_def)
  from socket_vtable.HandleSendmsgLocked_stream [OF vt p assms(3) h] obtain b where
    b: "r = (if n = 0 \<and> concat (msg_iov msg) \<noteq> [] then Err EAGAIN else Ret (int n))" "v_fds s' = v_fds s" "\<forall>j. refs s' j = refs s j"
      "cb_inv b" "cb_capacity b = cb_capacity (ls_buffer (sock s p))"
      "cb_list b = cb_list (ls_buffer (sock s p)) @ take n (concat (msg_iov msg))"
      "sock s' = (sock s)(p := (sock s p)\<lparr>ls_buffer := b\<rparr>)"
    unfolding n_def room_def in_flight_def by blast
  then show ?thesis using l by (auto simp: stream_link_def in_flight_def)
qed

lemma stream_recv_effect:
  assumes vt: "socket_vtable vt" and l: "stream_link s i p"
    and f: "recvmsg_finish vt p msg s = (r, msg', s')"
  defines "bs \<equiv> take (length (concat (msg_iov msg))) (in_flight s p)"
  shows "r = (if bs \<noteq> [] then Ret (int (length bs)) else if ls_peer (sock s p) = None then Ret 0 else Err EAGAIN) \<and>
    msg_iov msg' = fill_iov (msg_iov msg) bs \<and> stream_link s' i p \<and>
    in_flight s' p = drop (length bs) (in_flight s p) \<and> v_fds s' = v_fds s \<and>
    cb_capacity (ls_buffer (sock s' p)) = cb_capacity (ls_buffer (sock s p)) \<and>
    (\<forall>k. sock s' k = (sock s k)\<lparr>ls_buffer := ls_buffer (sock s' k)\<rparr> \<and> refs s' k = refs s k)"
proof -
  have p: "ls_type (sock s p) = SOCK_STREAM" "cb_inv (ls_buffer (sock s p))" "ls_cmsg_fds (sock s p) = []"
    using l by (auto simp: stream_link_def)
  have bs: "bs = take (sum_list (map length (msg_iov msg))) (cb_list (ls_buffer (sock s p)))"
    by (simp add: bs_def in_flight_def length_concat)
  from socket_vtable.recvmsg_finish_stream [OF vt p f, folded bs] obtain b where
    b: "r = (if bs \<noteq> [] then Ret (int (length bs)) else if ls_peer (sock s p) = None then Ret 0 else Err EAGAIN)"
      "msg_iov msg' = fill_iov (msg_iov msg) bs" "v_fds s' = v_fds s" "\<forall>j. refs s' j = refs s j"
      "cb_inv b" "cb_capacity b = cb_capacity (ls_buffer (sock s p))"
      "cb_list b = drop (length bs) (cb_list (ls_buffer (sock s p)))"
      "sock s' = (sock s)(p := (sock s p)\<lparr>ls_buffer := b\<rparr>)"
    by blast
  then show ?thesis using l by (auto simp: stream_link_def in_flight_def)
qed

text \<open>
  An interleaving of sends at one end and receives at the other, none of them waiting: the bytes
  that the sends reported as sent and the bytes that the receives delivered.
\<close>

datatype stream_act = Act_send "byte list list" | Act_recv "byte list list"

definition iov_msg :: "byte list list \<Rightarrow> msghdr" where
  "iov_msg iov = \<lparr>msg_name = None, msg_iov = iov, msg_control = [], msg_controllen = 0, msg_flags = 0\<rparr>"

definition ret_count :: "int outcome \<Rightarrow> nat" where
  "ret_count r = (case r of Ret n \<Rightarrow> nat n | _ \<Rightarrow> 0)"

fun stream_run ::
  "'a local_world_scheme vtable \<Rightarrow> sid \<Rightarrow> sid \<Rightarrow> stream_act list \<Rightarrow> 'a lvfs \<Rightarrow> byte list \<times> byte list \<times> 'a lvfs" where
  "stream_run vt i p [] s = ([], [], s)"
| "stream_run vt i p (Act_send iov # acts) s =
     (let (r, s1) = LocalSocket_sendmsg vt i (iov_msg iov) MSG_DONTWAIT s;
          (sent, got, s2) = stream_run vt i p acts s1
      in (take (ret_count r) (concat iov) @ sent, got, s2))"
| "stream_run vt i p (Act_recv bufs # acts) s =
     (case LocalSocket_recvmsg vt p (iov_msg bufs) MSG_DONTWAIT s [] of
        None \<Rightarrow> stream_run vt i p acts s
      | Some (r, msg, s1) \<Rightarrow>
          let (sent, got, s2) = stream_run vt i p acts s1
          in (sent, take (ret_count r) (concat (msg_iov msg)) @ got, s2))"

lemma concat_fill_iov: "length bs \<le> length (concat bufs) \<Longrightarrow> take (length bs) (concat (fill_iov bufs bs)) = bs"
proof (induction bufs bs rule: fill_iov.induct)
  case (2 buf bufs bs)
  show ?case
  proof (cases "length bs \<le> length buf")
    case False
    moreover have "take (length bs - length buf) (concat (fill_iov bufs (drop (length buf) bs))) = drop (length buf) bs"
      using 2 False by simp
    ultimately show ?thesis by simp
  qed simp
qed simp

lemma dontwait_recvmsg:
  assumes "stream_link s i p"
  shows "LocalSocket_recvmsg vt p msg MSG_DONTWAIT s h = Some (recvmsg_finish vt p msg s)"
  using assms by (simp add: LocalSocket_recvmsg_def stream_link_def MSG_DONTWAIT_def)

lemma stream_run_link:
  assumes vt: "socket_vtable vt" and "stream_link s i p" "stream_run vt i p acts s = (sent, got, s')"
  shows "in_flight s p @ sent = got @ in_flight s' p \<and> stream_link s' i p \<and>
    cb_capacity (ls_buffer (sock s' p)) = cb_capacity (ls_buffer (sock s p))"
  using assms(2,3)
proof (induction acts arbitrary: s sent got s')
  case (Cons a acts)
  show ?case
  proof (cases a)
    case (Act_send iov)
    obtain r s1 where r: "LocalSocket_sendmsg vt i (iov_msg iov) MSG_DONTWAIT s = (r, s1)" by fastforce
    obtain sent1 got1 s2 where t: "stream_run vt i p acts s1 = (sent1, got1, s2)" by (metis prod_cases3)
    let ?n = "min (length (concat iov)) (room s p)"
    have m: "msg_iov (iov_msg iov) = iov" "msg_controllen (iov_msg iov) = 0" by (simp_all add: iov_msg_def)
    have e: "r = (if ?n = 0 \<and> concat iov \<noteq> [] then Err EAGAIN else Ret (int ?n))" "stream_link s1 i p"
      "in_flight s1 p = in_flight s p @ take ?n (concat iov)"
      "cb_capacity (ls_buffer (sock s1 p)) = cb_capacity (ls_buffer (sock s p))"
      using stream_send_effect [OF vt Cons.prems(1) m(2) r, unfolded m(1)] by blast+
    have "ret_count r = ?n" unfolding e(1) ret_count_def by simp
    moreover have "sent = take (ret_count r) (concat iov) @ sent1" "got = got1" "s' = s2"
      using Cons.prems(2) by (simp_all add: Act_send r t)
    ultimately show ?thesis using Cons.IH [OF e(2) t] e(3,4) by simp
  next
    case (Act_recv bufs)
    obtain r msg s1 where r: "recvmsg_finish vt p (iov_msg bufs) s = (r, msg, s1)" by (metis prod_cases3)
    obtain sent1 got1 s2 where t: "stream_run vt i p acts s1 = (sent1, got1, s2)" by (metis prod_cases3)
    define bs where "bs = take (length (concat bufs)) (in_flight s p)"
    have e: "r = (if bs \<noteq> [] then Ret (int (length bs)) else if ls_peer (sock s p) = None then Ret 0 else Err EAGAIN)"
      "msg_iov msg = fill_iov bufs bs" "stream_link s1 i p" "in_flight s1 p = drop (length bs) (in_flight s p)"
      "cb_capacity (ls_buffer (sock s1 p)) = cb_capacity (ls_buffer (sock s p))"
      using stream_recv_effect [OF vt Cons.prems(1) r] by (simp_all add: iov_msg_def bs_def)
    have "ret_count r = length bs" using e(1) by (auto simp: ret_count_def)
    then have got: "take (ret_count r) (concat (msg_iov msg)) = bs"
      using concat_fill_iov [of bs bufs] by (simp add: e(2) bs_def)
    have fl: "in_flight s p = bs @ in_flight s1 p"
      by (cases "length (concat bufs) \<le> length (in_flight s p)") (simp_all add: e(4) bs_def)
    have "sent = sent1" "got = bs @ got1" "s' = s2"
      using Cons.prems(2) by (auto simp: Act_recv dontwait_recvmsg [OF Cons.prems(1)] r t got)
    then show ?thesis using Cons.IH [OF e(3) t] fl e(5) by (metis append.assoc)
  qed
qed auto

section \<open>Sockets behind descriptors\<close>

text \<open>
  The virtual functions of a file system whose streams are local sockets. Calls that can wait are
  run without any wake-up; one that would still be waiting then has no result, and shows as
  \<^verbatim>\<open>EINTR\<close> here.
\<close>

definition returned :: "('r outcome \<times> 's) option \<Rightarrow> 's \<Rightarrow> 'r outcome \<times> 's" where
  "returned r s = (case r of Some x \<Rightarrow> x | None \<Rightarrow> (Err EINTR, s))"

definition map_outcome :: "('a \<Rightarrow> 'b) \<Rightarrow> 'a outcome \<Rightarrow> 'b outcome" where
  "map_outcome f r = (case r of Ret x \<Rightarrow> Ret (f x) | Err e \<Rightarrow> Err e | Fatal \<Rightarrow> Fatal)"

definition local_ops :: "'a lvfs stream_ops" where
  "local_ops = \<lparr>
     so_new = (\<lambda>c s. case c of New_LocalSocket oflag typ dir \<Rightarrow> LocalSocket oflag typ dir s | _ \<Rightarrow> (0, s)),
     so_set_peer = LocalSocket_set_peer,
     so_read = (\<lambda>i n s. returned (LocalSocket_read local_vtable i n s []) s),
     so_write = (\<lambda>i b s. let (r, s') = LocalSocket_write local_vtable i b s in (map_outcome nat r, s')),
     so_debug_write = (\<lambda>i b s. s),
     so_readv = (\<lambda>i v n s. FileStream_readv (\<lambda>k s. returned (LocalSocket_read local_vtable i k s []) s) v n s),
     so_writev = (\<lambda>i v n s. FileStream_writev
        (\<lambda>b s. let (r, s') = LocalSocket_write local_vtable i b s in (map_outcome nat r, s')) v n s),
     so_pread = (\<lambda>i n off s. FileStream_pread (\<lambda>o' w s. (LocalSocket_lseek, s))
        (\<lambda>k s. returned (LocalSocket_read local_vtable i k s []) s) n off s),
     so_pwrite = (\<lambda>i b off s. FileStream_pwrite (fs_oflag (w_streams (v_world s) i)) (\<lambda>o' w s. (LocalSocket_lseek, s))
        (\<lambda>b s. let (r, s') = LocalSocket_write local_vtable i b s in (map_outcome nat r, s')) b off s),
     so_lseek = (\<lambda>i off w s. (LocalSocket_lseek, s)),
     so_fstat = (\<lambda>i s. (SocketStream_fstat, s)), so_fstatfs = (\<lambda>i s. (Err ENOSYS, s)),
     so_ftruncate = (\<lambda>i n s. (FileStream_ftruncate, s)), so_getdents = (\<lambda>i n s. (Err ENOTDIR, s)),
     so_fcntl = (\<lambda>i c s. case FileStream_fcntl c (w_streams (v_world s) i) of
                   (r, f) \<Rightarrow> (r, s\<lparr>v_world := upd_stream i (\<lambda>_. f) (v_world s)\<rparr>)),
     so_fdatasync = (\<lambda>i s. (SocketStream_fdatasync, s)), so_fsync = (\<lambda>i s. (SocketStream_fsync, s)),
     so_ioctl = (\<lambda>i r a s. case LocalSocket_ioctl i r (bytes_int a) s of
                   (Ret (n, Some out), s') \<Rightarrow> (Ret (n, int_bytes out), s')
                 | (Ret (n, None), s') \<Rightarrow> (Ret (n, a), s')
                 | (Err e, s') \<Rightarrow> (Err e, s') | (Fatal, s') \<Rightarrow> (Fatal, s')),
     so_mmap = (\<lambda>i a l p f off s. (Err ENODEV, s)),
     so_epoll_ctl = (\<lambda>i op t e s. (FileStream_epoll_ctl, s)), so_epoll_wait = (\<lambda>i m t s. (Err EINVAL, s)),
     so_GetPollEvents = LocalSocket_GetPollEvents,
     so_IsSelectReadReady = LocalSocket_IsSelectReadReady,
     so_IsSelectWriteReady = LocalSocket_IsSelectWriteReady,
     so_IsSelectExceptionReady = (\<lambda>i s. LocalSocket_IsSelectExceptionReady),
     so_connect = (\<lambda>i a l s. case a of Some addr \<Rightarrow> returned (LocalSocket_connect local_vtable i addr l s []) s | None \<Rightarrow> (Fatal, s)),
     so_bind = (\<lambda>i a l s. case a of Some addr \<Rightarrow> LocalSocket_bind i addr l s | None \<Rightarrow> (Fatal, s)),
     so_listen = LocalSocket_listen,
     so_accept = (\<lambda>i l s. returned (LocalSocket_accept local_vtable i (l \<noteq> None) l 0 s []) s),
     so_getpeername = (\<lambda>i l s. (Err ENOTSOCK, s)), so_getsockname = (\<lambda>i l s. (Err ENOTSOCK, s)),
     so_send = (\<lambda>i b f s. let (r, s') = LocalSocket_send local_vtable i b f s in (map_outcome nat r, s')),
     so_sendto = (\<lambda>i b f a l s.
        let (r, s') = LocalSocket_sendto local_vtable i b f (a \<noteq> None \<or> l \<noteq> 0) s in (map_outcome nat r, s')),
     so_sendmsg = LocalSocket_sendmsg local_vtable,
     so_recv = (\<lambda>i n f s. returned (LocalSocket_recv local_vtable i n f s []) s),
     so_recvfrom = (\<lambda>i n f l s. let (r, s') = returned (LocalSocket_recvfrom local_vtable i n f (l \<noteq> None) s []) s
        in (map_outcome (\<lambda>bs. (bs, None)) r, s')),
     so_recvmsg = (\<lambda>i m f s. returned (map_option (\<lambda>(r, m', s'). (map_outcome (\<lambda>n. (n, m')) r, s'))
        (LocalSocket_recvmsg local_vtable i m f s [])) s),
     so_getsockopt = (\<lambda>i l n k s. (map_outcome fst (LocalSocket_getsockopt i l n True k s), s)),
     so_setsockopt = LocalSocket_setsockopt\<rparr>"


lemma sock_add_file_stream [sock_simps]: "sock (add_file_stream fd st s) j = sock s j"
  by (auto simp: sock_def add_file_stream_def AddFileStream_def AddFileRef_def upd_stream_def Let_def
      split: prod.splits option.splits)

lemma refs_add_file_stream [sock_simps]:
  "refs (add_file_stream fd st s) t = (if st = Some t then refs s t + 1 else refs s t)"
  by (auto simp: refs_def add_file_stream_def AddFileStream_def AddFileRef_def upd_stream_def Let_def
      split: prod.splits option.splits)

lemma world_first_unused: "GetFirstUnusedDescriptorLocked s = (fd, s') \<Longrightarrow> v_world s' = v_world s"
  by (auto simp: GetFirstUnusedDescriptorLocked_def GetFirstUnusedDescriptor_def AddFileStream_def Let_def
      split: prod.splits if_splits option.splits)

lemma LocalSocket_new:
  assumes "LocalSocket oflag typ dir s = (i, s')"
  shows "i = w_next (v_world s) \<and> w_next (v_world s') = i + 1 \<and> v_fds s' = v_fds s \<and>
    v_uid s' = v_uid s \<and> w_pid (v_world s') = w_pid (v_world s) \<and>
    sock s' = (sock s)(i := new_local_socket (w_pid (v_world s)) (uint (v_uid s)) typ dir)"
  using assms by (auto simp: LocalSocket_def Let_def sock_def upd_local_def upd_stream_def)

lemma set_peer_sock [sock_simps]:
  "sock (LocalSocket_set_peer i p s) = (sock s)(i := (sock s i)
     \<lparr>ls_peer := Some p, ls_state := SOCKET_CONNECTED, ls_peer_cred := ls_my_cred (sock s p)\<rparr>)"
  "v_fds (LocalSocket_set_peer i p s) = v_fds s"
  by (auto simp: LocalSocket_set_peer_def sock_simps fun_eq_iff)

lemma new_buffer:
  "cb_inv (ls_buffer (new_local_socket pid uid typ dir))"
  "cb_list (ls_buffer (new_local_socket pid uid typ dir)) = []"
  "typ = SOCK_STREAM \<Longrightarrow> dir \<noteq> WRITE_ONLY \<Longrightarrow> cb_capacity (ls_buffer (new_local_socket pid uid typ dir)) = kBufferSize"
  using cb_set_capacity_inv [OF CircularBuffer_inv, of kBufferSize] cb_set_capacity_list [OF CircularBuffer_inv, of kBufferSize]
    CircularBuffer_inv
  by (simp_all add: new_local_socket_def CircularBuffer_list) (simp add: cb_set_capacity_def Let_def)

lemma new_socket_fields [simp]:
  "ls_type (new_local_socket pid uid typ dir) = typ" "ls_dir (new_local_socket pid uid typ dir) = dir"
  "ls_state (new_local_socket pid uid typ dir) = SOCKET_NEW" "ls_peer (new_local_socket pid uid typ dir) = None"
  "ls_cmsg_fds (new_local_socket pid uid typ dir) = []" "ls_connection_queue (new_local_socket pid uid typ dir) = []"
  by (simp_all add: new_local_socket_def)

lemma fds_ok_frame:
  assumes "fds_ok s" "v_fds s' = v_fds s"
    and "\<And>t. fs_file_ref_count (w_streams (v_world s') t) = fs_file_ref_count (w_streams (v_world s) t)"
    and "\<And>t. fs_had_file_refs (w_streams (v_world s') t) = fs_had_file_refs (w_streams (v_world s) t)"
  shows "fds_ok s'"
  using assms by (simp add: fds_ok_def refs_exact_def)

text \<open>
  Making a pipe: the two descriptors are free before and bound to two new sockets after, the
  second of which sends to the first. That the new socket numbers are fresh is an assumption on
  the world: objects beyond \<open>w_next\<close> have no references.
\<close>

definition fresh_ok :: "'a local_world_scheme \<Rightarrow> bool" where
  "fresh_ok w \<longleftrightarrow> (\<forall>i \<ge> w_next w. fs_file_ref_count (w_streams w i) = 0 \<and> \<not> fs_had_file_refs (w_streams w i))"

lemma LocalSocket_fresh:
  assumes "fresh_ok (v_world s)" "LocalSocket oflag typ dir s = (i, s')"
  shows "fresh_ok (v_world s') \<and>
    fs_file_ref_count (w_streams (v_world s') t) = fs_file_ref_count (w_streams (v_world s) t) \<and>
    fs_had_file_refs (w_streams (v_world s') t) = fs_had_file_refs (w_streams (v_world s) t)"
proof -
  have "w_streams (v_world s') = (w_streams (v_world s))(w_next (v_world s) := (FileStream oflag [] 0)
      \<lparr>fs_permission := \<lparr>file_uid = v_uid s, is_writable = True\<rparr>, fs_is_listening_enabled := True\<rparr>)"
    "w_next (v_world s') = w_next (v_world s) + 1"
    using assms(2) by (auto simp: LocalSocket_def Let_def upd_stream_def upd_local_def)
  then show ?thesis using assms(1) by (simp add: fresh_ok_def FileStream_def)
qed

lemma connected_pair_local:
  assumes ok: "fds_ok s" and r: "connected_pair local_ops vt (New_LocalSocket o1 typ d1) (New_LocalSocket o2 typ d2) s = (Ret (fd1, fd2), s')"
    and fresh: "fresh_ok (v_world s)"
  defines "i \<equiv> w_next (v_world s)" and "j \<equiv> w_next (v_world s) + 1"
  defines "new \<equiv> new_local_socket (w_pid (v_world s)) (uint (v_uid s)) typ"
  shows "fd1 \<noteq> fd2 \<and> bound s fd1 = None \<and> bound s fd2 = None \<and>
    bound s' = (bound s)(fd1 \<mapsto> Some i, fd2 \<mapsto> Some j) \<and> fds_ok s' \<and> refs s' i = 1 \<and> refs s' j = 1 \<and>
    sock s' = (sock s)(i := (new d1)\<lparr>ls_peer := Some j, ls_state := SOCKET_CONNECTED, ls_peer_cred := ls_my_cred (new d2)\<rparr>,
                       j := (new d2)\<lparr>ls_peer := Some i, ls_state := SOCKET_CONNECTED, ls_peer_cred := ls_my_cred (new d1)\<rparr>)"
proof -
  obtain f1 s1 where g1: "GetFirstUnusedDescriptorLocked s = (f1, s1)" by fastforce
  obtain f2 s2 where g2: "GetFirstUnusedDescriptorLocked s1 = (f2, s2)" by fastforce
  obtain a s3 where n1: "LocalSocket o1 typ d1 s2 = (a, s3)" by fastforce
  obtain b s4 where n2: "LocalSocket o2 typ d2 s3 = (b, s4)" by fastforce
  define s5 where "s5 = LocalSocket_set_peer b a (LocalSocket_set_peer a b s4)"
  have f: "\<not> f1 < 0" "\<not> f2 < 0" "fd1 = f1" "fd2 = f2" "s' = add_file_stream f2 (Some b) (add_file_stream f1 (Some a) s5)"
    using r g1 g2 n1 n2
    by (auto simp: connected_pair_def local_ops_def Let_def s5_def split: if_splits outcome.splits)
  note e1 = GetFirstUnusedDescriptorLocked_effect [OF ok g1]
  have ok1: "fds_ok s1" "bound s f1 = None" "bound s1 = (bound s)(f1 \<mapsto> None)" using e1 f by auto
  have ok2: "fds_ok s2" "bound s1 f2 = None" "bound s2 = (bound s1)(f2 \<mapsto> None)"
    using GetFirstUnusedDescriptorLocked_effect [OF ok1(1) g2] f by auto
  have ne: "f1 \<noteq> f2" using ok1 ok2 by auto
  have w: "v_world s2 = v_world s" using world_first_unused [OF g1] world_first_unused [OF g2] by simp
  have u: "v_uid s2 = v_uid s" using g1 g2 by (auto simp: GetFirstUnusedDescriptorLocked_def split: prod.splits)
  have fresh2: "fresh_ok (v_world s2)" using fresh by (simp add: w)
  have sock2: "sock s2 = sock s" by (simp add: sock_def w fun_eq_iff)
  have ids: "a = i" "b = j" using LocalSocket_new [OF n1] LocalSocket_new [OF n2] by (simp_all add: i_def j_def w)
  have so: "sock s5 = (sock s)(i := (new d1)\<lparr>ls_peer := Some j, ls_state := SOCKET_CONNECTED, ls_peer_cred := ls_my_cred (new d2)\<rparr>,
        j := (new d2)\<lparr>ls_peer := Some i, ls_state := SOCKET_CONNECTED, ls_peer_cred := ls_my_cred (new d1)\<rparr>)"
  proof -
    have "sock s4 = (sock s)(i := new d1, j := new d2)"
      using LocalSocket_new [OF n1] LocalSocket_new [OF n2] w u sock2 by (simp add: ids new_def)
    then show ?thesis by (auto simp: s5_def ids sock_simps fun_eq_iff i_def j_def)
  qed
  have ok5: "fds_ok s5"
  proof (rule fds_ok_frame [OF ok2(1)])
    show "v_fds s5 = v_fds s2"
      using LocalSocket_new [OF n1] LocalSocket_new [OF n2] by (simp add: s5_def sock_simps)
    show "fs_file_ref_count (w_streams (v_world s5) t) = fs_file_ref_count (w_streams (v_world s2) t)"
      "fs_had_file_refs (w_streams (v_world s5) t) = fs_had_file_refs (w_streams (v_world s2) t)" for t
      using LocalSocket_fresh [OF fresh2 n1, of t] LocalSocket_fresh [OF _ n2, of t]
      by (simp_all add: s5_def LocalSocket_set_peer_def sock_simps)
  qed
  have b5: "bound s5 = bound s2"
    using LocalSocket_new [OF n1] LocalSocket_new [OF n2] by (simp add: s5_def sock_simps bound_def)
  have a1: "fds_ok (add_file_stream f1 (Some a) s5) \<and> bound (add_file_stream f1 (Some a) s5) = (bound s5)(f1 \<mapsto> Some a)"
    by (rule add_file_stream_effect [OF ok5]) (use ok1 ok2 b5 ne f in \<open>auto simp: GetStream_bound\<close>)
  have a2: "fds_ok s' \<and> bound s' = (bound (add_file_stream f1 (Some a) s5))(f2 \<mapsto> Some b)"
    unfolding f(5) by (rule add_file_stream_effect) (use a1 ok2 b5 ne f in \<open>auto simp: GetStream_bound\<close>)
  have "refs s5 t = refs s t" for t
    using LocalSocket_fresh [OF fresh2 n1, of t] LocalSocket_fresh [OF _ n2, of t]
    by (simp add: s5_def LocalSocket_set_peer_def sock_simps refs_def w)
  then have "refs s5 i = 0" "refs s5 j = 0" using fresh by (simp_all add: fresh_ok_def refs_def i_def j_def)
  then have "refs s' i = 1" "refs s' j = 1" by (simp_all add: f(5) sock_simps ids) (simp_all add: i_def j_def)
  moreover have "sock s' = sock s5" by (auto simp: f(5) sock_simps fun_eq_iff)
  ultimately show ?thesis using so a1 a2 b5 ok1 ok2 ne by (auto simp: f ids fun_eq_iff)
qed


lemma OnLastFileRef_local:
  "w_local (LocalSocket_OnLastFileRef i w) =
     (case ls_peer (w_local w i) of
        None \<Rightarrow> w_local w
      | Some p \<Rightarrow> w_local (upd_local i (\<lambda>l. l\<lparr>ls_peer := None\<rparr>) (upd_local p (\<lambda>l. l\<lparr>ls_peer := None\<rparr>) w)))"
  by (auto simp: LocalSocket_OnLastFileRef_def Let_def AbstractSocketNamespace_Bind_def LogdSocketNamespace_Bind_def
      w_Broadcast_def upd_local_def split: option.splits)

text \<open>Closing the only descriptor of a connected socket: the other end sees no peer any more.\<close>

lemma close_last_descriptor:
  assumes "fd_inv (v_fds s)" "bound s fd = Some (Some j)" "refs s j = 1" "ls_peer (sock s j) = Some i" "i \<noteq> j"
  shows "\<exists>s'. vfs_close local_vtable fd s = (Ret 0, s') \<and> bound s' = (bound s)(fd := None) \<and>
    sock s' = (sock s)(i := (sock s i)\<lparr>ls_peer := None\<rparr>, j := (sock s j)\<lparr>ls_peer := None\<rparr>)"
proof -
  have g: "GetStream fd (v_fds s) = Some j" using assms(2) by (simp add: GetStream_bound)
  obtain s' where s': "remove_file_stream local_vtable fd s = Ret s'" "bound s' = (bound s)(fd := None)"
    using assms(1,2) by (auto simp: remove_file_stream_def RemoveFileStream_def bound_def Let_def fd_inv_def map_of_smap_del)
  have w: "v_world s' = ReleaseFileRef local_vtable j (v_world s)"
    using s'(1) assms(2) by (auto simp: remove_file_stream_def RemoveFileStream_def bound_def Let_def split: outcome.splits)
  have fold_id: "fold (\<lambda>l w. w) ls w = w" for ls :: "sid list" and w :: "'a local_world_scheme"
    by (induction ls) auto
  have "sock s' = (sock s)(i := (sock s i)\<lparr>ls_peer := None\<rparr>, j := (sock s j)\<lparr>ls_peer := None\<rparr>)"
    using assms(3-5)
    by (auto simp: sock_def w ReleaseFileRef_def Let_def upd_stream_def refs_def local_vtable_def fold_id OnLastFileRef_local
        upd_local_def fun_eq_iff)
  with s' g show ?thesis by (simp add: vfs_close_def CloseLocked_def)
qed

lemma write_now:
  assumes "stream_link s i p" "buf \<noteq> []" "length buf \<le> room s p"
  shows "\<exists>s'. LocalSocket_write local_vtable i buf s = (Ret (int (length buf)), s') \<and>
    stream_link s' i p \<and> in_flight s' p = in_flight s p @ buf \<and> v_fds s' = v_fds s \<and>
    (\<forall>k. sock s' k = (sock s k)\<lparr>ls_buffer := ls_buffer (sock s' k)\<rparr> \<and> refs s' k = refs s k)"
proof -
  obtain r s' where r: "LocalSocket_sendmsg local_vtable i (plain_msg buf) 0 s = (r, s')" by fastforce
  have m: "concat (msg_iov (plain_msg buf)) = buf" "msg_controllen (plain_msg buf) = 0" by (simp_all add: plain_msg_def)
  have min: "min (length buf) (room s p) = length buf" using assms(3) by simp
  from stream_send_effect [OF local_vt.socket_vtable_axioms assms(1) m(2) r, unfolded m(1) min] r assms(2)
  show ?thesis by (auto simp: LocalSocket_write_def LocalSocket_send_def LocalSocket_sendto_def)
qed

lemma read_now:
  assumes "stream_link s i p" "in_flight s p \<noteq> []" "0 < count"
  shows "\<exists>s'. LocalSocket_read local_vtable p count s h = Some (Ret (take count (in_flight s p)), s') \<and>
    stream_link s' i p \<and> in_flight s' p = drop count (in_flight s p) \<and> v_fds s' = v_fds s \<and>
    (\<forall>k. sock s' k = (sock s k)\<lparr>ls_buffer := ls_buffer (sock s' k)\<rparr> \<and> refs s' k = refs s k)"
proof -
  let ?m = "plain_msg (replicate count 0)"
  obtain r msg s' where f: "recvmsg_finish local_vtable p ?m s = (r, msg, s')" by (metis prod_cases3)
  have p: "ls_type (sock s p) = SOCK_STREAM" "ls_state (sock s p) = SOCKET_CONNECTED" "ls_dir (sock s p) \<noteq> WRITE_ONLY"
    "cb_inv (ls_buffer (sock s p))" using assms(1) by (auto simp: stream_link_def)
  have "0 < cb_size (ls_buffer (sock s p))"
    using assms(2) unfolding in_flight_def length_greater_0_conv [symmetric] length_cb_list [OF p(4)] .
  with p have now: "LocalSocket_recvmsg local_vtable p ?m 0 s h = Some (r, msg, s')"
    by (simp add: stream_recvmsg_now f)
  have m: "msg_iov ?m = [replicate count 0]" "length (concat (msg_iov ?m)) = count" by (simp_all add: plain_msg_def)
  define bs where "bs = take count (in_flight s p)"
  have bs: "bs \<noteq> []" "length bs \<le> count" using assms(2,3) by (simp_all add: bs_def)
  note e = stream_recv_effect [OF local_vt.socket_vtable_axioms assms(1) f, unfolded m(2), folded bs_def]
  have "take (length bs) (concat (msg_iov msg)) = bs"
    using concat_fill_iov [of bs "msg_iov ?m"] bs e m(2) by simp
  moreover have "drop (length bs) (in_flight s p) = drop count (in_flight s p)"
    by (cases "count \<le> length (in_flight s p)") (simp_all add: bs_def)
  ultimately show ?thesis
    using e bs assms(3) now
    by (auto simp: LocalSocket_read_def LocalSocket_recv_def LocalSocket_recvfrom_def bs_def [symmetric])
qed

lemma read_eof:
  assumes "ls_type (sock s p) = SOCK_STREAM" "ls_state (sock s p) = SOCKET_CONNECTED" "ls_dir (sock s p) \<noteq> WRITE_ONLY"
    and "ls_peer (sock s p) = None" "cb_inv (ls_buffer (sock s p))" "cb_list (ls_buffer (sock s p)) = []"
  shows "\<exists>s'. LocalSocket_read vt p count s h = Some (Ret [], s')"
proof -
  have "cb_size (ls_buffer (sock s p)) = 0" using length_cb_list [OF assms(5)] assms(6) by simp
  then have "recv_data lens (sock s p) = ([], 0, ls_peer_cred (sock s p), sock s p)" for lens
    by (simp add: recv_data_def assms(1))
  from recvmsg_finish_empty [OF this] assms show ?thesis
    by (simp add: LocalSocket_read_def LocalSocket_recv_def LocalSocket_recvfrom_def stream_recvmsg_now socket_consts)
qed


text \<open>A file system just made, with descriptors 0 to 9 and no socket.\<close>

definition start_world :: local_world where
  "start_world = \<lparr>w_streams = \<lambda>_. FileStream 0 [] 0, w_local = \<lambda>_. new_local_socket 0 0 SOCK_STREAM READ_WRITE,
     w_abstract = [], w_abstract_updates = UpdateProducer, w_logd = [], w_next = 0, w_pid = 1, w_broadcasts = 0\<rparr>"

definition start_vfs :: "local_world vfs" where
  "start_vfs = VirtualFileSystem False 0 9 ''/'' 0 0 start_world"

lemma start_vfs_ok: "fds_ok start_vfs" "fresh_ok (v_world start_vfs)"
proof -
  have "refs_exact (FdToFileStreamMap 0 9) start_world"
    by (simp add: refs_exact_def FdToFileStreamMap_inv start_world_def FileStream_def)
  then show "fds_ok start_vfs"
    by (auto simp: fds_ok_def start_vfs_def VirtualFileSystem_def FdToFileStreamMap_inv)
      (auto simp: FdToFileStreamMap_def)
  show "fresh_ok (v_world start_vfs)"
    by (simp add: fresh_ok_def start_vfs_def VirtualFileSystem_def start_world_def FileStream_def)
qed

lemma first_unused_locked:
  assumes "fm_unused_fds (v_fds s) = fd # rest" "\<forall>x \<in> set rest. fd \<le> x" "0 \<le> fd" "map_of (fm_streams (v_fds s)) fd = None" "fd \<notin> set rest"
  shows "GetFirstUnusedDescriptorLocked s =
    (fd, s\<lparr>v_fds := (v_fds s)\<lparr>fm_streams := smap_put fd None (fm_streams (v_fds s)), fm_unused_fds := rest\<rparr>\<rparr>)"
proof -
  have "heap_front (fd # rest) = fd" using assms(2) by (auto simp: heap_front_def Min_eq_iff)
  moreover have "filter (\<lambda>x. x \<noteq> fd) rest = rest" using assms(5) by (auto simp: filter_id_conv)
  ultimately show ?thesis
    using assms by (simp add: GetFirstUnusedDescriptorLocked_def GetFirstUnusedDescriptor_def heap_pop_def AddFileStream_def Let_def)
qed

lemma start_pipe: "\<exists>s. vfs_pipe2 local_ops local_vtable flags start_vfs = (Ret (0, 1), s)"
proof -
  have u: "[0 .. 9 :: int] = [0, 1, 2, 3, 4, 5, 6, 7, 8, 9]" by (simp add: upto_rec1)
  have 1: "GetFirstUnusedDescriptorLocked start_vfs = (0, start_vfs\<lparr>v_fds := (v_fds start_vfs)
      \<lparr>fm_streams := [(0, None)], fm_unused_fds := [1, 2, 3, 4, 5, 6, 7, 8, 9]\<rparr>\<rparr>)"
    by (subst first_unused_locked [of _ 0 "[1, 2, 3, 4, 5, 6, 7, 8, 9]"])
      (simp_all add: start_vfs_def VirtualFileSystem_def FdToFileStreamMap_def u)
  define s1 where "s1 = start_vfs\<lparr>v_fds := (v_fds start_vfs)
      \<lparr>fm_streams := [(0, None)], fm_unused_fds := [1, 2, 3, 4, 5, 6, 7, 8, 9]\<rparr>\<rparr>"
  have "\<exists>s2. GetFirstUnusedDescriptorLocked s1 = (1, s2)"
    by (subst first_unused_locked [of _ 1 "[2, 3, 4, 5, 6, 7, 8, 9]"]) (simp_all add: s1_def)
  with 1 show ?thesis
    by (auto simp: vfs_pipe2_def connected_pair_def s1_def [symmetric] local_ops_def LocalSocket_def Let_def)
qed

section \<open>Properties of byte streams\<close>

text \<open>
  C6. A connected stream socket loses, repeats and reorders nothing: for every interleaving of
  vectored sends at one end and vectored receives at the other, the bytes that were on their way at
  the start followed by the bytes the sends reported as sent are exactly the bytes the receives
  delivered followed by those still on their way, which never exceed the buffer's capacity.
\<close>

theorem stream_loses_nothing:
  assumes "socket_vtable vt" "stream_link s i p" "stream_run vt i p acts s = (sent, got, s')"
  shows "in_flight s p @ sent = got @ in_flight s' p \<and>
    length (in_flight s' p) \<le> cb_capacity (ls_buffer (sock s p)) \<and> stream_link s' i p"
proof -
  note e = stream_run_link [OF assms]
  then have "cb_inv (ls_buffer (sock s' p))" by (simp add: stream_link_def)
  from cbq.bounded [OF this] e show ?thesis by (simp add: in_flight_def)
qed

text \<open>
  C7. The life of a pipe, through descriptors: after \<^verbatim>\<open>pipe2\<close>, what is written to the second
  descriptor (up to the buffer's size) is accepted completely and read back from the first; after
  the second descriptor is closed, reading the first gives end of file.
\<close>

theorem pipe_life:
  assumes "fds_ok s" "fresh_ok (v_world s)"
    and "vfs_pipe2 local_ops local_vtable flags s = (Ret (r, w), s1)"
    and "buf \<noteq> []" "length buf \<le> kBufferSize" "length buf \<le> count"
  shows "\<exists>s2 s3 s4 s5. vfs_write local_ops w buf s1 = (Ret (length buf), s2) \<and>
    vfs_read local_ops r count s2 = (Ret buf, s3) \<and>
    vfs_close local_vtable w s3 = (Ret 0, s4) \<and> vfs_read local_ops r count s4 = (Ret [], s5)"
proof -
  define i j where "i = w_next (v_world s)" and "j = w_next (v_world s) + 1"
  have ij: "i \<noteq> j" by (simp add: i_def j_def)
  note c = connected_pair_local [OF assms(1) assms(3) [unfolded vfs_pipe2_def] assms(2), folded i_def j_def]
  have g: "GetStream r (v_fds s1) = Some i" "GetStream w (v_fds s1) = Some j" "fds_ok s1" "refs s1 j = 1"
    using c by (auto simp: GetStream_bound)
  let ?new = "new_local_socket (w_pid (v_world s)) (uint (v_uid s)) SOCK_STREAM"
  have s1: "sock s1 i = (?new READ_ONLY)\<lparr>ls_peer := Some j, ls_state := SOCKET_CONNECTED, ls_peer_cred := ls_my_cred (?new WRITE_ONLY)\<rparr>"
    "sock s1 j = (?new WRITE_ONLY)\<lparr>ls_peer := Some i, ls_state := SOCKET_CONNECTED, ls_peer_cred := ls_my_cred (?new READ_ONLY)\<rparr>"
    using c ij by auto
  have l1: "stream_link s1 j i"
    unfolding stream_link_def using new_buffer s1 by simp
  have f1: "in_flight s1 i = []" "room s1 i = kBufferSize"
    using s1 by (simp_all add: in_flight_def room_def new_buffer)
  obtain s2 where s2: "LocalSocket_write local_vtable j buf s1 = (Ret (int (length buf)), s2)" "stream_link s2 j i"
    "in_flight s2 i = buf" "v_fds s2 = v_fds s1"
    "\<forall>k. sock s2 k = (sock s1 k)\<lparr>ls_buffer := ls_buffer (sock s2 k)\<rparr> \<and> refs s2 k = refs s1 k"
    using write_now [OF l1 assms(4)] assms(5) f1 by auto
  have "0 < count" using assms(4,6) by (cases count) auto
  then obtain s3 where s3: "LocalSocket_read local_vtable i count s2 [] = Some (Ret buf, s3)" "stream_link s3 j i"
    "in_flight s3 i = []" "v_fds s3 = v_fds s1"
    "\<forall>k. sock s3 k = (sock s2 k)\<lparr>ls_buffer := ls_buffer (sock s3 k)\<rparr> \<and> refs s3 k = refs s2 k"
    using read_now [OF s2(2), of count "[]"] s2(3,4) assms(4,6) by auto
  have peer3: "ls_peer (sock s3 j) = Some i" "refs s3 j = 1"
    using s3(2) s3(5) s2(5) g(4) by (auto simp: stream_link_def)
  have b3: "bound s3 = bound s1" by (simp add: bound_def s3(4))
  have "fd_inv (v_fds s3)" "bound s3 w = Some (Some j)" using g(3) c by (auto simp: s3(4) fds_ok_def b3)
  from close_last_descriptor [OF this peer3(2,1) ij] obtain s4 where
    s4: "vfs_close local_vtable w s3 = (Ret 0, s4)" "bound s4 = (bound s3)(w := None)"
      "sock s4 = (sock s3)(i := (sock s3 i)\<lparr>ls_peer := None\<rparr>, j := (sock s3 j)\<lparr>ls_peer := None\<rparr>)" by blast
  have "\<exists>s5. LocalSocket_read local_vtable i count s4 [] = Some (Ret [], s5)"
    by (rule read_eof) (use s3(2,3) ij in \<open>simp_all add: s4(3) stream_link_def in_flight_def\<close>)
  moreover have "GetStream r (v_fds s4) = Some i"
    using c b3 by (auto simp: GetStream_bound s4(2))
  ultimately show ?thesis
    using s2(1,4) s3(1,4) s4(1) g
    by (auto simp: vfs_write_def vfs_read_def with_stream_def local_ops_def returned_def map_outcome_def)
qed

theorem pipe_life_witness:
  "\<exists>s1 s2 s3. vfs_pipe2 local_ops local_vtable 0 start_vfs = (Ret (0, 1), s1) \<and>
     vfs_write local_ops 1 [7, 8] s1 = (Ret 2, s2) \<and> vfs_read local_ops 0 5 s2 = (Ret [7, 8], s3)"
proof -
  obtain s1 where s1: "vfs_pipe2 local_ops local_vtable 0 start_vfs = (Ret (0, 1), s1)" using start_pipe by blast
  have "length [7, 8 :: byte] \<le> kBufferSize" by (simp add: kBufferSize_def)
  with pipe_life [OF start_vfs_ok s1, of "[7, 8]" 5] s1 show ?thesis by fastforce
qed

text \<open>Two connected sockets of that file system: number 1 sends to number 0.\<close>

definition linked_vfs :: "local_world vfs" where
  "linked_vfs = LocalSocket_set_peer 1 0 (LocalSocket_set_peer 0 1
     (upd_sock 0 (\<lambda>_. new_local_socket 1 0 SOCK_STREAM READ_WRITE) (upd_sock 1 (\<lambda>_. new_local_socket 1 0 SOCK_STREAM READ_WRITE) start_vfs)))"

lemma linked_vfs_link: "stream_link linked_vfs 1 0" "in_flight linked_vfs 0 = []"
  by (simp_all add: linked_vfs_def stream_link_def in_flight_def sock_simps new_buffer)

theorem stream_loses_nothing_witness:
  "let (sent, got, s') = stream_run local_vtable 1 0 [Act_send [[1, 2], [3]], Act_recv [[0, 0]]] linked_vfs
   in sent = got @ in_flight s' 0"
proof -
  obtain sent got s' where r: "stream_run local_vtable 1 0 [Act_send [[1, 2], [3]], Act_recv [[0, 0]]] linked_vfs = (sent, got, s')"
    by (metis prod_cases3)
  from stream_loses_nothing [OF local_vt.socket_vtable_axioms linked_vfs_link(1) r] linked_vfs_link(2) show ?thesis
    by (simp only: r Let_def split_conv append_Nil)
qed


section \<open>Datagrams\<close>

lemma copy_datagram_eq: "copy_datagram lens content = (take (sum_list lens) content, drop (sum_list lens) content)"
proof (induction lens content rule: copy_datagram.induct)
  case (2 len lens rest)
  then show ?case by (cases "length rest \<le> len") (simp_all add: min_def Let_def take_add add.commute)
qed simp

definition packet_link :: "'a lvfs \<Rightarrow> sid \<Rightarrow> sid \<Rightarrow> bool" where
  "packet_link s i p \<longleftrightarrow>
     ls_type (sock s i) \<noteq> SOCK_STREAM \<and> ls_state (sock s i) = SOCKET_CONNECTED \<and> ls_dir (sock s i) = READ_WRITE \<and>
     ls_peer (sock s i) = Some p \<and>
     ls_type (sock s p) \<noteq> SOCK_STREAM \<and> ls_state (sock s p) = SOCKET_CONNECTED \<and> ls_dir (sock s p) = READ_WRITE \<and>
     ls_cmsg_fds (sock s p) = []"

lemma packet_send_effect:
  assumes vt: "socket_vtable vt" and l: "packet_link s i p" and m: "msg_controllen msg = 0" "msg_iov msg \<noteq> []"
    and r: "LocalSocket_sendmsg vt i msg flags s = (r, s')"
  shows "r = Ret (int (length (concat (msg_iov msg)))) \<and> packet_link s' i p \<and>
    ls_queue (sock s' p) = ls_queue (sock s p) @ [\<lparr>dg_cred = ls_my_cred (sock s i), dg_content = concat (msg_iov msg)\<rparr>]"
proof -
  let ?l = "(sock s p)\<lparr>ls_queue := ls_queue (sock s p) @ [\<lparr>dg_cred = ls_my_cred (sock s i), dg_content = concat (msg_iov msg)\<rparr>]\<rparr>"
  let ?s = "upd_sock p (\<lambda>_. ?l) s"
  have sd: "send_data (msg_iov msg) (ls_my_cred (sock s i)) (sock s p) = (length (concat (msg_iov msg)), ?l)"
    using l m by (simp add: send_data_def packet_link_def)
  have "HandleSendmsgLocked vt p msg (ls_my_cred (sock s i)) s = (r, s')"
    using r l by (simp add: LocalSocket_sendmsg_def packet_link_def Let_def)
  then have s': "r = Ret (int (length (concat (msg_iov msg))))"
    "s' = (if 0 < length (concat (msg_iov msg)) then notify vt p (sys_Broadcast ?s) else ?s)"
    by (auto simp: HandleSendmsgLocked_def sd m Let_def split: if_splits)
  have "sock s' = (sock s)(p := ?l)"
    by (auto simp: s'(2) fun_eq_iff socket_vtable.sock_notify [OF vt] sock_simps)
  then show ?thesis using l s'(1) by (auto simp: packet_link_def)
qed

lemma packet_recv_effect:
  assumes vt: "socket_vtable vt" and l: "packet_link s i p" and q: "ls_queue (sock s p) = d # rest"
    and f: "recvmsg_finish vt p msg s = (r, msg', s')"
  defines "bs \<equiv> take (length (concat (msg_iov msg))) (dg_content d)"
  shows "packet_link s' i p \<and> ls_queue (sock s' p) = rest \<and> msg_iov msg' = fill_iov (msg_iov msg) bs \<and>
    msg_flags msg' = (if length bs < length (dg_content d) then MSG_TRUNC else 0) \<and>
    (bs \<noteq> [] \<longrightarrow> r = Ret (int (length bs)))"
proof -
  define n where "n = sum_list (map length (msg_iov msg))"
  have bs: "bs = take n (dg_content d)" by (simp add: bs_def n_def length_concat)
  have ty: "ls_type (sock s p) \<noteq> SOCK_STREAM" using l by (simp add: packet_link_def)
  have rd: "recv_data (map length (msg_iov msg)) (sock s p) =
      (bs, if length bs < length (dg_content d) then MSG_TRUNC else 0, dg_cred d, (sock s p)\<lparr>ls_queue := rest\<rparr>)"
    unfolding recv_data_def copy_datagram_eq n_def [symmetric] using ty q by (simp add: bs)
  define s1 where "s1 = upd_sock p (\<lambda>_. (sock s p)\<lparr>ls_queue := rest\<rparr>) s"
  have s1: "sock s1 = (sock s)(p := (sock s p)\<lparr>ls_queue := rest\<rparr>)" by (auto simp: s1_def fun_eq_iff sock_simps)
  have rr: "recv_rights vt p (msg_controllen msg) s1 = ([], 0, 0, s1)"
    using l by (simp add: recv_rights_def s1 packet_link_def)
  have "sock s' = sock s1 \<and> msg_iov msg' = fill_iov (msg_iov msg) bs \<and>
    msg_flags msg' = (if length bs < length (dg_content d) then MSG_TRUNC else 0) \<and> (bs \<noteq> [] \<longrightarrow> r = Ret (int (length bs)))"
  proof (cases "bs = []")
    case True
    with f recvmsg_finish_empty [of msg s p _ "dg_cred d" _ vt] rd show ?thesis by (auto simp: s1_def)
  next
    case False
    obtain control len' where "recv_cred (dg_cred d) (ls_pass_cred (sock s1 p)) (msg_controllen msg) ([], 0) = (control, len')"
      by fastforce
    from recvmsg_finish_data [OF rd False s1_def [symmetric] rr this] f False show ?thesis
      by (auto simp: socket_vtable.sock_notify [OF vt] fun_eq_iff split: option.splits)
  qed
  then show ?thesis using l s1 by (auto simp: packet_link_def)
qed

lemma packet_read_ready:
  assumes "packet_link s i p" "ls_queue (sock s p) \<noteq> []"
  shows "LocalSocket_recvmsg vt p msg flags s h = Some (recvmsg_finish vt p msg s)"
proof -
  have l: "ls_dir (sock s p) = READ_WRITE" "ls_state (sock s p) = SOCKET_CONNECTED" "CanRead p s"
    using assms by (auto simp: packet_link_def CanRead_def Let_def)
  have "LocalSocket_GetPollEvents p s = POLLIN OR ((if CanWrite p s then POLLOUT else 0)
      OR (if ls_type (sock s p) \<noteq> SOCK_DGRAM \<and> ls_peer (sock s p) = None then POLLHUP else 0))"
    unfolding LocalSocket_GetPollEvents_def Let_def using l by (simp add: or.assoc)
  then have "LocalSocket_IsSelectReadReady p s" using poll_in_ready by (simp add: LocalSocket_IsSelectReadReady_def)
  with l show ?thesis by (simp add: LocalSocket_recvmsg_def wait_while_now)
qed

text \<open>Writing a list of packets at one end and reading with buffers of the given sizes at the other.\<close>

fun write_packets :: "'a local_world_scheme vtable \<Rightarrow> sid \<Rightarrow> byte list list \<Rightarrow> 'a lvfs \<Rightarrow> int outcome list \<times> 'a lvfs" where
  "write_packets vt i [] s = ([], s)"
| "write_packets vt i (d # ds) s =
     (let (r, s1) = LocalSocket_write vt i d s; (rs, s2) = write_packets vt i ds s1 in (r # rs, s2))"

fun read_packets :: "'a local_world_scheme vtable \<Rightarrow> sid \<Rightarrow> nat list \<Rightarrow> 'a lvfs \<Rightarrow> (byte list outcome list \<times> 'a lvfs) option" where
  "read_packets vt p [] s = Some ([], s)"
| "read_packets vt p (n # ns) s =
     (case LocalSocket_read vt p n s [] of
        None \<Rightarrow> None
      | Some (r, s1) \<Rightarrow> (case read_packets vt p ns s1 of None \<Rightarrow> None | Some (rs, s2) \<Rightarrow> Some (r # rs, s2)))"

lemma write_packets_effect:
  assumes "socket_vtable vt" "packet_link s i p" "\<forall>d \<in> set ds. d \<noteq> []" "write_packets vt i ds s = (rs, s')"
  shows "rs = map (\<lambda>d. Ret (int (length d))) ds \<and> packet_link s' i p \<and>
    map dg_content (ls_queue (sock s' p)) = map dg_content (ls_queue (sock s p)) @ ds"
  using assms(2-)
proof (induction ds arbitrary: s rs)
  case (Cons d ds)
  obtain r s1 where r: "LocalSocket_write vt i d s = (r, s1)" by fastforce
  obtain rs1 where t: "write_packets vt i ds s1 = (rs1, s')" "rs = r # rs1"
    using Cons.prems(3) r by (auto split: prod.splits)
  have "LocalSocket_sendmsg vt i (plain_msg d) 0 s = (r, s1)"
    using r Cons.prems(2) by (simp add: LocalSocket_write_def LocalSocket_send_def LocalSocket_sendto_def)
  from packet_send_effect [OF assms(1) Cons.prems(1) _ _ this]
  have e: "r = Ret (int (length d))" "packet_link s1 i p"
    "map dg_content (ls_queue (sock s1 p)) = map dg_content (ls_queue (sock s p)) @ [d]"
    by (simp_all add: plain_msg_def)
  with Cons.IH [OF e(2) _ t(1)] Cons.prems(2) show ?case by (simp add: t(2))
qed auto

lemma read_packet:
  assumes "socket_vtable vt" "packet_link s i p" "ls_queue (sock s p) = d # q" "dg_content d \<noteq> []" "0 < n"
  shows "\<exists>s'. LocalSocket_read vt p n s [] = Some (Ret (take n (dg_content d)), s') \<and> packet_link s' i p \<and> ls_queue (sock s' p) = q"
proof -
  let ?m = "plain_msg (replicate n 0)"
  obtain r msg s' where f: "recvmsg_finish vt p ?m s = (r, msg, s')" by (metis prod_cases3)
  define bs where "bs = take n (dg_content d)"
  have m: "length (concat (msg_iov ?m)) = n" by (simp add: plain_msg_def)
  have bs: "bs \<noteq> []" "length bs \<le> n" using assms(4,5) by (simp_all add: bs_def)
  note e = packet_recv_effect [OF assms(1-3) f, unfolded m, folded bs_def]
  have "take (length bs) (concat (msg_iov msg)) = bs"
    using concat_fill_iov [of bs "msg_iov ?m"] bs e m by simp
  with e bs assms(3,5) f packet_read_ready [OF assms(2), of vt ?m 0 "[]"] show ?thesis
    by (auto simp: LocalSocket_read_def LocalSocket_recv_def LocalSocket_recvfrom_def bs_def [symmetric])
qed

text \<open>
  C8. Packet sockets keep message boundaries and order: after any list of non-empty packets is
  written to one end of a connected pair whose queue was empty, reading the other end with buffers
  of any non-zero sizes delivers, packet by packet, the longest prefix of each that fits its buffer.
  The rest of a packet is dropped, never moved to the next read, and no call waits or fails.
\<close>

theorem packets_keep_boundaries:
  assumes "socket_vtable vt" "packet_link s i p" "ls_queue (sock s p) = []"
    and "\<forall>d \<in> set ds. d \<noteq> []" "\<forall>n \<in> set ns. 0 < n" "length ns = length ds"
    and "write_packets vt i ds s = (rs, s')"
  shows "rs = map (\<lambda>d. Ret (int (length d))) ds \<and>
    (\<exists>s''. read_packets vt p ns s' = Some (map (\<lambda>(n, d). Ret (take n d)) (zip ns ds), s'') \<and> ls_queue (sock s'' p) = [])"
proof -
  have read: "\<exists>s''. read_packets vt p ns t = Some (map (\<lambda>(n, d). Ret (take n d)) (zip ns ds), s'') \<and> ls_queue (sock s'' p) = []"
    if "packet_link t i p" "map dg_content (ls_queue (sock t p)) = ds" "\<forall>d \<in> set ds. d \<noteq> []"
      "\<forall>n \<in> set ns. 0 < n" "length ns = length ds" for t ns and ds :: "byte list list"
    using that
  proof (induction ns arbitrary: t ds)
    case (Cons n ns)
    then obtain d q where q: "ls_queue (sock t p) = d # q" "ds = dg_content d # map dg_content q" by (cases "ls_queue (sock t p)") auto
    have "dg_content d \<noteq> []" "0 < n" using Cons.prems q by auto
    from read_packet [OF assms(1) Cons.prems(1) q(1) this] obtain t1 where
      t1: "LocalSocket_read vt p n t [] = Some (Ret (take n (dg_content d)), t1)" "packet_link t1 i p" "ls_queue (sock t1 p) = q"
      by blast
    from Cons.IH [OF t1(2), of "map dg_content q"] Cons.prems q t1 show ?case by auto
  qed simp
  from write_packets_effect [OF assms(1,2,4,7)] assms(3) have "map dg_content (ls_queue (sock s' p)) = ds" "packet_link s' i p"
    "rs = map (\<lambda>d. Ret (int (length d))) ds" by auto
  with read [of s' ds ns] assms(4-6) show ?thesis by blast
qed


definition packet_vfs :: "local_world vfs" where
  "packet_vfs = LocalSocket_set_peer 1 0 (LocalSocket_set_peer 0 1
     (upd_sock 0 (\<lambda>_. new_local_socket 1 0 SOCK_DGRAM READ_WRITE) (upd_sock 1 (\<lambda>_. new_local_socket 1 0 SOCK_DGRAM READ_WRITE) start_vfs)))"

theorem packets_keep_boundaries_witness:
  "\<exists>s''. read_packets local_vtable 0 [2, 9] (snd (write_packets local_vtable 1 [[1, 2, 3], [4]] packet_vfs)) = Some ([Ret [1, 2], Ret [4]], s'')"
proof -
  have l: "packet_link packet_vfs 1 0" "ls_queue (sock packet_vfs 0) = []"
    by (simp_all add: packet_vfs_def packet_link_def sock_simps socket_consts) (simp add: new_local_socket_def)
  obtain rs s' where w: "write_packets local_vtable 1 [[1, 2, 3], [4]] packet_vfs = (rs, s')" by fastforce
  from packets_keep_boundaries [OF local_vt.socket_vtable_axioms l _ _ _ w, of "[2, 9]"]
  have "\<exists>s''. read_packets local_vtable 0 [2, 9] s' = Some ([Ret [1, 2], Ret [4]], s'')" by (auto simp del: read_packets.simps)
  then show ?thesis unfolding w snd_conv .
qed

section \<open>Names\<close>


section \<open>Descriptors in messages\<close>

lemma CMSG_SPACE_LEN: "CMSG_SPACE (CMSG_LEN (n * 4)) = 24 + n * 4" "CMSG_SPACE (n * 4) = 12 + n * 4"
  by (simp_all add: CMSG_SPACE_def CMSG_LEN_def CMSG_ALIGN_def)

lemma trim_fds_effect:
  assumes "fds_ok s" "quiet_vtable vt" "trim_fds vt controllen fds s = (kept, s')"
  shows "kept = take ((controllen - 24) div 4) fds \<and> fds_ok s' \<and>
    (\<forall>fd \<in> set (drop ((controllen - 24) div 4) fds). GetStream fd (v_fds s') = None) \<and>
    (\<forall>fd. GetStream fd (v_fds s) = None \<longrightarrow> GetStream fd (v_fds s') = None)"
  using assms
proof (induction vt controllen fds s arbitrary: kept s' rule: trim_fds.induct)
  case (1 vt n fds s)
  show ?case
  proof (cases "n < CMSG_SPACE (CMSG_LEN (length fds * 4)) \<and> fds \<noteq> []")
    case False
    then have k: "kept = fds" "s' = s" using 1(4) by (auto simp: trim_fds.simps [of vt n fds s])
    have "length fds \<le> (n - 24) div 4" using False by (auto simp: CMSG_SPACE_LEN)
    then show ?thesis using k 1(2) by simp
  next
    case True
    let ?s = "snd (CloseLocked vt (last fds) s)"
    note c = CloseLocked_effect [OF 1(3) 1(2), of "last fds"]
    have t: "trim_fds vt n (butlast fds) ?s = (kept, s')" using 1(4) True by (simp add: trim_fds.simps [of vt n fds s])
    note ih = 1(1) [OF True _ 1(3) t] c
    have le: "(n - 24) div 4 \<le> length (butlast fds)"
      using True unfolding CMSG_SPACE_LEN by (cases fds rule: rev_cases) auto
    have split: "fds = butlast fds @ [last fds]" using True by simp
    have "take ((n - 24) div 4) fds = take ((n - 24) div 4) (butlast fds)"
      "drop ((n - 24) div 4) fds = drop ((n - 24) div 4) (butlast fds) @ [last fds]"
      using le by (subst split, simp)+
    moreover have closed: "GetStream (last fds) (v_fds ?s) = None"
      "\<And>fd. GetStream fd (v_fds s) = None \<Longrightarrow> GetStream fd (v_fds ?s) = None"
      using c by (auto simp: GetStream_bound split: option.splits if_splits)
    ultimately show ?thesis using ih by auto
  qed
qed

text \<open>
  C13. Receiving passed descriptors into a control buffer of \<open>controllen\<close> bytes keeps as many as
  fit behind two headers: the size is computed as \<^verbatim>\<open>CMSG_SPACE(CMSG_LEN(...))\<close>. The others
  are closed and the message is marked \<^verbatim>\<open>MSG_CTRUNC\<close>. A buffer of \<^verbatim>\<open>CMSG_SPACE\<close> of the
  payload, which is enough for the message, loses its last three descriptors.
\<close>

theorem passed_descriptors_received:
  assumes "fds_ok s" "quiet_vtable vt" "ls_cmsg_fds (sock s i) = fds # rest"
    and "recv_rights vt i controllen s = (msgs, len, flags, s')"
  defines "fitting \<equiv> (controllen - 24) div 4"
  shows "(if 24 \<le> controllen
      then msgs = [\<lparr>cmsg_len = CMSG_LEN (length (take fitting fds) * 4), cmsg_level = SOL_SOCKET, cmsg_type = SCM_RIGHTS,
                     cmsg_data = concat (map int_bytes (take fitting fds))\<rparr>]
      else msgs = [] \<and> len = 0) \<and>
    flags = (if fitting < length fds then MSG_CTRUNC else 0) \<and>
    (\<forall>fd \<in> set (drop fitting fds). GetStream fd (v_fds s') = None) \<and>
    (controllen = CMSG_SPACE (length fds * 4) \<longrightarrow> fitting = length fds - 3)"
proof -
  obtain kept s1 where t: "trim_fds vt controllen fds s = (kept, s1)" by fastforce
  note e = trim_fds_effect [OF assms(1,2) t, folded fitting_def]
  have kept: "kept = take fitting fds" using e by simp
  have all: "kept = fds \<longleftrightarrow> \<not> fitting < length fds" using kept by (auto simp: not_less dest: arg_cong [where f = length])
  have small: "controllen < 24 + length kept * 4 \<longleftrightarrow> controllen < 24"
    unfolding kept fitting_def by (auto simp: min_def)
  have "msgs = (if controllen < 24 then [] else [\<lparr>cmsg_len = CMSG_LEN (length kept * 4), cmsg_level = SOL_SOCKET,
      cmsg_type = SCM_RIGHTS, cmsg_data = concat (map int_bytes kept)\<rparr>])"
    "controllen < 24 \<longrightarrow> len = 0" "flags = (if kept = fds then 0 else MSG_CTRUNC)" "v_fds s' = v_fds s1"
    using assms(3,4) by (auto simp: recv_rights_def t CMSG_SPACE_LEN small Let_def sock_simps split: if_splits)
  moreover have "controllen = CMSG_SPACE (length fds * 4) \<longrightarrow> fitting = length fds - 3"
    by (auto simp: CMSG_SPACE_LEN fitting_def)
  ultimately show ?thesis using e kept all by auto
qed


definition rights_vfs :: "local_world vfs" where
  "rights_vfs = upd_sock 0 (\<lambda>l. l\<lparr>ls_cmsg_fds := [[5]]\<rparr>) start_vfs"

lemma rights_vfs_ok: "fds_ok rights_vfs" "ls_cmsg_fds (sock rights_vfs 0) = [[5]]"
  by (rule fds_ok_frame [OF start_vfs_ok(1)]) (simp_all add: rights_vfs_def sock_simps)

theorem passed_descriptors_received_witness:
  "fst (recv_rights local_vtable 0 (CMSG_SPACE 4) rights_vfs) = [] \<and>
   fst (snd (snd (recv_rights local_vtable 0 (CMSG_SPACE 4) rights_vfs))) = MSG_CTRUNC"
proof -
  obtain msgs len flags s' where r: "recv_rights local_vtable 0 (CMSG_SPACE 4) rights_vfs = (msgs, len, flags, s')"
    by (metis prod_cases4)
  have "CMSG_SPACE 4 = 16" by (simp add: CMSG_SPACE_def CMSG_ALIGN_def)
  with passed_descriptors_received [OF rights_vfs_ok(1) local_vt.quiet_vtable_axioms rights_vfs_ok(2) r]
  have "msgs = [] \<and> flags = MSG_CTRUNC" by simp
  then show ?thesis unfolding r by simp
qed


end
