(* ===== verification/Local_Peers.thy ===== *)
theory Local_Peers
  imports Local_Socket_Laws
begin

text \<open>
  The peer relation of local sockets as a state machine. The steps are the whole operations of
  \<^verbatim>\<open>local_socket.cc\<close> that run under the lock; the invariant is kept by each of them, provided no
  thread calls \<^verbatim>\<open>connect\<close> on a socket for which another \<^verbatim>\<open>connect\<close> is pending.
\<close>

section \<open>The links between sockets\<close>

text \<open>Peers, states and queues of pending connections, and the next socket number.\<close>

type_synonym links = "(sid \<Rightarrow> sid option) \<times> (sid \<Rightarrow> connect_state) \<times> (sid \<Rightarrow> sid list) \<times> sid"

definition links_of :: "'a lvfs \<Rightarrow> links" where
  "links_of s = (\<lambda>i. ls_peer (sock s i), \<lambda>i. ls_state (sock s i), \<lambda>i. ls_connection_queue (sock s i), w_next (v_world s))"

definition peered :: "(sid \<Rightarrow> sid option) \<Rightarrow> (sid \<Rightarrow> connect_state) \<Rightarrow> sid \<Rightarrow> bool" where
  "peered P S n \<longleftrightarrow>
     (\<forall>i j. P i = Some j \<longrightarrow> P j = Some i \<and> i \<noteq> j \<and> i < n \<and> S i \<noteq> SOCKET_NEW \<and> S i \<noteq> SOCKET_CONNECTING)"

definition queued :: "(sid \<Rightarrow> sid option) \<Rightarrow> (sid \<Rightarrow> connect_state) \<Rightarrow> (sid \<Rightarrow> sid list) \<Rightarrow> sid \<Rightarrow> bool" where
  "queued P S Q n \<longleftrightarrow>
     (\<forall>l c. c \<in> set (Q l) \<longrightarrow> c < n \<and> P c = None \<and> S c \<noteq> SOCKET_NEW) \<and>
     (\<forall>l m c. c \<in> set (Q l) \<longrightarrow> c \<in> set (Q m) \<longrightarrow> l = m) \<and> (\<forall>l. distinct (Q l))"

definition links_ok :: "links \<Rightarrow> bool" where
  "links_ok = (\<lambda>(P, S, Q, n). peered P S n \<and> queued P S Q n)"

abbreviation peers_ok :: "'a lvfs \<Rightarrow> bool" where
  "peers_ok s \<equiv> links_ok (links_of s)"

lemma peeredD:
  assumes "peered P S n" "P i = Some j"
  shows "P j = Some i" "i \<noteq> j" "i < n" "j < n" "S i \<noteq> SOCKET_NEW" "S i \<noteq> SOCKET_CONNECTING"
  using assms unfolding peered_def by blast+

lemma queuedD:
  assumes "queued P S Q n"
  shows "c \<in> set (Q l) \<Longrightarrow> c < n" "c \<in> set (Q l) \<Longrightarrow> P c = None" "c \<in> set (Q l) \<Longrightarrow> S c \<noteq> SOCKET_NEW"
    "c \<in> set (Q l) \<Longrightarrow> c \<in> set (Q m) \<Longrightarrow> l = m" "distinct (Q l)"
  using assms unfolding queued_def by blast+

lemma links_okI: "peered P S n \<Longrightarrow> queued P S Q n \<Longrightarrow> links_ok (P, S, Q, n)"
  by (simp add: links_ok_def)

lemma links_okD: "links_ok (P, S, Q, n) \<Longrightarrow> peered P S n \<and> queued P S Q n"
  by (simp add: links_ok_def)

lemma peeredI:
  "(\<And>i j. P i = Some j \<Longrightarrow> P j = Some i \<and> i \<noteq> j \<and> i < n \<and> S i \<noteq> SOCKET_NEW \<and> S i \<noteq> SOCKET_CONNECTING) \<Longrightarrow> peered P S n"
  unfolding peered_def by blast

lemma peered_connect:
  assumes "peered P S n" "P a = None" "P b = None" "a \<noteq> b" "a < n" "b < n"
  shows "peered (P(a := Some b, b := Some a)) (S(a := SOCKET_CONNECTED, b := SOCKET_CONNECTED)) n"
proof (rule peeredI)
  fix i j assume ij: "(P(a := Some b, b := Some a)) i = Some j"
  show "(P(a := Some b, b := Some a)) j = Some i \<and> i \<noteq> j \<and> i < n \<and>
    (S(a := SOCKET_CONNECTED, b := SOCKET_CONNECTED)) i \<noteq> SOCKET_NEW \<and>
    (S(a := SOCKET_CONNECTED, b := SOCKET_CONNECTED)) i \<noteq> SOCKET_CONNECTING"
  proof (cases "i = a \<or> i = b")
    case True
    then show ?thesis using ij assms(4-) by (auto split: if_splits)
  next
    case False
    then have p: "P i = Some j" using ij by simp
    from peeredD [OF assms(1) p] assms(2,3) have "j \<noteq> a" "j \<noteq> b" by auto
    with False peeredD [OF assms(1) p] show ?thesis by simp
  qed
qed

lemma peered_fresh:
  assumes "peered P S n"
  shows "peered (P(n := None)) (S(n := x)) (Suc n)"
proof (rule peeredI)
  fix i j assume "(P(n := None)) i = Some j"
  then have p: "P i = Some j" "i \<noteq> n" by (auto split: if_splits)
  note d = peeredD [OF assms p(1)]
  then have "j \<noteq> n" by simp
  with d p(2) show "(P(n := None)) j = Some i \<and> i \<noteq> j \<and> i < Suc n \<and> (S(n := x)) i \<noteq> SOCKET_NEW \<and> (S(n := x)) i \<noteq> SOCKET_CONNECTING"
    by simp
qed

lemma peered_state:
  assumes "peered P S n" "x \<noteq> SOCKET_NEW \<and> x \<noteq> SOCKET_CONNECTING \<or> P i = None"
  shows "peered P (S(i := x)) n"
proof (rule peeredI)
  fix a b assume ab: "P a = Some b"
  from peeredD [OF assms(1) ab] assms(2) ab
  show "P b = Some a \<and> a \<noteq> b \<and> a < n \<and> (S(i := x)) a \<noteq> SOCKET_NEW \<and> (S(i := x)) a \<noteq> SOCKET_CONNECTING"
    by (cases "a = i") simp_all
qed

lemma queued_fresh: "queued P S Q n \<Longrightarrow> queued (P(n := p)) (S(n := x)) (Q(n := [])) (Suc n)"
  unfolding queued_def by (auto split: if_splits simp: less_SucI)

lemma queued_subset:
  assumes "queued P S Q n" "set xs \<subseteq> set (Q l)" "distinct xs"
  shows "queued P S (Q(l := xs)) n"
  using assms unfolding queued_def by (auto split: if_splits)

lemma queued_update:
  assumes "queued P S Q n" "\<And>l. c \<notin> set (Q l)"
  shows "queued (P(c := p)) (S(c := x)) Q n"
  using assms unfolding queued_def by auto

lemma queued_state:
  assumes "queued P S Q n" "x \<noteq> SOCKET_NEW"
  shows "queued P (S(i := x)) Q n"
  using assms unfolding queued_def by auto

lemma queued_push:
  assumes q: "queued P S Q n" and c: "\<And>m. c \<notin> set (Q m)" "c < n" "P c = None" "S c \<noteq> SOCKET_NEW"
  shows "queued P S (Q(l := Q l @ [c])) n"
  using queuedD [OF q] c unfolding queued_def by (auto split: if_splits)

section \<open>What each kind of step does to the links\<close>

lemma links_ok_new:
  "links_ok (P, S, Q, n) \<Longrightarrow> links_ok (P(n := None), S(n := SOCKET_NEW), Q(n := []), n + 1)"
  by (auto simp: links_ok_def peered_fresh queued_fresh)

lemma links_ok_connect:
  assumes "links_ok (P, S, Q, n)" "P a = None" "P b = None" "a \<noteq> b" "a < n" "b < n" "\<And>l. a \<notin> set (Q l)" "\<And>l. b \<notin> set (Q l)"
  shows "links_ok (P(a := Some b, b := Some a), S(a := SOCKET_CONNECTED, b := SOCKET_CONNECTED), Q, n)"
  using assms by (intro links_okI peered_connect queued_update) (auto dest: links_okD)

lemma links_ok_close:
  assumes "links_ok (P, S, Q, n)" "P i = Some p"
  shows "links_ok (P(p := None, i := None), S, Q, n)"
proof (rule links_okI)
  have ps: "peered P S n" and q: "queued P S Q n" using links_okD [OF assms(1)] by auto
  note ip = peeredD [OF ps assms(2)]
  show "peered (P(p := None, i := None)) S n"
  proof (rule peeredI)
    fix a b assume "(P(p := None, i := None)) a = Some b"
    then have ab: "P a = Some b" "a \<noteq> p" "a \<noteq> i" by (auto split: if_splits)
    from peeredD [OF ps ab(1)] ip assms(2) ab(2,3) have "b \<noteq> p" "b \<noteq> i" by auto
    with peeredD [OF ps ab(1)] show "(P(p := None, i := None)) b = Some a \<and> a \<noteq> b \<and> a < n \<and> S a \<noteq> SOCKET_NEW \<and> S a \<noteq> SOCKET_CONNECTING"
      by simp
  qed
  show "queued (P(p := None, i := None)) S Q n" using q unfolding queued_def by auto
qed

lemma links_ok_enqueue:
  assumes "links_ok (P, S, Q, n)" "S c = SOCKET_NEW" "c < n"
  shows "links_ok (P, S(c := SOCKET_CONNECTING), Q(l := Q l @ [c]), n)"
proof -
  have ps: "peered P S n" and q: "queued P S Q n" using links_okD [OF assms(1)] by auto
  have "P c = None" using peeredD(5) [OF ps] assms(2) by (cases "P c") auto
  moreover have "c \<notin> set (Q m)" for m using queuedD(3) [OF q] assms(2) by blast
  ultimately show ?thesis
    using assms(3) ps q by (intro links_okI peered_state queued_push queued_state) auto
qed

text \<open>Accepting: the new socket \<open>n\<close> and the first of the queue become peers.\<close>

lemma links_ok_accept:
  assumes "links_ok (P, S, Q, n)" "Q l = c # rest" "l \<noteq> n"
  shows "links_ok (P(n := Some c, c := Some n), S(n := SOCKET_CONNECTED, c := SOCKET_CONNECTED), Q(n := [], l := rest), n + 1)"
proof -
  have q: "queued P S Q n" using links_okD [OF assms(1)] by auto
  have cl: "c \<in> set (Q l)" using assms(2) by simp
  have c: "c < n" "P c = None" "c \<notin> set rest" "\<And>m. c \<in> set (Q m) \<Longrightarrow> l = m"
    using queuedD(1,2,4) [OF q cl] queuedD(5) [OF q, of l] assms(2) by auto
  have "links_ok (P(n := None), S(n := SOCKET_NEW), Q(n := [], l := rest), n + 1)"
    using links_ok_new [OF assms(1)] queued_subset [of "P(n := None)" "S(n := SOCKET_NEW)" "Q(n := [])" "Suc n" rest l] queuedD(5) [OF q, of l] assms(2,3)
    by (auto simp: links_ok_def)
  moreover have "n \<notin> set ((Q(n := [], l := rest)) m) \<and> c \<notin> set ((Q(n := [], l := rest)) m)" for m
  proof (cases "m = l")
    case True
    have "n \<notin> set rest" using queuedD(1) [OF q, of n l] assms(2) by auto
    with True c(3) show ?thesis by simp
  next
    case False
    have "n \<notin> set (Q m)" "c \<notin> set (Q m)" using queuedD(1) [OF q, of n m] c(4) [of m] False by blast+
    with False show ?thesis by simp
  qed
  ultimately have "links_ok ((P(n := None))(n := Some c, c := Some n), (S(n := SOCKET_NEW))(n := SOCKET_CONNECTED, c := SOCKET_CONNECTED),
      Q(n := [], l := rest), n + 1)"
    using c(1,2) by (intro links_ok_connect) auto
  then show ?thesis by simp
qed

section \<open>Steps\<close>

lemma notify_local_vtable [simp]: "notify local_vtable i s = s"
proof -
  have "fold (\<lambda>l w. w) ls w = w" for ls :: "sid list" and w :: "'a local_world_scheme" by (induction ls) auto
  then show ?thesis by (simp add: notify_def NotifyListeners_def local_vtable_def)
qed

lemma next_frame [sock_simps]:
  "w_next (v_world (upd_sock i f s)) = w_next (v_world s)" "w_next (v_world (sys_Broadcast s)) = w_next (v_world s)"
  "w_next (v_world (add_file_stream fd st s)) = w_next (v_world s)"
  by (auto simp: upd_sock_def upd_local_def sys_Broadcast_def w_Broadcast_def add_file_stream_def AddFileStream_def AddFileRef_def
      upd_stream_def Let_def split: prod.splits option.splits)

lemma links_of_eqI:
  assumes "\<And>j. ls_peer (sock s' j) = ls_peer (sock s j)" "\<And>j. ls_state (sock s' j) = ls_state (sock s j)"
    "\<And>j. ls_connection_queue (sock s' j) = ls_connection_queue (sock s j)" "w_next (v_world s') = w_next (v_world s)"
  shows "links_of s' = links_of s"
  using assms by (simp add: links_of_def)

lemma links_of_Broadcast [simp]: "links_of (sys_Broadcast s) = links_of s"
  by (rule links_of_eqI) (simp_all add: sock_simps)

lemma links_of_add [simp]: "links_of (add_file_stream fd st s) = links_of s"
  by (rule links_of_eqI) (simp_all add: sock_simps)

lemma links_of_world: "v_world s' = v_world s \<Longrightarrow> links_of s' = links_of s"
  by (simp add: links_of_def sock_def)

lemma links_of_upd:
  assumes "ls_peer (f (sock s i)) = ls_peer (sock s i)" "ls_state (f (sock s i)) = ls_state (sock s i)"
    "ls_connection_queue (f (sock s i)) = ls_connection_queue (sock s i)"
  shows "links_of (upd_sock i f s) = links_of s"
  using assms by (intro links_of_eqI) (simp_all add: sock_simps)

lemma next_OnLastFileRef: "w_next (LocalSocket_OnLastFileRef i w) = w_next w"
  by (auto simp: LocalSocket_OnLastFileRef_def Let_def AbstractSocketNamespace_Bind_def LogdSocketNamespace_Bind_def
      w_Broadcast_def upd_local_def split: option.splits)

lemma peers_ok_last_ref:
  assumes "peers_ok s" "w_local (v_world s') = w_local (LocalSocket_OnLastFileRef i (v_world s))" "w_next (v_world s') = w_next (v_world s)"
  shows "peers_ok s'"
proof (cases "ls_peer (sock s i)")
  case None
  then have "links_of s' = links_of s"
    using assms(2,3) by (simp add: links_of_def sock_def OnLastFileRef_local)
  with assms(1) show ?thesis by simp
next
  case (Some p)
  have "links_of s' = ((\<lambda>i. ls_peer (sock s i))(p := None, i := None), \<lambda>i. ls_state (sock s i), \<lambda>i. ls_connection_queue (sock s i), w_next (v_world s))"
    using assms(2,3) Some by (simp add: links_of_def sock_def OnLastFileRef_local upd_local_def fun_eq_iff)
  then show ?thesis using links_ok_close [OF assms(1) [unfolded links_of_def] Some] by simp
qed

lemma ReleaseFileRef_local_vtable:
  fixes w :: "'a local_world_scheme" and j :: sid
  defines "w' \<equiv> ReleaseFileRef local_vtable j w"
  shows "(w_local w' = w_local w \<or> w_local w' = w_local (LocalSocket_OnLastFileRef j w)) \<and> w_next w' = w_next w"
proof -
  have "fold (\<lambda>l w. w) ls v = v" for ls :: "sid list" and v :: "'a local_world_scheme"
    by (induction ls) auto
  then have "w' = upd_stream j (\<lambda>f. f\<lparr>fs_file_ref_count := fs_file_ref_count f - 1\<rparr>) w \<or>
    (\<exists>f g. w' = LocalSocket_OnLastFileRef j (upd_stream j f (upd_stream j g w)))"
    by (auto simp: w'_def ReleaseFileRef_def Let_def local_vtable_def)
  then show ?thesis
    by (auto simp: next_OnLastFileRef OnLastFileRef_local upd_stream_def upd_local_def split: option.splits)
qed

lemma peers_ok_CloseLocked:
  assumes "peers_ok s"
  shows "peers_ok (snd (CloseLocked local_vtable fd s))"
proof (cases "GetStream fd (v_fds s)")
  case (Some j)
  then have m: "map_of (fm_streams (v_fds s)) fd = Some (Some j)" by (auto simp: GetStream_def split: option.splits)
  define s' where "s' = snd (CloseLocked local_vtable fd s)"
  have w: "v_world s' = ReleaseFileRef local_vtable j (v_world s)"
    by (simp add: s'_def CloseLocked_def Some remove_file_stream_def RemoveFileStream_def m Let_def)
  note rel = ReleaseFileRef_local_vtable [of j "v_world s", folded w]
  consider "w_local (v_world s') = w_local (v_world s)" "w_next (v_world s') = w_next (v_world s)"
    | "w_local (v_world s') = w_local (LocalSocket_OnLastFileRef j (v_world s))" "w_next (v_world s') = w_next (v_world s)"
    using rel by blast
  then show ?thesis
  proof cases
    case 1
    then have "links_of s' = links_of s" by (simp add: links_of_def sock_def)
    with assms show ?thesis by (simp add: s'_def)
  next
    case 2
    from peers_ok_last_ref [OF assms 2] show ?thesis by (simp add: s'_def)
  qed
qed (use assms in \<open>simp add: CloseLocked_def\<close>)


text \<open>
  The steps. \<open>accept\<close> runs after its wait, whose loop drops closed clients; \<open>connect\<close> runs up to
  its wait, which begins by marking the socket as connecting. A step may fail; a failing call keeps
  what its result says.
\<close>

inductive lstep :: "'a lvfs \<Rightarrow> 'a lvfs \<Rightarrow> bool" where
  socket: "LocalSocket oflag typ dir s = (i, s') \<Longrightarrow> lstep s s'"
| pair: "LocalSocket o1 typ d1 s = (i, s1) \<Longrightarrow> LocalSocket o2 typ d2 s1 = (j, s2) \<Longrightarrow>
    s' = LocalSocket_set_peer j i (LocalSocket_set_peer i j s2) \<Longrightarrow> lstep s s'"
| bind: "LocalSocket_bind i addr addrlen s = (r, s') \<Longrightarrow> lstep s s'"
| listen: "LocalSocket_listen i backlog s = (r, s') \<Longrightarrow> lstep s s'"
| setsockopt: "LocalSocket_setsockopt i level optname optval optlen s = (r, s') \<Longrightarrow> lstep s s'"
| connect: "i < w_next (v_world s) \<Longrightarrow> ls_state (sock s i) \<noteq> SOCKET_CONNECTING \<Longrightarrow>
    connect_start local_vtable i addr addrlen s = (Ret r, s1) \<Longrightarrow>
    s' = (if ls_type (sock s1 i) = SOCK_STREAM \<or> ls_type (sock s1 i) = SOCK_SEQPACKET
          then upd_sock i (\<lambda>l. l\<lparr>ls_state := SOCKET_CONNECTING\<rparr>) s1 else s1) \<Longrightarrow> lstep s s'"
| drop: "lstep s (drop_closed i s)"
| accept: "i < w_next (v_world s) \<Longrightarrow> accept_finish local_vtable i addr_len s = (r, s') \<Longrightarrow> lstep s s'"
| send: "LocalSocket_sendmsg local_vtable i msg flags s = (r, s') \<Longrightarrow> lstep s s'"
| recv: "recvmsg_finish local_vtable i msg s = (r, msg', s') \<Longrightarrow> lstep s s'"
| close: "vfs_close local_vtable fd s = (r, s') \<Longrightarrow> lstep s s'"
| add: "lstep s (add_file_stream fd st s)"

lemma peers_ok_LocalSocket:
  assumes "peers_ok s" "LocalSocket oflag typ dir s = (i, s')"
  shows "peers_ok s' \<and> i = w_next (v_world s) \<and> w_next (v_world s') = i + 1 \<and>
    ls_peer (sock s' i) = None \<and> (\<forall>l. i \<notin> set (ls_connection_queue (sock s' l)))"
proof -
  note n = LocalSocket_new [OF assms(2)]
  have l: "links_of s' = ((\<lambda>i. ls_peer (sock s i))(i := None), (\<lambda>i. ls_state (sock s i))(i := SOCKET_NEW),
      (\<lambda>i. ls_connection_queue (sock s i))(i := []), i + 1)"
    using n by (simp add: links_of_def fun_eq_iff)
  have i: "i = w_next (v_world s)" using n by simp
  have ok: "peers_ok s'" unfolding l i by (rule links_ok_new [OF assms(1) [unfolded links_of_def]])
  have "queued (\<lambda>i. ls_peer (sock s i)) (\<lambda>i. ls_state (sock s i)) (\<lambda>i. ls_connection_queue (sock s i)) i"
    using assms(1) by (simp add: links_of_def links_ok_def i)
  from queuedD(1) [OF this] have "i \<notin> set (ls_connection_queue (sock s l))" for l by blast
  then show ?thesis using n ok by simp
qed

lemma peers_ok_set_peers:
  assumes "peers_ok s" "ls_peer (sock s a) = None" "ls_peer (sock s b) = None" "a \<noteq> b"
    "a < w_next (v_world s)" "b < w_next (v_world s)"
    "\<And>l. a \<notin> set (ls_connection_queue (sock s l))" "\<And>l. b \<notin> set (ls_connection_queue (sock s l))"
  shows "peers_ok (LocalSocket_set_peer b a (LocalSocket_set_peer a b s))"
proof -
  have n: "w_next (v_world (LocalSocket_set_peer b a (LocalSocket_set_peer a b s))) = w_next (v_world s)"
    by (simp add: LocalSocket_set_peer_def sock_simps)
  have "links_of (LocalSocket_set_peer b a (LocalSocket_set_peer a b s)) =
      ((\<lambda>i. ls_peer (sock s i))(a := Some b, b := Some a),
       (\<lambda>i. ls_state (sock s i))(a := SOCKET_CONNECTED, b := SOCKET_CONNECTED), \<lambda>i. ls_connection_queue (sock s i), w_next (v_world s))"
    unfolding links_of_def n using assms(4) by (auto simp: set_peer_sock fun_eq_iff)
  then show ?thesis
    using links_ok_connect [OF assms(1) [unfolded links_of_def] assms(2-6)] assms(7,8) by simp
qed

lemma peers_ok_pair:
  assumes "peers_ok s" "LocalSocket o1 typ d1 s = (i, s1)" "LocalSocket o2 typ d2 s1 = (j, s2)"
  shows "peers_ok (LocalSocket_set_peer j i (LocalSocket_set_peer i j s2))"
proof -
  note a = peers_ok_LocalSocket [OF assms(1,2)]
  note b = peers_ok_LocalSocket [OF conjunct1 [OF a] assms(3)]
  have ij: "j = Suc i" using a b by simp
  have s2: "sock s2 = (sock s1)(j := sock s2 j)" "ls_connection_queue (sock s2 j) = []"
    using LocalSocket_new [OF assms(3)] by simp_all
  show ?thesis
  proof (rule peers_ok_set_peers)
    show "ls_peer (sock s2 i) = None" using a s2(1) ij by (metis fun_upd_apply n_not_Suc_n)
    show "i \<notin> set (ls_connection_queue (sock s2 l))" for l
      using a s2 by (cases "l = j") (simp_all, metis fun_upd_apply)
  qed (use a b ij in auto)
qed

lemma namespace_frame:
  "LogdSocketNamespace_Bind name st w = (r, w') \<Longrightarrow> w_local w' = w_local w \<and> w_next w' = w_next w"
  "AbstractSocketNamespace_Bind name st w = (r, w') \<Longrightarrow> w_local w' = w_local w \<and> w_next w' = w_next w"
  by (auto simp: AbstractSocketNamespace_Bind_def LogdSocketNamespace_Bind_def Let_def split: if_splits option.splits)

lemma links_of_same_world:
  "w_local w' = w_local (v_world s) \<and> w_next w' = w_next (v_world s) \<Longrightarrow> links_of (s\<lparr>v_world := w'\<rparr>) = links_of s"
  by (simp add: links_of_def sock_def)

lemma peers_ok_bind:
  assumes "peers_ok s" "LocalSocket_bind i addr addrlen s = (r, s')"
  shows "peers_ok s'"
proof -
  have "links_of s' = links_of s"
    using assms(2) unfolding LocalSocket_bind_def
    by (auto simp: links_of_upd links_of_same_world dest!: namespace_frame split: if_splits option.splits prod.splits outcome.splits)
  with assms(1) show ?thesis by simp
qed

lemma peers_ok_listen:
  assumes "peers_ok s" "LocalSocket_listen i backlog s = (r, s')"
  shows "peers_ok s'"
proof -
  consider "s' = s" | "s' = upd_sock i (\<lambda>l. l\<lparr>ls_state := SOCKET_LISTENING, ls_backlog := word_of_int backlog\<rparr>) s"
    using assms(2) by (auto simp: LocalSocket_listen_def split: if_splits)
  then show ?thesis
  proof cases
    case 2
    have "links_of s' = (\<lambda>i. ls_peer (sock s i), (\<lambda>i. ls_state (sock s i))(i := SOCKET_LISTENING),
        \<lambda>i. ls_connection_queue (sock s i), w_next (v_world s))"
      by (auto simp: 2 links_of_def sock_simps fun_eq_iff)
    then show ?thesis
      using assms(1) by (simp add: links_of_def links_ok_def peered_state queued_state)
  qed (use assms in simp)
qed


lemma peers_ok_setsockopt:
  assumes "peers_ok s" "LocalSocket_setsockopt i level optname optval optlen s = (r, s')"
  shows "peers_ok s'"
proof -
  have "links_of s' = links_of s"
    using assms(2) by (auto simp: LocalSocket_setsockopt_def links_of_upd split: if_splits option.splits prod.splits)
  with assms(1) show ?thesis by simp
qed

lemma peers_ok_drop: "peers_ok s \<Longrightarrow> peers_ok (drop_closed i s)"
proof -
  assume ok: "peers_ok s"
  let ?q = "dropWhile (\<lambda>c. IsClosed (w_streams (v_world s) c)) (ls_connection_queue (sock s i))"
  have "links_of (drop_closed i s) = (\<lambda>i. ls_peer (sock s i), \<lambda>i. ls_state (sock s i),
      (\<lambda>i. ls_connection_queue (sock s i))(i := ?q), w_next (v_world s))"
    by (auto simp: drop_closed_def links_of_def sock_simps fun_eq_iff)
  moreover have "peered (\<lambda>i. ls_peer (sock s i)) (\<lambda>i. ls_state (sock s i)) (w_next (v_world s))"
    and q: "queued (\<lambda>i. ls_peer (sock s i)) (\<lambda>i. ls_state (sock s i)) (\<lambda>i. ls_connection_queue (sock s i)) (w_next (v_world s))"
    using ok by (auto simp: links_of_def links_ok_def)
  moreover have "set ?q \<subseteq> set (ls_connection_queue (sock s i))" "distinct ?q"
    using queuedD(5) [OF q, of i] set_dropWhileD by (auto simp: distinct_dropWhile)
  ultimately show ?thesis using queued_subset [OF q] by (simp add: links_ok_def)
qed

lemma HandleConnectLocked_links:
  assumes "HandleConnectLocked local_vtable b c s = (True, s1)"
  shows "(if ls_type (sock s b) = SOCK_STREAM \<or> ls_type (sock s b) = SOCK_SEQPACKET
     then ls_state (sock s b) = SOCKET_LISTENING \<and>
       links_of s1 = links_of (upd_sock b (\<lambda>l. l\<lparr>ls_connection_queue := ls_connection_queue l @ [c]\<rparr>) s)
     else s1 = s) \<and> ls_type (sock s1 i) = ls_type (sock s i)"
  using assms by (auto simp: HandleConnectLocked_def Let_def sock_simps split: if_splits)

lemma peers_ok_connect:
  assumes ok: "peers_ok s" and i: "i < w_next (v_world s)" "ls_state (sock s i) \<noteq> SOCKET_CONNECTING"
    and c: "connect_start local_vtable i addr addrlen s = (Ret r, s1)"
    and s': "s' = (if ls_type (sock s1 i) = SOCK_STREAM \<or> ls_type (sock s1 i) = SOCK_SEQPACKET
          then upd_sock i (\<lambda>l. l\<lparr>ls_state := SOCKET_CONNECTING\<rparr>) s1 else s1)"
  shows "peers_ok s'"
proof -
  have new: "ls_state (sock s i) = SOCKET_NEW"
    using c i(2) by (cases "ls_state (sock s i)") (auto simp: connect_start_def)
  obtain b name s0 where h: "HandleConnectLocked local_vtable b i s = (True, s0)" "ls_type (sock s b) = ls_type (sock s i)"
    "s1 = upd_sock i (\<lambda>l. l\<lparr>ls_logd_target := name\<rparr>) s0"
    using c by (auto simp: connect_start_def split: if_splits option.splits prod.splits bool.splits)
  note e = HandleConnectLocked_links [OF h(1), of i]
  have t: "ls_type (sock s1 i) = ls_type (sock s i)" using e by (simp add: h(3) sock_simps)
  have l1: "links_of s1 = links_of s0" by (simp add: h(3) links_of_upd)
  show ?thesis
  proof (cases "ls_type (sock s i) = SOCK_STREAM \<or> ls_type (sock s i) = SOCK_SEQPACKET")
    case True
    let ?s2 = "upd_sock b (\<lambda>l. l\<lparr>ls_connection_queue := ls_connection_queue l @ [i]\<rparr>) s"
    have e': "links_of s1 = links_of ?s2" using e True h(2) l1 by simp
    have "links_of s' = (\<lambda>i. ls_peer (sock s1 i), (\<lambda>i. ls_state (sock s1 i))(i := SOCKET_CONNECTING),
        \<lambda>i. ls_connection_queue (sock s1 i), w_next (v_world s1))"
      using True t by (auto simp: s' links_of_def sock_simps fun_eq_iff)
    also have "\<dots> = (\<lambda>i. ls_peer (sock ?s2 i), (\<lambda>i. ls_state (sock ?s2 i))(i := SOCKET_CONNECTING),
        \<lambda>i. ls_connection_queue (sock ?s2 i), w_next (v_world ?s2))"
      using e' by (simp add: links_of_def fun_eq_iff)
    also have "\<dots> = (\<lambda>i. ls_peer (sock s i), (\<lambda>i. ls_state (sock s i))(i := SOCKET_CONNECTING),
        (\<lambda>i. ls_connection_queue (sock s i))(b := ls_connection_queue (sock s b) @ [i]), w_next (v_world s))"
      by (auto simp: sock_simps fun_eq_iff)
    finally show ?thesis using links_ok_enqueue [OF ok [unfolded links_of_def] new i(1), of b] by simp
  next
    case False
    then show ?thesis using e h(2) l1 ok t by (simp add: s')
  qed
qed

lemma peers_ok_accept:
  assumes ok: "peers_ok s" and i: "i < w_next (v_world s)" and r: "accept_finish local_vtable i addr_len s = (r, s')"
  shows "peers_ok s'"
proof (cases "IsClosed (w_streams (v_world s) i) \<or> ls_connection_queue (sock s i) = []")
  case True
  then show ?thesis using r ok by (auto simp: accept_finish_def split: list.splits if_splits)
next
  case False
  then obtain client rest where q: "ls_connection_queue (sock s i) = client # rest" by (cases "ls_connection_queue (sock s i)") auto
  obtain server s1 where n: "LocalSocket (fs_oflag (w_streams (v_world s) i)) (ls_type (sock s i)) READ_WRITE s = (server, s1)"
    by fastforce
  obtain fd s2 where a: "AddFileStreamLocked server s1 = (fd, s2)" by fastforce
  have l2: "links_of s2 = links_of s1"
    using a by (auto simp: AddFileStreamLocked_def Let_def links_of_world [OF world_first_unused] split: prod.splits)
  note e = LocalSocket_new [OF n]
  show ?thesis
  proof (cases "fd < 0")
    case True
    then have "s' = s2" using r False q n a by (auto simp: accept_finish_def)
    then show ?thesis using peers_ok_LocalSocket [OF ok n] l2 by simp
  next
    case fd: False
    let ?s3 = "upd_sock i (\<lambda>l. l\<lparr>ls_connection_queue := rest\<rparr>) s2"
    have s': "s' = sys_Broadcast (LocalSocket_set_peer client server (LocalSocket_set_peer server client ?s3))"
      using r False q n a fd by (auto simp: accept_finish_def Let_def)
    have qd: "queued (\<lambda>i. ls_peer (sock s i)) (\<lambda>i. ls_state (sock s i)) (\<lambda>i. ls_connection_queue (sock s i)) (w_next (v_world s))"
      using ok by (simp add: links_of_def links_ok_def)
    have ne: "i \<noteq> server" "client \<noteq> server"
      using i e queuedD(1) [OF qd, of client i] q by auto
    have "links_of s' = ((\<lambda>i. ls_peer (sock s2 i))(server := Some client, client := Some server),
        (\<lambda>i. ls_state (sock s2 i))(server := SOCKET_CONNECTED, client := SOCKET_CONNECTED),
        (\<lambda>i. ls_connection_queue (sock s2 i))(i := rest), w_next (v_world s2))"
      using ne by (auto simp: s' links_of_def sock_simps LocalSocket_set_peer_def fun_eq_iff)
    also have "\<dots> = ((\<lambda>i. ls_peer (sock s1 i))(server := Some client, client := Some server),
        (\<lambda>i. ls_state (sock s1 i))(server := SOCKET_CONNECTED, client := SOCKET_CONNECTED),
        (\<lambda>i. ls_connection_queue (sock s1 i))(i := rest), w_next (v_world s1))"
      using l2 by (simp add: links_of_def fun_eq_iff)
    also have "\<dots> = ((\<lambda>i. ls_peer (sock s i))(server := Some client, client := Some server),
        (\<lambda>i. ls_state (sock s i))(server := SOCKET_CONNECTED, client := SOCKET_CONNECTED),
        (\<lambda>i. ls_connection_queue (sock s i))(server := [], i := rest), server + 1)"
      using e ne by (simp add: fun_eq_iff)
    finally show ?thesis
      using links_ok_accept [OF ok [unfolded links_of_def] q, folded conjunct1 [OF e]] ne by simp
  qed
qed


lemma first_unused_reserved:
  assumes "GetFirstUnusedDescriptorLocked s = (fd, s')" "0 \<le> fd"
  shows "GetStream fd (v_fds s') = None"
  using assms
  by (auto simp: GetFirstUnusedDescriptorLocked_def GetFirstUnusedDescriptor_def AddFileStream_def Let_def GetStream_def
      map_of_smap_put split: prod.splits if_splits option.splits)

lemma links_of_DupLocked: "links_of (snd (DupLocked vt fd (- 1) s)) = links_of s"
proof (cases "GetStream fd (v_fds s)")
  case (Some st)
  obtain n s1 where g: "GetFirstUnusedDescriptorLocked s = (n, s1)" by fastforce
  note l1 = links_of_world [OF world_first_unused [OF g]]
  show ?thesis
  proof (cases "n < 0")
    case False
    then have "snd (CloseLocked vt n s1) = s1" using first_unused_reserved [OF g] by (simp add: CloseLocked_def)
    with Some g l1 False show ?thesis by (simp add: DupLocked_def)
  qed (use Some g l1 in \<open>simp add: DupLocked_def\<close>)
qed (simp add: DupLocked_def)

lemma links_of_dup_fds: "links_of (snd (dup_fds vt fds s)) = links_of s"
proof (induction fds arbitrary: s)
  case (Cons fd fds)
  obtain r s1 where d: "DupLocked vt fd (- 1) s = (r, s1)" by fastforce
  have "links_of s1 = links_of s" using links_of_DupLocked [of vt fd s] by (simp add: d)
  then show ?case using Cons.IH [of s1] by (simp add: d split_beta Let_def)
qed simp

lemma send_data_links:
  assumes "send_data iov cred l = (n, l')"
  shows "ls_peer l' = ls_peer l \<and> ls_state l' = ls_state l \<and> ls_connection_queue l' = ls_connection_queue l"
  using assms by (auto simp: send_data_def Let_def split: if_splits prod.splits)

lemma links_of_HandleSendmsgLocked:
  assumes "HandleSendmsgLocked local_vtable p msg cred s = (r, s')"
  shows "links_of s' = links_of s"
proof -
  obtain n l where sd: "send_data (msg_iov msg) cred (sock s p) = (n, l)" by fastforce
  define s1 where "s1 = upd_sock p (\<lambda>_. l) s"
  have l1: "links_of s1 = links_of s" using send_data_links [OF sd] by (simp add: s1_def links_of_upd)
  obtain fds s2 where d: "dup_fds local_vtable (concat (map wire_fds (msg_control msg))) s1 = (fds, s2)" by fastforce
  have "links_of s2 = links_of s1" using links_of_dup_fds [of local_vtable "concat (map wire_fds (msg_control msg))" s1] by (simp add: d)
  with assms l1 show ?thesis
    unfolding HandleSendmsgLocked_def sd by (auto simp: s1_def [symmetric] d Let_def links_of_upd split: if_splits)
qed

lemma peers_ok_send:
  assumes "peers_ok s" "LocalSocket_sendmsg local_vtable i msg flags s = (r, s')"
  shows "peers_ok s'"
proof -
  have "links_of s' = links_of s"
    using assms(2) by (auto simp: LocalSocket_sendmsg_def Let_def links_of_HandleSendmsgLocked split: if_splits option.splits)
  with assms(1) show ?thesis by simp
qed

lemma peers_ok_trim:
  "peers_ok s \<Longrightarrow> peers_ok (snd (trim_fds local_vtable n fds s))"
proof (induction "local_vtable :: 'a local_world_scheme vtable" n fds s rule: trim_fds.induct)
  case (1 n fds s)
  show ?case
    using 1(1) peers_ok_CloseLocked [OF 1(2), of "last fds"] 1(2) by (subst trim_fds.simps) simp
qed

lemma recv_data_links:
  assumes "recv_data lens l = (bs, flags, cred, l')"
  shows "ls_peer l' = ls_peer l \<and> ls_state l' = ls_state l \<and> ls_connection_queue l' = ls_connection_queue l"
  using assms by (auto simp: recv_data_def Let_def split: if_splits prod.splits list.splits)

lemma peers_ok_recv:
  assumes ok: "peers_ok s" and r: "recvmsg_finish local_vtable i msg s = (r, msg', s')"
  shows "peers_ok s'"
proof -
  obtain bs flags cred l where rd: "recv_data (map length (msg_iov msg)) (sock s i) = (bs, flags, cred, l)"
    by (metis prod_cases4)
  define s1 where "s1 = upd_sock i (\<lambda>_. l) s"
  have ok1: "peers_ok s1" using recv_data_links [OF rd] ok by (simp add: s1_def links_of_upd)
  show ?thesis
  proof (cases "bs = []")
    case True
    then show ?thesis using r rd ok1 recvmsg_finish_empty [of msg s i flags cred l local_vtable] by (auto simp: s1_def)
  next
    case False
    obtain rights len ctrunc s2 where rr: "recv_rights local_vtable i (msg_controllen msg) s1 = (rights, len, ctrunc, s2)"
      by (metis prod_cases4)
    obtain control len' where rc: "recv_cred cred (ls_pass_cred (sock s2 i)) (msg_controllen msg) (rights, len) = (control, len')"
      by fastforce
    have "peers_ok s2"
      using rr ok1 peers_ok_trim [OF ok1, of "msg_controllen msg"]
      by (auto simp: recv_rights_def Let_def links_of_upd split_beta split: list.splits if_splits)
    then show ?thesis
      using r recvmsg_finish_data [OF rd False s1_def [symmetric] rr rc] by (auto split: option.splits)
  qed
qed

lemma peers_ok_step: "lstep s s' \<Longrightarrow> peers_ok s \<Longrightarrow> peers_ok s'"
proof (induction rule: lstep.induct)
  case (close fd s r s')
  then show ?case using peers_ok_CloseLocked [of s fd] by (auto simp: vfs_close_def split: prod.splits bool.splits)
qed (auto intro: peers_ok_pair peers_ok_bind peers_ok_listen peers_ok_setsockopt peers_ok_connect peers_ok_drop peers_ok_accept
      peers_ok_send peers_ok_recv dest: peers_ok_LocalSocket)


inductive_simps lstep_simps: "lstep s s'"

lemma peers_ok_reachable: "lstep\<^sup>*\<^sup>* s s' \<Longrightarrow> peers_ok s \<Longrightarrow> peers_ok s'"
  by (induction rule: rtranclp_induct) (auto intro: peers_ok_step)

lemma start_vfs_peers: "peers_ok start_vfs"
  by (simp add: links_of_def links_ok_def peered_def queued_def sock_def start_vfs_def VirtualFileSystem_def start_world_def)




end
