(* ===== verification/Memory_Files.thy ===== *)
theory Memory_Files
  imports Vfs_Fds
begin

text \<open>
  Read-only files held in memory: \<^verbatim>\<open>src/src/posix_translation/readonly_memory_file.cc\<close>. The
  content (what the virtual \<^verbatim>\<open>GetContent\<close> returns) is an address and a size in the memory of the
  process, which is a function from 32-bit addresses to bytes: what a copy out of the content reads
  is then defined wherever it reads. \<^verbatim>\<open>size_t\<close>, \<^verbatim>\<open>ssize_t\<close> and \<^verbatim>\<open>off_t\<close> have 32 bits,
  \<^verbatim>\<open>off64_t\<close> has 64.
\<close>

section \<open>Memory\<close>

type_synonym memory = "u32 \<Rightarrow> byte"

definition load :: "memory \<Rightarrow> u32 \<Rightarrow> nat \<Rightarrow> byte list" where
  "load mem a n = map (\<lambda>k. mem (a + of_nat k)) [0 ..< n]"

definition to_ssize_t :: "int \<Rightarrow> int" where
  "to_ssize_t x = sint (word_of_int x :: u32)"

definition MAP_SHARED :: u32 where "MAP_SHARED = 1"
definition MAP_PRIVATE :: u32 where "MAP_PRIVATE = 2"
definition MAP_TYPE :: u32 where "MAP_TYPE = 0xF"
definition PROT_READ :: u32 where "PROT_READ = 1"

section \<open>The class\<close>

record readonly_memory_file =
  rm_inode :: int
  rm_errno_for_mmap :: "errno option"
  rm_mtime :: int
  rm_pos :: u32
  rm_data :: u32
  rm_size :: u32

definition ReadonlyMemoryFile :: "int \<Rightarrow> errno option \<Rightarrow> int \<Rightarrow> u32 \<Rightarrow> u32 \<Rightarrow> readonly_memory_file" where
  "ReadonlyMemoryFile inode errno_for_mmap mtime data sz =
     \<lparr>rm_inode = inode, rm_errno_for_mmap = errno_for_mmap, rm_mtime = mtime, rm_pos = 0, rm_data = data, rm_size = sz\<rparr>"

definition rm_fstat :: "readonly_memory_file \<Rightarrow> stat_buf outcome" where
  "rm_fstat f =
     Ret \<lparr>st_ino = rm_inode f, st_mode = S_IFREG, st_uid = 0, st_gid = 0, st_nlink = 1, st_size = uint (rm_size f),
          st_blksize = 4096, st_mtime = rm_mtime f\<rparr>"

definition rm_FIONREAD :: u32 where "rm_FIONREAD = 0x541B"

definition rm_ioctl :: "u32 \<Rightarrow> readonly_memory_file \<Rightarrow> int outcome" where
  "rm_ioctl request f = (if request = rm_FIONREAD then Ret (sint (rm_size f - rm_pos f)) else Err EINVAL)"

text \<open>The position is unsigned: it is returned as a non-negative number whatever was sought.\<close>

definition rm_lseek :: "int \<Rightarrow> whence \<Rightarrow> readonly_memory_file \<Rightarrow> int outcome \<times> readonly_memory_file" where
  "rm_lseek offset whence f =
     (let pos = (case whence of
                   SEEK_SET \<Rightarrow> word_of_int offset
                 | SEEK_CUR \<Rightarrow> word_of_int (uint (rm_pos f) + offset)
                 | SEEK_END \<Rightarrow> word_of_int (uint (rm_size f) + offset))
      in (Ret (uint pos), f\<lparr>rm_pos := pos\<rparr>))"

text \<open>
  \<open>sys_mmap\<close> is the system's \<^verbatim>\<open>mmap\<close> of anonymous memory (address, length, protection, flags) and
  \<open>sys_mprotect\<close> whether \<^verbatim>\<open>mprotect\<close> succeeds. The result is the address and the bytes copied there.
\<close>

definition rm_mmap ::
  "u32 \<Rightarrow> (u32 \<Rightarrow> u32 \<Rightarrow> u32 \<Rightarrow> u32 \<Rightarrow> u32 outcome) \<Rightarrow> (u32 \<Rightarrow> u32 \<Rightarrow> u32 \<Rightarrow> errno option) \<Rightarrow> memory
     \<Rightarrow> u32 \<Rightarrow> u32 \<Rightarrow> u32 \<Rightarrow> int \<Rightarrow> readonly_memory_file \<Rightarrow> (u32 \<times> byte list) outcome" where
  "rm_mmap page_size sys_mmap sys_mprotect mem len prot flags offset f =
     (if prot AND PROT_WRITE \<noteq> 0 \<and> flags AND MAP_SHARED \<noteq> 0 then Err EACCES
      else case rm_errno_for_mmap f of
        Some e \<Rightarrow> Err e
      | None \<Rightarrow>
          if flags AND MAP_SHARED \<noteq> 0 then Err EINVAL
          else case sys_mmap 0 len (prot OR PROT_WRITE) (flags OR MAP_ANONYMOUS) of
            Err e \<Rightarrow> Err e
          | Fatal \<Rightarrow> Fatal
          | Ret result \<Rightarrow>
              let written = (if offset < sint (rm_size f)
                     then load mem (rm_data f + word_of_int offset)
                            (min (unat (rm_size f - word_of_int offset)) (unat (RoundToPageSize page_size len)))
                     else [])
              in if prot AND PROT_WRITE = 0 then
                   case sys_mprotect result len prot of Some e \<Rightarrow> Err e | None \<Rightarrow> Ret (result, written)
                 else Ret (result, written))"

text \<open>The number of bytes left is a 64-bit difference stored in 32 bits.\<close>

definition rm_pread :: "memory \<Rightarrow> nat \<Rightarrow> int \<Rightarrow> readonly_memory_file \<Rightarrow> byte list outcome" where
  "rm_pread mem count offset f =
     (let read_max = to_ssize_t (uint (rm_size f) - offset) in
      if read_max \<le> 0 then Ret []
      else Ret (load mem (rm_data f + word_of_int offset) (min count (nat read_max))))"

definition rm_read :: "memory \<Rightarrow> nat \<Rightarrow> readonly_memory_file \<Rightarrow> byte list outcome \<times> readonly_memory_file" where
  "rm_read mem count f =
     (case rm_pread mem count (uint (rm_pos f)) f of
        Ret bs \<Rightarrow> (Ret bs, f\<lparr>rm_pos := rm_pos f + of_nat (length bs)\<rparr>)
      | r \<Rightarrow> (r, f))"

definition rm_write :: "int outcome" where "rm_write = Err EBADF"
definition rm_IsSelectWriteReady :: bool where "rm_IsSelectWriteReady = True"
definition rm_GetSize :: "readonly_memory_file \<Rightarrow> nat" where "rm_GetSize f = unat (rm_size f)"

definition rm_content :: "memory \<Rightarrow> readonly_memory_file \<Rightarrow> byte list" where
  "rm_content mem f = load mem (rm_data f) (unat (rm_size f))"

section \<open>Library lemmas\<close>

lemma length_load [simp]: "length (load mem a n) = n"
  by (simp add: load_def)

lemma take_load: "take k (load mem a n) = load mem a (min k n)"
  by (simp add: load_def take_map min_def)

lemma drop_load: "k \<le> n \<Longrightarrow> drop k (load mem a n) = load mem (a + of_nat k) (n - k)"
proof (rule nth_equalityI)
  fix i assume k: "k \<le> n" and "i < length (drop k (load mem a n))"
  then have "k + i < n" by simp
  then have "[0 ..< n] ! (k + i) = k + i" by (simp add: nth_upt)
  then show "drop k (load mem a n) ! i = load mem (a + of_nat k) (n - k) ! i"
    using \<open>k + i < n\<close> by (simp add: load_def add.assoc)
qed simp

lemma to_ssize_t_id: "- (2 ^ 31) \<le> x \<Longrightarrow> x < 2 ^ 31 \<Longrightarrow> to_ssize_t x = x"
  by (simp add: to_ssize_t_def sint_sbintrunc' signed_take_bit_int_eq_self)

lemma to_ssize_t_cong: "x mod 2 ^ 32 = y mod 2 ^ 32 \<Longrightarrow> to_ssize_t x = to_ssize_t y"
proof -
  assume "x mod 2 ^ 32 = y mod 2 ^ 32"
  then have "(word_of_int x :: u32) = word_of_int y" by (simp add: word_uint_eq_iff uint_word_of_int)
  then show ?thesis by (simp add: to_ssize_t_def)
qed

lemma pread_in_range:
  assumes "uint (rm_size f) < 2 ^ 31" "0 \<le> offset" "offset \<le> 2 ^ 31"
  shows "rm_pread mem count offset f = Ret (take count (drop (nat offset) (rm_content mem f)))"
proof -
  have max: "to_ssize_t (uint (rm_size f) - offset) = uint (rm_size f) - offset"
  proof -
    define z where "z = uint (rm_size f)"
    have "0 \<le> z" by (simp add: z_def)
    then have "- (2 ^ 31) \<le> z - offset" "z - offset < 2 ^ 31"
      using assms unfolding z_def [symmetric] by simp_all
    then show ?thesis unfolding z_def by (rule to_ssize_t_id)
  qed
  have n: "unat (rm_size f) = nat (uint (rm_size f))" by simp
  show ?thesis
  proof (cases "offset < uint (rm_size f)")
    case True
    then have "nat offset \<le> unat (rm_size f)" "nat (uint (rm_size f) - offset) = unat (rm_size f) - nat offset"
      using assms(2) unfolding n by (simp_all add: nat_diff_distrib del: nat_uint_eq)
    with True assms(2) show ?thesis
      by (simp add: rm_pread_def max rm_content_def drop_load take_load min.commute)
  next
    case False
    then have "unat (rm_size f) \<le> nat offset" using assms(2) unfolding n by (simp del: nat_uint_eq)
    with False show ?thesis by (simp add: rm_pread_def max rm_content_def)
  qed
qed

fun rm_reads :: "memory \<Rightarrow> nat list \<Rightarrow> readonly_memory_file \<Rightarrow> byte list list \<times> readonly_memory_file" where
  "rm_reads mem [] f = ([], f)"
| "rm_reads mem (count # counts) f =
     (case rm_read mem count f of
        (Ret bs, f1) \<Rightarrow> let (rest, f2) = rm_reads mem counts f1 in (bs # rest, f2)
      | (_, f1) \<Rightarrow> ([], f1))"

lemma rm_read_step:
  assumes "uint (rm_size f) < 2 ^ 31" "unat (rm_pos f) \<le> unat (rm_size f)" "rm_read mem count f = (r, f')"
  shows "r = Ret (take count (drop (unat (rm_pos f)) (rm_content mem f))) \<and>
    rm_content mem f' = rm_content mem f \<and> rm_size f' = rm_size f \<and>
    unat (rm_pos f') = min (unat (rm_pos f) + count) (unat (rm_size f))"
proof -
  let ?bs = "take count (drop (unat (rm_pos f)) (rm_content mem f))"
  have pos: "uint (rm_pos f) \<le> uint (rm_size f)" using assms(2) unfolding word_le_nat_alt [symmetric] word_le_def .
  have r: "rm_pread mem count (uint (rm_pos f)) f = Ret ?bs"
    using pread_in_range [of f "uint (rm_pos f)" mem count] assms(1) pos by simp
  have rf: "r = Ret ?bs" "f' = f\<lparr>rm_pos := rm_pos f + of_nat (length ?bs)\<rparr>"
    using assms(3) by (auto simp: rm_read_def r)
  have len: "length ?bs = min count (unat (rm_size f) - unat (rm_pos f))" by (simp add: rm_content_def min.commute)
  have small: "unat (rm_pos f) + length ?bs \<le> unat (rm_size f)" using len assms(2) by simp
  also have "\<dots> < 2 ^ 32" using unsigned_less [of "rm_size f"] by simp
  finally have "unat (rm_pos f + of_nat (length ?bs)) = unat (rm_pos f) + length ?bs"
    by (simp add: unat_word_ariths unat_of_nat take_bit_nat_eq_self)
  with len assms(2) show ?thesis by (auto simp: rf rm_content_def min_def)
qed

section \<open>Properties\<close>

text \<open>
  Reading a memory file in pieces of any sizes delivers its content from the current position
  on, without gaps or repetitions, and ends at its end: the pieces together are the first bytes
  from there, as many as were asked for in total.
\<close>

theorem rm_reads_deliver:
  assumes "uint (rm_size f) < 2 ^ 31" "unat (rm_pos f) \<le> unat (rm_size f)" "rm_reads mem counts f = (pieces, f')"
  shows "concat pieces = take (sum_list counts) (drop (unat (rm_pos f)) (rm_content mem f)) \<and>
    length pieces = length counts \<and> unat (rm_pos f') = min (unat (rm_pos f) + sum_list counts) (unat (rm_size f))"
  using assms
proof (induction counts arbitrary: f pieces)
  case (Cons count counts)
  obtain r f1 where r: "rm_read mem count f = (r, f1)" by fastforce
  note e = rm_read_step [OF Cons.prems(1,2) r]
  obtain rest f2 where t: "rm_reads mem counts f1 = (rest, f2)" by fastforce
  let ?d = "drop (unat (rm_pos f)) (rm_content mem f)"
  have p: "pieces = take count ?d # rest" "f' = f2" using Cons.prems(3) e by (auto simp: r t)
  have ih: "concat rest = take (sum_list counts) (drop (unat (rm_pos f1)) (rm_content mem f))"
    "length rest = length counts" "unat (rm_pos f') = min (unat (rm_pos f1) + sum_list counts) (unat (rm_size f))"
    using Cons.IH [of f1 rest] Cons.prems(1) e t p(2) by auto
  have "drop (unat (rm_pos f1)) (rm_content mem f) = drop count ?d"
    using e by (simp add: rm_content_def min_def add.commute)
  then show ?case
    using ih e by (simp add: p(1) take_add min_def)
qed (auto simp: min_def)

theorem rm_reads_deliver_witness:
  "concat (fst (rm_reads (\<lambda>a. ucast a) [2, 5] (ReadonlyMemoryFile 1 None 0 16 3))) = [16, 17, 18]"
proof -
  obtain pieces f' where r: "rm_reads (\<lambda>a. ucast a) [2, 5] (ReadonlyMemoryFile 1 None 0 16 3) = (pieces, f')" by fastforce
  have "concat pieces = take 7 (load (\<lambda>a. ucast a) 16 3)"
    using rm_reads_deliver [OF _ _ r] by (simp add: ReadonlyMemoryFile_def rm_content_def)
  then have "concat pieces = [16, 17, 18]" by (simp add: load_def upt_rec)
  then show ?thesis unfolding r fst_conv .
qed

text \<open>
  C20. Positions are not checked: after seeking to \<open>k\<close> bytes before the start (which succeeds and
  returns a huge position) a read returns memory from \<open>k\<close> bytes before the content on.
\<close>

theorem rm_negative_seek_reads_outside:
  assumes "0 < k" "uint (rm_size f) + k < 2 ^ 31"
  shows "let (r, f1) = rm_lseek (- k) SEEK_SET f
    in r = Ret (2 ^ 32 - k) \<and>
       fst (rm_read mem count f1) = Ret (load mem (rm_data f - word_of_int k) (min count (nat (uint (rm_size f) + k))))"
proof -
  define z where "z = uint (rm_size f)"
  have z: "0 \<le> z" "z + k < 2 ^ 31" using assms(2) by (simp_all add: z_def)
  have mod: "(- k) mod 2 ^ 32 = 2 ^ 32 - k"
    using assms(1) z by (intro int_mod_pos_eq [where q = "- 1"]) simp_all
  then have "uint (word_of_int (- k) :: u32) = 2 ^ 32 - k" unfolding uint_word_of_int by simp
  then have pos: "uint (- word_of_int k :: u32) = 2 ^ 32 - k" by simp
  have "to_ssize_t (z - (2 ^ 32 - k)) = to_ssize_t (z + k)"
    by (rule to_ssize_t_cong) (simp add: mod_diff_eq mod_add_self2 algebra_simps)
  also have "\<dots> = z + k" using assms(1) z by (intro to_ssize_t_id) simp_all
  finally have max: "to_ssize_t (z - (4294967296 - k)) = z + k" by simp
  have addr: "(4294967296 :: u32) = 0" by (simp add: word_uint_eq_iff)
  show ?thesis
    using assms(1) z unfolding rm_lseek_def rm_read_def rm_pread_def Let_def
    by (simp add: pos max addr z_def [symmetric])
qed

theorem rm_negative_seek_reads_outside_witness:
  "fst (rm_read (\<lambda>a. ucast a) 2 (snd (rm_lseek (- 1) SEEK_SET (ReadonlyMemoryFile 1 None 0 16 3)))) = Ret [15, 16]"
  using rm_negative_seek_reads_outside [of 1 "ReadonlyMemoryFile 1 None 0 16 3" "\<lambda>a. ucast a" 2]
  by (simp add: ReadonlyMemoryFile_def split_beta load_def upt_rec)

end
