(* ===== verification/Dev_Files.thy ===== *)
theory Dev_Files
  imports Memory_Files
begin

text \<open>
  Device files: \<^verbatim>\<open>device_file.cc\<close>, \<^verbatim>\<open>dev_null.cc\<close>, \<^verbatim>\<open>dev_zero.cc\<close>,
  \<^verbatim>\<open>dev_urandom.cc\<close>, \<^verbatim>\<open>dev_alarm.cc\<close> and \<^verbatim>\<open>dev_ashmem.cc\<close> of
  \<^verbatim>\<open>src/src/posix_translation/\<close>. The system's \<^verbatim>\<open>mmap\<close>, the random source and the clocks are
  arguments.
\<close>

section \<open>Device numbers and attributes\<close>

type_synonym device_ids = "(string \<times> int) list"

text \<open>\<open>makedev\<close> combines the two numbers. An existing entry is kept.\<close>

definition AddDeviceId :: "(int \<Rightarrow> int \<Rightarrow> int) \<Rightarrow> string \<Rightarrow> int \<Rightarrow> int \<Rightarrow> device_ids \<Rightarrow> device_ids" where
  "AddDeviceId makedev pathname major_id minor_id ids =
     (if map_of ids pathname = None then (pathname, makedev major_id minor_id) # ids else ids)"

definition GetDeviceId :: "string \<Rightarrow> device_ids \<Rightarrow> int option" where
  "GetDeviceId pathname ids = map_of ids pathname"

record dev_stat = stat_buf +
  st_rdev :: int

definition S_IFCHR :: u32 where "S_IFCHR = 0x2000"

text \<open>An unknown device dereferences the end of the map: \<open>Fatal\<close>.\<close>

definition dev_DoStatLocked :: "device_ids \<Rightarrow> u32 \<Rightarrow> u32 \<Rightarrow> u32 \<Rightarrow> string \<Rightarrow> 'w vfs \<Rightarrow> dev_stat outcome \<times> 'w vfs" where
  "dev_DoStatLocked ids mode uid gid pathname s =
     (let (ino, s1) = GetInodeLocked pathname s in
      case GetDeviceId pathname ids of
        None \<Rightarrow> (Fatal, s1)
      | Some dev \<Rightarrow>
          (Ret \<lparr>st_ino = ino, st_mode = mode, st_uid = uid, st_gid = gid, st_nlink = 1, st_size = 0, st_blksize = 4096,
                st_mtime = 0, st_rdev = dev\<rparr>, s1))"

definition DevNull_stat :: "device_ids \<Rightarrow> u32 \<Rightarrow> string \<Rightarrow> 'w vfs \<Rightarrow> dev_stat outcome \<times> 'w vfs" where
  "DevNull_stat ids mode = dev_DoStatLocked ids mode 0 0"

definition DevZero_stat :: "device_ids \<Rightarrow> string \<Rightarrow> 'w vfs \<Rightarrow> dev_stat outcome \<times> 'w vfs" where
  "DevZero_stat ids = dev_DoStatLocked ids (S_IFCHR OR 0x1B6) 0 0"

definition DevUrandom_stat :: "device_ids \<Rightarrow> string \<Rightarrow> 'w vfs \<Rightarrow> dev_stat outcome \<times> 'w vfs" where
  "DevUrandom_stat ids = dev_DoStatLocked ids (S_IFCHR OR 0x1B6) 0 0"

definition DevAlarm_stat :: "device_ids \<Rightarrow> string \<Rightarrow> 'w vfs \<Rightarrow> dev_stat outcome \<times> 'w vfs" where
  "DevAlarm_stat ids = dev_DoStatLocked ids (S_IFCHR OR 0x1B4) 1000 1001"

definition DevAshmem_stat :: "device_ids \<Rightarrow> string \<Rightarrow> 'w vfs \<Rightarrow> dev_stat outcome \<times> 'w vfs" where
  "DevAshmem_stat ids = dev_DoStatLocked ids (S_IFCHR OR 0x1B6) 0 0"

definition O_DIRECTORY :: u32 where "O_DIRECTORY = 0x10000"
definition O_WRONLY :: u32 where "O_WRONLY = 1"

text \<open>Every device handler refuses to open its file as a directory; \<open>new\<close> makes the stream.\<close>

definition DeviceHandler_open :: "(u32 \<Rightarrow> 'st) \<Rightarrow> u32 \<Rightarrow> 'st outcome" where
  "DeviceHandler_open new oflag = (if oflag AND O_DIRECTORY \<noteq> 0 then Err ENOTDIR else Ret (new oflag))"

definition DeviceStream_fdatasync :: "int outcome" where "DeviceStream_fdatasync = Err EINVAL"
definition DeviceStream_fsync :: "int outcome" where "DeviceStream_fsync = Err EINVAL"

section \<open>Null, zero, random and alarm\<close>

type_synonym sys_mmap = "u32 \<Rightarrow> u32 \<Rightarrow> u32 \<Rightarrow> u32 \<Rightarrow> int \<Rightarrow> u32 outcome"

definition DevNull_mmap :: "sys_mmap \<Rightarrow> u32 \<Rightarrow> u32 \<Rightarrow> u32 \<Rightarrow> u32 \<Rightarrow> int \<Rightarrow> u32 outcome" where
  "DevNull_mmap mmap addr len prot flags offset =
     (if flags AND MAP_TYPE = MAP_SHARED then Err ENODEV else mmap addr len prot (flags OR MAP_ANONYMOUS) offset)"

definition DevNull_read :: "nat \<Rightarrow> byte list outcome" where "DevNull_read count = Ret []"
definition DevNull_write :: "byte list \<Rightarrow> nat outcome" where "DevNull_write buf = Ret (length buf)"

definition DevZero_mmap :: "sys_mmap \<Rightarrow> u32 \<Rightarrow> u32 \<Rightarrow> u32 \<Rightarrow> u32 \<Rightarrow> int \<Rightarrow> u32 outcome" where
  "DevZero_mmap mmap addr len prot flags offset = mmap addr len prot (flags OR MAP_ANONYMOUS) offset"

definition DevZero_read :: "nat \<Rightarrow> byte list outcome" where "DevZero_read count = Ret (replicate count 0)"
definition DevZero_write :: "byte list \<Rightarrow> nat outcome" where "DevZero_write buf = Ret (length buf)"

definition DevUrandom_read :: "(nat \<Rightarrow> byte list option) \<Rightarrow> nat \<Rightarrow> byte list outcome" where
  "DevUrandom_read random count = (case random count of None \<Rightarrow> Err EIO | Some bs \<Rightarrow> Ret bs)"

definition DevUrandom_write :: "byte list \<Rightarrow> nat outcome" where "DevUrandom_write buf = Err EPERM"

text \<open>The command and the type of an alarm request, as the header's macros split it.\<close>

datatype alarm_command =
    ANDROID_ALARM_GET_TIME | ANDROID_ALARM_CLEAR | ANDROID_ALARM_SET_AND_WAIT | ANDROID_ALARM_SET
  | ANDROID_ALARM_WAIT | ANDROID_ALARM_SET_RTC | ALARM_other

datatype alarm_type =
    ANDROID_ALARM_RTC_WAKEUP | ANDROID_ALARM_RTC | ANDROID_ALARM_ELAPSED_REALTIME_WAKEUP
  | ANDROID_ALARM_ELAPSED_REALTIME | ANDROID_ALARM_SYSTEMTIME | ALARM_TYPE_other

definition DevAlarm_GetTime :: "'t \<Rightarrow> 't \<Rightarrow> alarm_type \<Rightarrow> bool \<Rightarrow> 't outcome" where
  "DevAlarm_GetTime realtime monotonic ty out_given =
     (if \<not> out_given then Err EFAULT
      else case ty of
        ANDROID_ALARM_RTC_WAKEUP \<Rightarrow> Ret realtime
      | ANDROID_ALARM_RTC \<Rightarrow> Ret realtime
      | ANDROID_ALARM_ELAPSED_REALTIME_WAKEUP \<Rightarrow> Ret monotonic
      | ANDROID_ALARM_ELAPSED_REALTIME \<Rightarrow> Ret monotonic
      | ANDROID_ALARM_SYSTEMTIME \<Rightarrow> Ret monotonic
      | ALARM_TYPE_other \<Rightarrow> Err EINVAL)"

definition DevAlarm_ioctl :: "'t \<Rightarrow> 't \<Rightarrow> alarm_command \<Rightarrow> alarm_type \<Rightarrow> bool \<Rightarrow> 't outcome" where
  "DevAlarm_ioctl realtime monotonic command ty out_given =
     (case command of
        ANDROID_ALARM_GET_TIME \<Rightarrow> DevAlarm_GetTime realtime monotonic ty out_given
      | ALARM_other \<Rightarrow> Err EINVAL
      | _ \<Rightarrow> Err ENOSYS)"

definition DevAlarm_read :: "nat \<Rightarrow> byte list outcome" where "DevAlarm_read count = Err EINVAL"
definition DevAlarm_write :: "byte list \<Rightarrow> nat outcome" where "DevAlarm_write buf = Err EBADF"

section \<open>Anonymous shared memory\<close>

datatype ashmem_state = STATE_INITIAL | STATE_MAPPED | STATE_UNMAP_DELAYED | STATE_PARTIALLY_UNMAPPED

text \<open>\<open>da_content\<close> is \<open>None\<close> for \<^verbatim>\<open>MAP_FAILED\<close>; \<open>da_offset\<close> is a signed 32-bit \<^verbatim>\<open>off_t\<close>.\<close>

record dev_ashmem =
  da_oflag :: u32
  da_size :: u32
  da_name :: string
  da_content :: "u32 option"
  da_mmap_length :: u32
  da_offset :: int
  da_has_private_mapping :: bool
  da_state :: ashmem_state

definition DevAshmem :: "u32 \<Rightarrow> dev_ashmem" where
  "DevAshmem oflag =
     \<lparr>da_oflag = oflag, da_size = 0, da_name = [], da_content = None, da_mmap_length = 0, da_offset = 0,
      da_has_private_mapping = False, da_state = STATE_INITIAL\<rparr>"

text \<open>The ranges given to the system's \<^verbatim>\<open>munmap\<close> when the object goes away.\<close>

definition DevAshmem_destroy :: "dev_ashmem \<Rightarrow> (u32 \<times> u32) list" where
  "DevAshmem_destroy f =
     (if da_state f = STATE_UNMAP_DELAYED then (case da_content f of Some c \<Rightarrow> [(c, da_mmap_length f)] | None \<Rightarrow> []) else [])"

definition IsMapShared :: "u32 \<Rightarrow> dev_ashmem \<Rightarrow> bool" where
  "IsMapShared addr f = (case da_content f of None \<Rightarrow> False | Some c \<Rightarrow> c \<le> addr \<and> addr < c + da_mmap_length f)"

definition IoctlSetName :: "string \<Rightarrow> dev_ashmem \<Rightarrow> int outcome \<times> dev_ashmem" where
  "IoctlSetName name f =
     (if da_state f \<noteq> STATE_INITIAL \<or> da_has_private_mapping f then (Err EINVAL, f) else (Ret 0, f\<lparr>da_name := name\<rparr>))"

definition ASHMEM_NAME_LEN :: nat where "ASHMEM_NAME_LEN = 256"

definition IoctlGetName :: "dev_ashmem \<Rightarrow> string" where
  "IoctlGetName f = take (ASHMEM_NAME_LEN - 1) (da_name f)"

definition IoctlSetSize :: "u32 \<Rightarrow> dev_ashmem \<Rightarrow> int outcome \<times> dev_ashmem" where
  "IoctlSetSize sz f =
     (if da_state f \<noteq> STATE_INITIAL \<or> da_has_private_mapping f then (Err EINVAL, f) else (Ret 0, f\<lparr>da_size := sz\<rparr>))"

definition IoctlGetSize :: "dev_ashmem \<Rightarrow> int" where "IoctlGetSize f = sint (da_size f)"
definition IoctlPin :: int where "IoctlPin = 0"
definition IoctlUnpin :: int where "IoctlUnpin = 0"
definition IoctlSetProtMask :: "int \<Rightarrow> int" where "IoctlSetProtMask prot = 0"

datatype ashmem_request =
    ASHMEM_SET_NAME string | ASHMEM_GET_NAME | ASHMEM_SET_SIZE u32 | ASHMEM_GET_SIZE | ASHMEM_SET_PROT_MASK int
  | ASHMEM_PIN | ASHMEM_UNPIN | ASHMEM_other

text \<open>The second component of the result is the name stored at the argument, if one is.\<close>

definition DevAshmem_ioctl :: "ashmem_request \<Rightarrow> dev_ashmem \<Rightarrow> (int \<times> string option) outcome \<times> dev_ashmem" where
  "DevAshmem_ioctl request f =
     (case request of
        ASHMEM_SET_NAME name \<Rightarrow> (case IoctlSetName name f of (Ret r, f') \<Rightarrow> (Ret (r, None), f') | (Err e, f') \<Rightarrow> (Err e, f') | (Fatal, f') \<Rightarrow> (Fatal, f'))
      | ASHMEM_GET_NAME \<Rightarrow> (Ret (0, Some (IoctlGetName f)), f)
      | ASHMEM_SET_SIZE sz \<Rightarrow> (case IoctlSetSize sz f of (Ret r, f') \<Rightarrow> (Ret (r, None), f') | (Err e, f') \<Rightarrow> (Err e, f') | (Fatal, f') \<Rightarrow> (Fatal, f'))
      | ASHMEM_GET_SIZE \<Rightarrow> (Ret (IoctlGetSize f, None), f)
      | ASHMEM_SET_PROT_MASK prot \<Rightarrow> (Ret (IoctlSetProtMask prot, None), f)
      | ASHMEM_PIN \<Rightarrow> (Ret (IoctlPin, None), f)
      | ASHMEM_UNPIN \<Rightarrow> (Ret (IoctlUnpin, None), f)
      | ASHMEM_other \<Rightarrow> (Err EINVAL, f))"

definition DevAshmem_lseek :: "int \<Rightarrow> whence \<Rightarrow> dev_ashmem \<Rightarrow> int outcome \<times> dev_ashmem" where
  "DevAshmem_lseek offset whence f =
     (if da_size f = 0 then (Err EINVAL, f)
      else if da_state f = STATE_INITIAL \<and> \<not> da_has_private_mapping f then (Err EBADF, f)
      else
        let off = to_ssize_t (case whence of
                    SEEK_SET \<Rightarrow> offset
                  | SEEK_CUR \<Rightarrow> da_offset f + offset
                  | SEEK_END \<Rightarrow> uint (da_size f) + offset)
        in (Ret off, f\<lparr>da_offset := off\<rparr>))"

definition DevAshmem_madvise :: "sys_mmap \<Rightarrow> u32 \<Rightarrow> u32 \<Rightarrow> madv \<Rightarrow> int outcome" where
  "DevAshmem_madvise mmap addr len advice =
     (if advice \<noteq> MADV_DONTNEED then FileStream_madvise advice
      else if mmap addr len (PROT_READ OR PROT_WRITE) (MAP_ANONYMOUS OR MAP_PRIVATE OR MAP_FIXED) 0 = Ret addr then Ret 0
      else Ret 1)"

definition DevAshmem_mmap :: "sys_mmap \<Rightarrow> u32 \<Rightarrow> u32 \<Rightarrow> u32 \<Rightarrow> u32 \<Rightarrow> int \<Rightarrow> dev_ashmem \<Rightarrow> u32 outcome \<times> dev_ashmem" where
  "DevAshmem_mmap mmap addr len prot flags offset f =
     (let fixed_flag = flags AND MAP_FIXED in
      if da_size f = 0 then (Err EINVAL, f)
      else if flags AND MAP_SHARED = 0 then
        (case mmap addr len prot (MAP_ANONYMOUS OR MAP_PRIVATE OR fixed_flag) 0 of
           Ret a \<Rightarrow> (Ret a, f\<lparr>da_has_private_mapping := True\<rparr>)
         | r \<Rightarrow> (r, f))
      else if offset \<noteq> 0 then (Err EINVAL, f)
      else case da_content f of
        None \<Rightarrow>
          let r = mmap addr len (PROT_READ OR PROT_WRITE) (MAP_ANONYMOUS OR MAP_PRIVATE OR fixed_flag) 0
          in (r, f\<lparr>da_content := (case r of Ret a \<Rightarrow> Some a | _ \<Rightarrow> None), da_mmap_length := len, da_state := STATE_MAPPED\<rparr>)
      | Some c \<Rightarrow>
          if da_state f = STATE_PARTIALLY_UNMAPPED then (Err EINVAL, f)
          else if len \<noteq> da_mmap_length f then (Err EINVAL, f)
          else if fixed_flag \<noteq> 0 \<and> addr \<noteq> c then (Err EINVAL, f)
          else (Ret c, if da_state f = STATE_UNMAP_DELAYED then f\<lparr>da_state := STATE_MAPPED\<rparr> else f))"

text \<open>The list has the ranges given to the system's \<^verbatim>\<open>munmap\<close>.\<close>

definition DevAshmem_munmap :: "u32 \<Rightarrow> u32 \<Rightarrow> dev_ashmem \<Rightarrow> (u32 \<times> u32) list \<times> dev_ashmem" where
  "DevAshmem_munmap addr len f =
     (if \<not> IsMapShared addr f then ([(addr, len)], f)
      else if da_state f = STATE_MAPPED \<and> da_content f = Some addr \<and> len = da_mmap_length f
      then ([], f\<lparr>da_state := STATE_UNMAP_DELAYED\<rparr>)
      else if da_state f = STATE_UNMAP_DELAYED then ([], f)
      else ([(addr, len)], f\<lparr>da_state := STATE_PARTIALLY_UNMAPPED\<rparr>))"

definition DevAshmem_pread :: "memory \<Rightarrow> nat \<Rightarrow> int \<Rightarrow> dev_ashmem \<Rightarrow> byte list outcome" where
  "DevAshmem_pread mem count offset f =
     (if da_oflag f AND O_ACCMODE = O_WRONLY then Err EBADF
      else if da_size f = 0 then Ret []
      else if da_state f = STATE_INITIAL \<and> \<not> da_has_private_mapping f then Err EBADF
      else
        let read_max = to_ssize_t (uint (da_size f) - offset) in
        if read_max \<le> 0 then Ret []
        else if da_state f = STATE_PARTIALLY_UNMAPPED then Err EBADF
        else
          let n = min count (nat read_max) in
          Ret (case da_content f of Some c \<Rightarrow> load mem (c + word_of_int offset) n | None \<Rightarrow> replicate n 0))"

definition DevAshmem_read :: "memory \<Rightarrow> nat \<Rightarrow> dev_ashmem \<Rightarrow> byte list outcome \<times> dev_ashmem" where
  "DevAshmem_read mem count f =
     (case DevAshmem_pread mem count (da_offset f) f of
        Ret bs \<Rightarrow> (Ret bs, f\<lparr>da_offset := to_ssize_t (da_offset f + int (length bs))\<rparr>)
      | r \<Rightarrow> (r, f))"

definition DevAshmem_write :: "byte list \<Rightarrow> nat outcome" where "DevAshmem_write buf = Err EINVAL"
definition DevAshmem_ReturnsSameAddressForMultipleMmaps :: bool where "DevAshmem_ReturnsSameAddressForMultipleMmaps = True"

definition DevAshmem_OnUnmapByOverwritingMmap :: "u32 \<Rightarrow> u32 \<Rightarrow> dev_ashmem \<Rightarrow> dev_ashmem" where
  "DevAshmem_OnUnmapByOverwritingMmap addr len f =
     (if \<not> IsMapShared addr f then f
      else if da_state f = STATE_MAPPED then f\<lparr>da_state := STATE_PARTIALLY_UNMAPPED\<rparr> else f)"

definition DevAshmem_GetSize :: "dev_ashmem \<Rightarrow> nat" where "DevAshmem_GetSize f = unat (da_size f)"


section \<open>Properties of shared memory\<close>

datatype ashmem_op =
    Op_ioctl ashmem_request | Op_mmap u32 u32 u32 u32 int | Op_munmap u32 u32 | Op_lseek int whence | Op_read nat
  | Op_overwritten u32 u32

fun ashmem_exec :: "sys_mmap \<Rightarrow> memory \<Rightarrow> ashmem_op \<Rightarrow> dev_ashmem \<Rightarrow> dev_ashmem" where
  "ashmem_exec sys mem (Op_ioctl request) f = snd (DevAshmem_ioctl request f)"
| "ashmem_exec sys mem (Op_mmap addr len prot flags offset) f = snd (DevAshmem_mmap sys addr len prot flags offset f)"
| "ashmem_exec sys mem (Op_munmap addr len) f = snd (DevAshmem_munmap addr len f)"
| "ashmem_exec sys mem (Op_lseek offset whence) f = snd (DevAshmem_lseek offset whence f)"
| "ashmem_exec sys mem (Op_read count) f = snd (DevAshmem_read mem count f)"
| "ashmem_exec sys mem (Op_overwritten addr len) f = DevAshmem_OnUnmapByOverwritingMmap addr len f"

definition ashmem_run :: "sys_mmap \<Rightarrow> memory \<Rightarrow> ashmem_op list \<Rightarrow> dev_ashmem \<Rightarrow> dev_ashmem" where
  "ashmem_run sys mem ops f = fold (ashmem_exec sys mem) ops f"

text \<open>The diagram of the header: from initial to mapped, between mapped and delayed, and from mapped to partially unmapped.\<close>

definition ashmem_next :: "ashmem_state \<Rightarrow> ashmem_state \<Rightarrow> bool" where
  "ashmem_next a b \<longleftrightarrow> a = b \<or>
     (a, b) \<in> {(STATE_INITIAL, STATE_MAPPED), (STATE_MAPPED, STATE_UNMAP_DELAYED), (STATE_UNMAP_DELAYED, STATE_MAPPED),
               (STATE_MAPPED, STATE_PARTIALLY_UNMAPPED)}"

definition ashmem_ok :: "dev_ashmem \<Rightarrow> bool" where
  "ashmem_ok f \<longleftrightarrow> (da_content f = None \<longleftrightarrow> da_state f = STATE_INITIAL) \<and> (da_state f \<noteq> STATE_INITIAL \<longrightarrow> da_size f \<noteq> 0)"

definition mmap_succeeds :: "sys_mmap \<Rightarrow> bool" where
  "mmap_succeeds sys \<longleftrightarrow> (\<forall>a l p fl off. \<exists>r. sys a l p fl off = Ret r)"

definition ashmem_fixed :: "dev_ashmem \<Rightarrow> dev_ashmem \<Rightarrow> bool" where
  "ashmem_fixed f f' \<longleftrightarrow> da_content f' = da_content f \<and> da_mmap_length f' = da_mmap_length f \<and> da_size f' = da_size f \<and> da_name f' = da_name f"

lemma ashmem_exec_step:
  assumes "mmap_succeeds sys" "ashmem_ok f"
  shows "ashmem_ok (ashmem_exec sys mem op f) \<and> ashmem_next (da_state f) (da_state (ashmem_exec sys mem op f)) \<and>
    (da_state f \<noteq> STATE_INITIAL \<longrightarrow> ashmem_fixed f (ashmem_exec sys mem op f))"
proof (cases op)
  case (Op_ioctl request)
  then show ?thesis using assms(2)
    by (cases request) (auto simp: DevAshmem_ioctl_def IoctlSetName_def IoctlSetSize_def ashmem_ok_def ashmem_next_def ashmem_fixed_def)
next
  case (Op_mmap addr len prot flags offset)
  obtain r1 where r1: "sys addr len prot (MAP_ANONYMOUS OR MAP_PRIVATE OR flags AND MAP_FIXED) 0 = Ret r1"
    using assms(1) unfolding mmap_succeeds_def by blast
  obtain r2 where r2: "sys addr len (PROT_READ OR PROT_WRITE) (MAP_ANONYMOUS OR MAP_PRIVATE OR flags AND MAP_FIXED) 0 = Ret r2"
    using assms(1) unfolding mmap_succeeds_def by blast
  show ?thesis
    using assms(2) by (cases "da_content f")
      (auto simp: Op_mmap DevAshmem_mmap_def Let_def r1 r2 ashmem_ok_def ashmem_next_def ashmem_fixed_def)
next
  case (Op_munmap addr len)
  then show ?thesis using assms(2)
    by (cases "da_content f"; cases "da_state f")
      (auto simp: DevAshmem_munmap_def IsMapShared_def ashmem_ok_def ashmem_next_def ashmem_fixed_def)
next
  case (Op_lseek offset whence)
  then show ?thesis using assms(2)
    by (auto simp: DevAshmem_lseek_def Let_def ashmem_ok_def ashmem_next_def ashmem_fixed_def)
next
  case (Op_read count)
  then show ?thesis using assms(2)
    by (auto simp: DevAshmem_read_def ashmem_ok_def ashmem_next_def ashmem_fixed_def split: outcome.split)
next
  case (Op_overwritten addr len)
  then show ?thesis using assms(2)
    by (auto simp: DevAshmem_OnUnmapByOverwritingMmap_def IsMapShared_def ashmem_ok_def ashmem_next_def ashmem_fixed_def
        split: option.splits)
qed

lemma ashmem_run_ok: "mmap_succeeds sys \<Longrightarrow> ashmem_ok f \<Longrightarrow> ashmem_ok (ashmem_run sys mem ops f)"
  unfolding ashmem_run_def by (induction ops arbitrary: f) (auto simp: ashmem_exec_step)



text \<open>
  Reading shared memory: with a shared region, mapped or already unmapped as a whole, \<^verbatim>\<open>pread\<close> at an
  offset returns the bytes of the region from there to the file's size; this needs the size not to exceed
  the mapped length to stay inside the region. Without a shared region, but with a private one, it returns zeros,
  and after a partial unmap it fails.
\<close>

theorem ashmem_pread_result:
  assumes "da_oflag f AND O_ACCMODE \<noteq> O_WRONLY" "uint (da_size f) < 2 ^ 31" "0 \<le> offset" "offset < uint (da_size f)"
    and "da_state f \<noteq> STATE_INITIAL \<or> da_has_private_mapping f"
  shows "DevAshmem_pread mem count offset f =
    (if da_state f = STATE_PARTIALLY_UNMAPPED then Err EBADF
     else Ret (take count (drop (nat offset) (case da_content f of
                 Some c \<Rightarrow> load mem c (unat (da_size f)) | None \<Rightarrow> replicate (unat (da_size f)) 0))))"
proof -
  define z where "z = uint (da_size f)"
  have z: "z < 2 ^ 31" "offset < z" using assms(2,4) by (simp_all add: z_def)
  have max: "to_ssize_t (z - offset) = z - offset"
    using z assms(3) by (intro to_ssize_t_id) simp_all
  have n: "unat (da_size f) = nat z" unfolding z_def by simp
  have "da_size f \<noteq> 0" using z(2) assms(3) by (auto simp: z_def)
  moreover have "nat offset \<le> nat z" "nat (z - offset) = nat z - nat offset" using z(2) assms(3) by simp_all
  ultimately show ?thesis
    using z(2) assms(1,3,5) max unfolding DevAshmem_pread_def Let_def z_def [symmetric] n
    by (auto simp: drop_load take_load min.commute split: option.splits)
qed

theorem ashmem_pread_result_witness:
  "DevAshmem_pread (\<lambda>a. ucast a) 9 1 ((DevAshmem 2)\<lparr>da_size := 3, da_content := Some 32, da_mmap_length := 3, da_state := STATE_UNMAP_DELAYED\<rparr>)
     = Ret [33, 34]"
  using ashmem_pread_result [of "(DevAshmem 2)\<lparr>da_size := 3, da_content := Some 32, da_mmap_length := 3, da_state := STATE_UNMAP_DELAYED\<rparr>" 1 "\<lambda>a. ucast a" 9]
  by (simp add: DevAshmem_def O_ACCMODE_def O_WRONLY_def load_def upt_rec)

text \<open>
  C19. A failing \<^verbatim>\<open>mmap\<close> of the system is taken for a mapping: the call fails, but the file is in the mapped
  state without a region, so that its size and name can no longer be set and reading gives zeros where a file
  that was never mapped refuses to be read.
\<close>

theorem ashmem_failed_mmap:
  assumes "da_size f \<noteq> 0" "da_content f = None" "flags AND MAP_SHARED \<noteq> 0"
    and "sys addr len (PROT_READ OR PROT_WRITE) (MAP_ANONYMOUS OR MAP_PRIVATE OR flags AND MAP_FIXED) 0 = Err e"
    and "DevAshmem_mmap sys addr len prot flags 0 f = (r, f')"
  shows "r = Err e \<and> da_state f' = STATE_MAPPED \<and> da_content f' = None \<and>
    fst (IoctlSetSize sz f') = Err EINVAL \<and> fst (IoctlSetName name f') = Err EINVAL \<and>
    (da_oflag f AND O_ACCMODE \<noteq> O_WRONLY \<longrightarrow> (\<exists>n. DevAshmem_pread mem count offset f' = Ret (replicate n 0)))"
proof -
  have f': "r = Err e" "f' = f\<lparr>da_content := None, da_mmap_length := len, da_state := STATE_MAPPED\<rparr>"
    using assms by (auto simp: DevAshmem_mmap_def Let_def)
  have "\<exists>n. DevAshmem_pread mem count offset f' = Ret (replicate n 0)" if "da_oflag f AND O_ACCMODE \<noteq> O_WRONLY"
    using that by (auto simp: f'(2) DevAshmem_pread_def Let_def intro: exI [of _ 0])
  then show ?thesis by (simp add: f' IoctlSetSize_def IoctlSetName_def)
qed

theorem ashmem_failed_mmap_witness:
  "let (r, f') = DevAshmem_mmap (\<lambda>a l p fl off. Err ENOMEM) 0 10 3 1 0 ((DevAshmem 2)\<lparr>da_size := 10\<rparr>)
   in r = Err ENOMEM \<and> da_state f' = STATE_MAPPED"
proof -
  let ?f = "(DevAshmem 2)\<lparr>da_size := 10\<rparr>"
  obtain r f' where r: "DevAshmem_mmap (\<lambda>a l p fl off. Err ENOMEM) 0 10 3 1 0 ?f = (r, f')" by fastforce
  have "r = Err ENOMEM \<and> da_state f' = STATE_MAPPED"
    using ashmem_failed_mmap [OF _ _ _ _ r] by (simp add: DevAshmem_def MAP_SHARED_def)
  then show ?thesis unfolding r by simp
qed


end
