(* ===== verification/Readonly_Image.thy ===== *)
theory Readonly_Image
  imports Dir_Manager Memory_Files "HOL-Library.Monad_Syntax"
begin

text \<open>
  The read-only file system image: the reader \<^verbatim>\<open>readonly_fs_reader.cc\<close> that parses it at start-up,
  and the build script \<^verbatim>\<open>scripts/create_readonly_fs_image.py\<close> that writes it. The image is a list
  of bytes; it is mapped at a page boundary, so that offsets in it are aligned as their addresses
  are. Reading beyond the image is a memory fault (\<open>Fatal\<close>). Assertions that only check
  (\<^verbatim>\<open>ALOG_ASSERT\<close>) are compiled out in a release build. The round trip theorem at the end says that
  the reader finds every packed file again, with its content at the recorded offset.
\<close>

section \<open>The reader\<close>

text \<open>\<^verbatim>\<open>FileType\<close> is a cast of the number in the image, so other values are possible.\<close>

definition kRegularFile :: u32 where "kRegularFile = 0"
definition kSymbolicLink :: u32 where "kSymbolicLink = 1"
definition kEmptyDirectory :: u32 where "kEmptyDirectory = 2"

record file_info =
  fi_filename :: string
  fi_link_target :: string
  fi_offset :: u32
  fi_size :: u32
  fi_mtime :: int
  fi_file_type :: u32

record metadata =
  md_offset :: int
  md_size :: u32
  md_mtime :: int
  md_file_type :: u32
  md_link_target :: string

record fs_reader =
  file_objects :: "(string \<times> metadata) list"
  file_names :: dir_manager

definition GetMetadata :: "string \<Rightarrow> fs_reader \<Rightarrow> metadata option" where
  "GetMetadata filename rd = map_of (file_objects rd) filename"

definition IsDirectory :: "string \<Rightarrow> fs_reader \<Rightarrow> bool" where
  "IsDirectory filename rd = StatDirectory (file_names rd) filename"

definition Exist :: "string \<Rightarrow> fs_reader \<Rightarrow> bool" where
  "Exist filename rd \<longleftrightarrow> map_of (file_objects rd) filename \<noteq> None \<or> StatDirectory (file_names rd) filename"

definition ro_OpenDirectory :: "base_lib \<Rightarrow> string \<Rightarrow> fs_reader \<Rightarrow> dir_impl outcome" where
  "ro_OpenDirectory B name rd = OpenDirectory B (file_names rd) name"

definition AlignTo :: "nat \<Rightarrow> nat \<Rightarrow> nat" where
  "AlignTo p boundary = nat ((int p + (int boundary - 1)) AND NOT (int boundary - 1))"

text \<open>\<^verbatim>\<open>ntohl\<close> of the four bytes at a pointer.\<close>

definition ntohl_bytes :: "byte list \<Rightarrow> u32" where
  "ntohl_bytes bs = push_bit 24 (ucast (bs ! 0)) OR push_bit 16 (ucast (bs ! 1)) OR push_bit 8 (ucast (bs ! 2)) OR ucast (bs ! 3)"

definition ReadUInt32BE :: "byte list \<Rightarrow> nat \<Rightarrow> (u32 \<times> nat) option" where
  "ReadUInt32BE img p =
     (let p = AlignTo p 4
      in if p + 4 \<le> length img then Some (ntohl_bytes (take 4 (drop p img)), p + 4) else None)"

text \<open>The string that starts at a pointer and ends before the next zero byte.\<close>

definition c_string :: "byte list \<Rightarrow> nat \<Rightarrow> string option" where
  "c_string img p =
     (let s = takeWhile (\<lambda>b. b \<noteq> 0) (drop p img)
      in if p + length s < length img then Some (map (\<lambda>b. char_of (unat b)) s) else None)"

definition read_file_info :: "byte list \<Rightarrow> nat \<Rightarrow> (file_info \<times> nat) option" where
  "read_file_info img p =
     do { (offset, p) \<leftarrow> ReadUInt32BE img p;
          (sz, p) \<leftarrow> ReadUInt32BE img p;
          (mtime, p) \<leftarrow> ReadUInt32BE img p;
          (file_type, p) \<leftarrow> ReadUInt32BE img p;
          filename \<leftarrow> c_string img p;
          let p = p + length filename + 1;
          (linked, p) \<leftarrow>
            (if file_type = kSymbolicLink
             then do { l \<leftarrow> c_string img p; Some (l, p + length l + 1) }
             else Some ([], p));
          Some (\<lparr>fi_filename = filename, fi_link_target = linked, fi_offset = offset, fi_size = sz,
                 fi_mtime = sint mtime, fi_file_type = file_type\<rparr>, p) }"

fun read_file_infos :: "byte list \<Rightarrow> nat \<Rightarrow> nat \<Rightarrow> (file_info list \<times> nat) option" where
  "read_file_infos img 0 p = Some ([], p)"
| "read_file_infos img (Suc n) p =
     do { (f, p) \<leftarrow> read_file_info img p;
          (fs, p) \<leftarrow> read_file_infos img n p;
          Some (f # fs, p) }"

definition kNaCl64PageSize :: nat where "kNaCl64PageSize = 64 * 1024"

definition content_start :: "nat \<Rightarrow> nat" where
  "content_start metadata_size =
     metadata_size + (if metadata_size mod kNaCl64PageSize \<noteq> 0
                      then kNaCl64PageSize - metadata_size mod kNaCl64PageSize else 0)"

definition to_metadata :: "nat \<Rightarrow> file_info \<Rightarrow> metadata" where
  "to_metadata metadata_size f =
     \<lparr>md_offset = to_ssize_t (sint (fi_offset f) + int metadata_size), md_size = fi_size f, md_mtime = fi_mtime f,
      md_file_type = fi_file_type f, md_link_target = fi_link_target f\<rparr>"

definition add_file_info :: "base_lib \<Rightarrow> nat \<Rightarrow> file_info \<Rightarrow> fs_reader \<Rightarrow> fs_reader outcome" where
  "add_file_info B metadata_size f rd =
     (if fi_file_type f = kEmptyDirectory
      then (case MakeDirectories B (fi_filename f) (file_names rd) of
              Ret dm \<Rightarrow> Ret (rd\<lparr>file_names := dm\<rparr>) | Err e \<Rightarrow> Err e | Fatal \<Rightarrow> Fatal)
      else
        let (_, objects) = hash_insert (fi_filename f) (to_metadata metadata_size f) (file_objects rd) in
        case dm_AddFile B (fi_filename f) (file_names rd) of
          Ret (_, dm) \<Rightarrow> Ret (rd\<lparr>file_objects := objects, file_names := dm\<rparr>)
        | Err e \<Rightarrow> Err e | Fatal \<Rightarrow> Fatal)"

fun add_file_infos :: "base_lib \<Rightarrow> nat \<Rightarrow> file_info list \<Rightarrow> fs_reader \<Rightarrow> fs_reader outcome" where
  "add_file_infos B metadata_size [] rd = Ret rd"
| "add_file_infos B metadata_size (f # fs) rd =
     (case add_file_info B metadata_size f rd of
        Ret rd1 \<Rightarrow> add_file_infos B metadata_size fs rd1 | Err e \<Rightarrow> Err e | Fatal \<Rightarrow> Fatal)"

definition ParseImage :: "base_lib \<Rightarrow> byte list \<Rightarrow> fs_reader \<Rightarrow> fs_reader outcome" where
  "ParseImage B img rd =
     (case (do { (num_files, p) \<leftarrow> ReadUInt32BE img 0; read_file_infos img (unat num_files) p }) of
        None \<Rightarrow> Fatal
      | Some (files, p) \<Rightarrow> add_file_infos B (content_start p) files rd)"

definition ReadonlyFsReader :: "base_lib \<Rightarrow> byte list \<Rightarrow> fs_reader outcome" where
  "ReadonlyFsReader B img = ParseImage B img \<lparr>file_objects = [], file_names = DirectoryManager\<rparr>"


section \<open>The build script\<close>

text \<open>
  What the script is given: the input files, the symbolic links (in the order in which the dictionary
  lists them), the empty directories and files; \<open>sa_disk\<close> gives the content and the modification time of a
  file that can be read and \<open>sa_now\<close> the current time. Times are whole seconds, as \<^verbatim>\<open>struct.pack\<close> writes
  them. Where the script exits or raises an exception the result is \<open>None\<close>.
\<close>

record script_args =
  sa_input :: "string list"
  sa_symlink_map :: "(string \<times> string) list"
  sa_empty_dirs :: "string list"
  sa_empty_files :: "string list"
  sa_disk :: "string \<Rightarrow> (byte list \<times> int) option"
  sa_now :: int

definition PAGE_SIZE :: nat where "PAGE_SIZE = 64 * 1024"
definition REGULAR_FILE :: int where "REGULAR_FILE = 0"
definition SYMBOLIC_LINK :: int where "SYMBOLIC_LINK = 1"
definition EMPTY_DIRECTORY :: int where "EMPTY_DIRECTORY = 2"

text \<open>The three substitutions of \<^verbatim>\<open>_normalize_path\<close>; the last one is greedy and stops at a line end.\<close>

definition remove_target_root :: "string \<Rightarrow> string" where
  "remove_target_root s =
     (if take 12 s = ''/out/target/'' then
        let rest = drop 12 s;
            line = takeWhile (\<lambda>c. c \<noteq> CHR 0x0A) rest
        in (case rev (filter (\<lambda>i. take 5 (drop i rest) = ''/root'') [0 ..< Suc (length line)]) of
              [] \<Rightarrow> s | i # _ \<Rightarrow> drop (i + 5) rest)
      else s)"

definition normalize_path :: "string \<Rightarrow> string" where
  "normalize_path input_filename =
     (let s = dropWhile (\<lambda>c. c = CHR ''.'') input_filename;
          s = (if s \<noteq> [] \<and> hd s \<noteq> CHR ''/'' then CHR ''/'' # s else s)
      in remove_target_root s)"

definition pad_array :: "nat \<Rightarrow> byte list \<Rightarrow> byte list" where
  "pad_array boundary arr =
     (let pad_bytes = boundary - length arr mod boundary
      in if pad_bytes = boundary then arr else arr @ replicate pad_bytes 0)"

text \<open>\<^verbatim>\<open>struct.pack('>i', x)\<close> fails when the number needs more than 32 bits.\<close>

definition pack_i :: "int \<Rightarrow> byte list option" where
  "pack_i x =
     (if - (2 ^ 31) \<le> x \<and> x < 2 ^ 31
      then let w = word_of_int x :: u32
           in Some [ucast (drop_bit 24 w), ucast (drop_bit 16 w), ucast (drop_bit 8 w), ucast w]
      else None)"

text \<open>In Python 2, encoding a byte string with UTF-8 decodes it as ASCII first.\<close>

definition encode_utf_8 :: "string \<Rightarrow> byte list option" where
  "encode_utf_8 s =
     (if list_all (\<lambda>c. (of_char c :: nat) < 128) s then Some (map (\<lambda>c. of_nat (of_char c)) s) else None)"

definition update_metadata :: "byte list \<Rightarrow> byte list \<Rightarrow> string \<Rightarrow> int \<Rightarrow> int \<Rightarrow> int \<Rightarrow> string option \<Rightarrow> byte list option" where
  "update_metadata md content filename file_size file_mtime file_type linked =
     do { a \<leftarrow> pack_i (int (length content));
          b \<leftarrow> pack_i file_size;
          c \<leftarrow> pack_i file_mtime;
          d \<leftarrow> pack_i file_type;
          name \<leftarrow> encode_utf_8 (normalize_path filename);
          target \<leftarrow> (case linked of
                       None \<Rightarrow> Some []
                     | Some t \<Rightarrow> if t = [] then Some [] else map_option (\<lambda>bs. bs @ [0]) (encode_utf_8 t));
          Some (pad_array 4 md @ a @ b @ c @ d @ name @ [0] @ target) }"

definition input_filenames :: "script_args \<Rightarrow> string list" where
  "input_filenames a = sa_input a @ map fst (sa_symlink_map a) @ sa_empty_dirs a @ sa_empty_files a"

text \<open>Type, link target, content and modification time of a file; \<^verbatim>\<open>size\<close> is the length of the content.\<close>

definition get_metadata :: "script_args \<Rightarrow> string \<Rightarrow> (int \<times> string option \<times> byte list \<times> int) option" where
  "get_metadata a filename =
     (case map_of (sa_symlink_map a) filename of
        Some target \<Rightarrow> Some (SYMBOLIC_LINK, Some target, [], sa_now a)
      | None \<Rightarrow>
          if filename \<in> set (sa_empty_dirs a)
          then (if list_ex (\<lambda>x. take (length filename + 1) x = filename @ ''/'') (input_filenames a) then None
                else Some (EMPTY_DIRECTORY, None, [], sa_now a))
          else if filename \<in> set (sa_empty_files a) then Some (REGULAR_FILE, None, [], sa_now a)
          else case sa_disk a filename of
                 None \<Rightarrow> None
               | Some (content, mtime) \<Rightarrow> Some (REGULAR_FILE, None, content, mtime))"

fun generate_loop :: "script_args \<Rightarrow> string list \<Rightarrow> byte list \<Rightarrow> byte list \<Rightarrow> (byte list \<times> byte list) option" where
  "generate_loop a [] md content = Some (md, content)"
| "generate_loop a (filename # rest) md content =
     (if EndsWithSlash filename then None
      else do { (file_type, linked, bytes, mtime) \<leftarrow> get_metadata a filename;
                md \<leftarrow> update_metadata md content filename (int (length bytes)) mtime file_type linked;
                let content = (if file_type = REGULAR_FILE \<and> 0 < length bytes then content @ bytes else content);
                generate_loop a rest md (if rest \<noteq> [] then pad_array PAGE_SIZE content else content) })"

definition generate_readonly_image :: "script_args \<Rightarrow> byte list option" where
  "generate_readonly_image a =
     do { n \<leftarrow> pack_i (int (length (input_filenames a)));
          (md, content) \<leftarrow> generate_loop a (input_filenames a) (pad_array 4 [] @ n) [];
          Some (pad_array PAGE_SIZE md @ content) }"


section \<open>Reading back what was written\<close>

lemma AlignTo_4: "AlignTo p 4 = 4 * ((p + 3) div 4)"
proof -
  have "x AND NOT 3 = 4 * (x div 4)" for x :: int
  proof -
    have "x AND NOT (mask 2) = push_bit 2 (drop_bit 2 x)" by (rule bit_eqI) (auto simp: bit_simps not_less dest!: le_Suc_ex)
    then show ?thesis by (simp add: mask_eq_exp_minus_1 push_bit_eq_mult drop_bit_eq_div)
  qed
  then have "AlignTo p 4 = nat (4 * ((int p + 3) div 4))" by (simp add: AlignTo_def)
  also have "(int p + 3) div 4 = int ((p + 3) div 4)" by (simp add: zdiv_int)
  also have "nat (4 * int ((p + 3) div 4)) = 4 * ((p + 3) div 4)" by linarith
  finally show ?thesis .
qed

lemma length_pad_4: "length (pad_array 4 md) = AlignTo (length md) 4"
proof -
  have "(if 4 - n mod 4 = 4 then n else n + (4 - n mod 4)) = 4 * ((n + 3) div 4)" for n :: nat
    by presburger
  from this [of "length md"] show ?thesis
    by (simp add: pad_array_def AlignTo_4 Let_def split: if_splits)
qed

lemma length_pad_page: "length (pad_array PAGE_SIZE md) = content_start (length md)"
proof -
  have "65536 - n mod 65536 = 65536 \<longleftrightarrow> n mod 65536 = 0" for n :: nat
    using mod_less_divisor [of 65536 n] by (metis diff_diff_cancel diff_zero less_imp_le_nat zero_less_numeral diff_self_eq_0)
  then show ?thesis by (simp add: pad_array_def content_start_def PAGE_SIZE_def kNaCl64PageSize_def Let_def)
qed

lemma pad_array_prefix: "\<exists>z. pad_array b arr = arr @ z"
  by (simp add: pad_array_def Let_def)

lemma ntohl_pack: "pack_i x = Some bs \<Longrightarrow> ntohl_bytes bs = word_of_int x \<and> length bs = 4"
  for x :: int
proof -
  assume a: "pack_i x = Some bs"
  define w :: u32 where "w = word_of_int x"
  have bs: "bs = [ucast (drop_bit 24 w), ucast (drop_bit 16 w), ucast (drop_bit 8 w), ucast w]"
    using a by (auto simp: pack_i_def Let_def w_def split: if_splits)
  have "ntohl_bytes bs = w"
    unfolding ntohl_bytes_def bs
  proof (rule bit_eqI)
    fix n :: nat
    consider "n < 8" | "8 \<le> n" "n < 16" | "16 \<le> n" "n < 24" | "24 \<le> n" "n < 32" | "32 \<le> n" by linarith
    then show "bit (push_bit 24 (ucast ([ucast (drop_bit 24 w), ucast (drop_bit 16 w), ucast (drop_bit 8 w), ucast w] ! 0 :: byte)) OR
      push_bit 16 (ucast ([ucast (drop_bit 24 w), ucast (drop_bit 16 w), ucast (drop_bit 8 w), ucast w] ! 1 :: byte)) OR
      push_bit 8 (ucast ([ucast (drop_bit 24 w), ucast (drop_bit 16 w), ucast (drop_bit 8 w), ucast w] ! 2 :: byte)) OR
      ucast ([ucast (drop_bit 24 w), ucast (drop_bit 16 w), ucast (drop_bit 8 w), ucast w] ! 3 :: byte) :: u32) n = bit w n"
      by cases (auto simp: bit_simps dest: bit_imp_le_length)
  qed
  then show ?thesis by (simp add: bs w_def)
qed

lemma AlignTo_id: "AlignTo p 4 = q \<Longrightarrow> AlignTo q 4 = q \<and> AlignTo (q + 4) 4 = q + 4"
  by (auto simp: AlignTo_4)

lemma ReadUInt32BE_pack:
  assumes "pack_i x = Some bs" "img = pre @ bs @ rest" "AlignTo p 4 = length pre"
  shows "ReadUInt32BE img p = Some (word_of_int x, length (pre @ bs))"
  using ntohl_pack [OF assms(1)] by (simp add: ReadUInt32BE_def assms(2,3))

lemma c_string_encode:
  assumes "encode_utf_8 s = Some bs" "img = pre @ bs @ 0 # rest" "CHR 0x00 \<notin> set s"
  shows "c_string img (length pre) = Some s \<and> length bs = length s"
proof -
  have bs: "bs = map (\<lambda>c. of_nat (of_char c)) s" "\<forall>c \<in> set s. (of_char c :: nat) < 128"
    using assms(1) by (auto simp: encode_utf_8_def list_all_iff split: if_splits)
  have u: "unat (of_nat (of_char c) :: byte) = of_char c" if "c \<in> set s" for c
    using bs(2) that by (force simp: unat_of_nat)
  have nz: "(of_nat (of_char c) :: byte) \<noteq> 0" if "c \<in> set s" for c
  proof
    assume "(of_nat (of_char c) :: byte) = 0"
    then have "(of_char c :: nat) = 0" using u [OF that] by simp
    then have "(of_char c :: nat) = of_char (CHR 0x00)" by simp
    then have "c = CHR 0x00" unfolding of_char_eq_iff .
    then show False using that assms(3) by simp
  qed
  have "takeWhile (\<lambda>b. b \<noteq> 0) (bs @ 0 # rest) = bs"
    using nz by (subst takeWhile_append2) (auto simp: bs(1))
  moreover have "map (\<lambda>b. char_of (unat b)) bs = s"
    by (auto simp: bs(1) u intro!: map_idI)
  ultimately show ?thesis by (simp add: c_string_def assms(2) bs(1) Let_def)
qed


text \<open>What the script may write for a file so that the reader understands it.\<close>

definition well_typed_entry :: "int \<Rightarrow> string option \<Rightarrow> bool" where
  "well_typed_entry file_type linked \<longleftrightarrow>
     file_type \<in> {REGULAR_FILE, SYMBOLIC_LINK, EMPTY_DIRECTORY} \<and>
     (case linked of None \<Rightarrow> file_type \<noteq> SYMBOLIC_LINK | Some t \<Rightarrow> file_type = SYMBOLIC_LINK \<and> t \<noteq> [] \<and> CHR 0x00 \<notin> set t)"

lemma pack_i_range: "pack_i x = Some bs \<Longrightarrow> - (2 ^ 31) \<le> x \<and> x < 2 ^ 31"
  by (auto simp: pack_i_def split: if_splits)

lemma sint_pack: "pack_i x = Some bs \<Longrightarrow> sint (word_of_int x :: u32) = x"
  using pack_i_range [of x bs] to_ssize_t_id [of x] by (simp add: to_ssize_t_def)

lemma read_file_info_update:
  assumes u: "update_metadata md ct fn sz mt ty lk = Some md'" and ok: "well_typed_entry ty lk"
    and fn: "CHR 0x00 \<notin> set (normalize_path fn)" and img: "img = md' @ rest"
  shows "read_file_info img (length md) =
    Some (\<lparr>fi_filename = normalize_path fn, fi_link_target = (case lk of None \<Rightarrow> [] | Some t \<Rightarrow> t),
           fi_offset = word_of_int (int (length ct)), fi_size = word_of_int sz, fi_mtime = mt,
           fi_file_type = word_of_int ty\<rparr>, length md')"
proof -
  obtain a b c d name target where p: "pack_i (int (length ct)) = Some a" "pack_i sz = Some b" "pack_i mt = Some c" "pack_i ty = Some d"
    and n: "encode_utf_8 (normalize_path fn) = Some name"
    and t: "(case lk of None \<Rightarrow> Some [] | Some t \<Rightarrow> if t = [] then Some [] else map_option (\<lambda>bs. bs @ [0]) (encode_utf_8 t)) = Some target"
    and md': "md' = pad_array 4 md @ a @ b @ c @ d @ name @ [0] @ target"
    using u by (auto simp: update_metadata_def bind_eq_Some_conv)
  define q where "q = pad_array 4 md"
  have len: "length a = 4" "length b = 4" "length c = 4" "length d = 4"
    using p ntohl_pack by blast+
  have al: "AlignTo (length md) 4 = length q" "AlignTo (length (q @ a)) 4 = length (q @ a)"
    "AlignTo (length (q @ a @ b)) 4 = length (q @ a @ b)" "AlignTo (length (q @ a @ b @ c)) 4 = length (q @ a @ b @ c)"
    using length_pad_4 [of md] by (auto simp: q_def len AlignTo_4)
  have r1: "ReadUInt32BE img (length md) = Some (word_of_int (int (length ct)), length (q @ a))"
    by (rule ReadUInt32BE_pack [OF p(1) _ al(1)]) (simp add: img md' q_def)
  have r2: "ReadUInt32BE img (length (q @ a)) = Some (word_of_int sz, length (q @ a @ b))"
    using ReadUInt32BE_pack [OF p(2) _ al(2)] by (simp add: img md' q_def)
  have r3: "ReadUInt32BE img (length (q @ a @ b)) = Some (word_of_int mt, length (q @ a @ b @ c))"
    using ReadUInt32BE_pack [OF p(3) _ al(3)] by (simp add: img md' q_def)
  have r4: "ReadUInt32BE img (length (q @ a @ b @ c)) = Some (word_of_int ty, length (q @ a @ b @ c @ d))"
    using ReadUInt32BE_pack [OF p(4) _ al(4)] by (simp add: img md' q_def)
  have s: "c_string img (length (q @ a @ b @ c @ d)) = Some (normalize_path fn)" "length name = length (normalize_path fn)"
    using c_string_encode [OF n, of img "q @ a @ b @ c @ d"] fn by (simp_all add: img md' q_def)
  define z where "z = length (q @ a @ b @ c @ d) + length (normalize_path fn) + 1"
  have z: "z = length (q @ a @ b @ c @ d @ name @ [0])" by (simp add: z_def s(2))
  have link: "(if (word_of_int ty :: u32) = kSymbolicLink then do { l \<leftarrow> c_string img z; Some (l, z + length l + 1) } else Some ([], z)) =
    Some ((case lk of None \<Rightarrow> [] | Some t \<Rightarrow> t), length md')"
  proof (cases lk)
    case None
    then have "(word_of_int ty :: u32) \<noteq> kSymbolicLink"
      using ok by (auto simp: well_typed_entry_def REGULAR_FILE_def SYMBOLIC_LINK_def EMPTY_DIRECTORY_def kSymbolicLink_def)
    then show ?thesis using None t by (simp add: z md' q_def)
  next
    case (Some l)
    then obtain bs where bs: "encode_utf_8 l = Some bs" "target = bs @ [0]" and l: "ty = 1" "CHR 0x00 \<notin> set l"
      using ok t by (auto simp: well_typed_entry_def SYMBOLIC_LINK_def)
    have "c_string img z = Some l \<and> length bs = length l"
      unfolding z by (rule c_string_encode [OF bs(1) _ l(2), of _ _ rest]) (simp add: img md' q_def bs(2))
    then show ?thesis using Some l(1) by (simp add: kSymbolicLink_def z md' q_def bs(2))
  qed
  show ?thesis
    unfolding read_file_info_def r1 Option.bind.simps prod.case r2 r3 r4 s(1) Let_def z_def [symmetric] link
    by (simp add: sint_pack [OF p(3)])
qed


text \<open>An entry of the reader describes a file of the script, with its content in \<open>ct\<close>.\<close>

definition packed :: "script_args \<Rightarrow> byte list \<Rightarrow> string \<Rightarrow> file_info \<Rightarrow> bool" where
  "packed a ct fn f \<longleftrightarrow>
     (\<exists>ty lk bytes mt. get_metadata a fn = Some (ty, lk, bytes, mt) \<and> fi_filename f = normalize_path fn \<and>
        fi_link_target f = (case lk of None \<Rightarrow> [] | Some t \<Rightarrow> t) \<and> fi_file_type f = word_of_int ty \<and> fi_mtime f = mt \<and>
        uint (fi_size f) = int (length bytes) \<and> 0 \<le> sint (fi_offset f) \<and>
        (ty = REGULAR_FILE \<longrightarrow> nat (sint (fi_offset f)) + length bytes \<le> length ct \<and>
           take (length bytes) (drop (nat (sint (fi_offset f))) ct) = bytes))"

definition targets_ok :: "script_args \<Rightarrow> bool" where
  "targets_ok a \<longleftrightarrow> list_all (\<lambda>(_, t). t \<noteq> [] \<and> CHR 0x00 \<notin> set t) (sa_symlink_map a)"

lemma get_metadata_typed: "targets_ok a \<Longrightarrow> get_metadata a fn = Some (ty, lk, bytes, mt) \<Longrightarrow> well_typed_entry ty lk"
proof (cases "map_of (sa_symlink_map a) fn")
  case None
  moreover assume "get_metadata a fn = Some (ty, lk, bytes, mt)"
  ultimately show ?thesis
    by (auto simp: get_metadata_def well_typed_entry_def REGULAR_FILE_def SYMBOLIC_LINK_def EMPTY_DIRECTORY_def
        split: option.splits if_splits)
next
  case (Some t)
  assume "get_metadata a fn = Some (ty, lk, bytes, mt)" "targets_ok a"
  with Some have "ty = SYMBOLIC_LINK" "lk = Some t" "t \<noteq> [] \<and> CHR 0x00 \<notin> set t"
    using map_of_SomeD [OF Some] by (auto simp: get_metadata_def targets_ok_def list_all_iff)
  then show ?thesis by (simp add: well_typed_entry_def)
qed

lemma packed_append: "packed a ct fn f \<Longrightarrow> packed a (ct @ x) fn f"
proof -
  have "take n (drop k (ct @ x)) = take n (drop k ct)" if "k + n \<le> length ct" for k n
    using that by simp
  moreover assume "packed a ct fn f"
  ultimately show ?thesis unfolding packed_def by fastforce
qed

lemma update_metadata_prefix: "update_metadata md ct fn sz mt ty lk = Some md' \<Longrightarrow> \<exists>y. md' = md @ y"
  using pad_array_prefix [of 4 md] by (auto simp: update_metadata_def bind_eq_Some_conv)

lemma generate_loop_read:
  assumes "generate_loop a fns md ct = Some (md', ct')" "targets_ok a" "\<forall>fn \<in> set fns. CHR 0x00 \<notin> set (normalize_path fn)"
  shows "\<exists>fs. (\<forall>rest. read_file_infos (md' @ rest) (length fns) (length md) = Some (fs, length md')) \<and>
    list_all2 (packed a ct') fns fs \<and> (\<exists>x. ct' = ct @ x) \<and> (\<exists>y. md' = md @ y)"
  using assms
proof (induction fns arbitrary: md ct)
  case (Cons fn fns)
  obtain ty lk bytes mt md1 where g: "get_metadata a fn = Some (ty, lk, bytes, mt)"
    and u: "update_metadata md ct fn (int (length bytes)) mt ty lk = Some md1"
    and rest: "generate_loop a fns md1 (if fns \<noteq> [] then pad_array PAGE_SIZE (if ty = REGULAR_FILE \<and> 0 < length bytes then ct @ bytes else ct)
      else if ty = REGULAR_FILE \<and> 0 < length bytes then ct @ bytes else ct) = Some (md', ct')"
    using Cons.prems(1) by (auto simp: bind_eq_Some_conv Let_def split: if_splits)
  define ct1 where "ct1 = (if ty = REGULAR_FILE \<and> 0 < length bytes then ct @ bytes else ct)"
  obtain z where z: "generate_loop a fns md1 (ct1 @ z) = Some (md', ct')"
    using rest pad_array_prefix [of PAGE_SIZE ct1] unfolding ct1_def [symmetric]
    by (cases "fns = []") (auto intro: that [of "[]"])
  obtain fs x y where ih: "\<And>rest. read_file_infos (md' @ rest) (length fns) (length md1) = Some (fs, length md')"
    "list_all2 (packed a ct') fns fs" "ct' = (ct1 @ z) @ x" "md' = md1 @ y"
    using Cons.IH [OF z Cons.prems(2)] Cons.prems(3) by (metis list.set_intros(2))
  obtain pa pb where pk: "pack_i (int (length ct)) = Some pa" "pack_i (int (length bytes)) = Some pb"
    using u by (auto simp: update_metadata_def bind_eq_Some_conv)
  define f where "f = \<lparr>fi_filename = normalize_path fn, fi_link_target = (case lk of None \<Rightarrow> [] | Some t \<Rightarrow> t),
           fi_offset = word_of_int (int (length ct)), fi_size = word_of_int (int (length bytes)), fi_mtime = mt,
           fi_file_type = word_of_int ty\<rparr>"
  have r: "read_file_info (md' @ rest) (length md) = Some (f, length md1)" for rest
    using read_file_info_update [OF u get_metadata_typed [OF Cons.prems(2) g]] Cons.prems(3)
    by (simp add: ih(4) f_def)
  have "uint (word_of_int (int (length bytes)) :: u32) = int (length bytes)"
    using pack_i_range [OF pk(2)] by (simp add: unsigned_of_nat take_bit_nat_eq_self)
  then have "packed a ct1 fn f"
    unfolding packed_def using g sint_pack [OF pk(1)] by (auto simp: f_def ct1_def)
  then have "packed a ct' fn f" unfolding ih(3) append_assoc by (rule packed_append)
  moreover have "\<exists>x. ct' = ct @ x" by (auto simp: ih(3) ct1_def)
  moreover have "\<exists>y. md' = md @ y" using update_metadata_prefix [OF u] by (auto simp: ih(4))
  ultimately show ?case using ih(1,2) r by (intro exI [of _ "f # fs"]) simp
qed simp


section \<open>The reader's tables\<close>

definition clean_name :: "string \<Rightarrow> bool" where
  "clean_name s \<longleftrightarrow> (\<exists>cs c. clean_path (cs @ [c]) \<and> s = abs_path (cs @ [c]))"

text \<open>A directory that a name implies: a proper parent of it.\<close>

definition parent_of :: "string \<Rightarrow> string \<Rightarrow> bool" where
  "parent_of d s \<longleftrightarrow> take (length d) s = d"

lemma parent_of_take: "parent_of (abs_dir (take j cs)) (abs_path (cs @ [c]))"
proof -
  have "abs_dir cs = abs_dir (take j cs) @ concat (map (\<lambda>c. c @ ''/'') (drop j cs))"
    unfolding abs_dir_def by (metis append.assoc append_take_drop_id concat_append map_append append_Cons)
  then show ?thesis by (simp add: parent_of_def abs_path_snoc)
qed

context base_strings
begin

lemma add_file_info_effect:
  assumes ok: "dm_ok (file_names rd)" and n: "clean_name (fi_filename f)"
  obtains rd' where "add_file_info B ms f rd = Ret rd'" "dm_ok (file_names rd')"
    "\<And>d. dir_known (file_names rd) d \<Longrightarrow> dir_known (file_names rd') d"
    "fi_file_type f = kEmptyDirectory \<Longrightarrow> IsDirectory (fi_filename f) rd'"
    "\<And>d. dir_known (file_names rd') d \<Longrightarrow> dir_known (file_names rd) d \<or> parent_of d (fi_filename f) \<or>
       fi_file_type f = kEmptyDirectory \<and> d = fi_filename f @ ''/''"
    "\<And>s. map_of (file_objects rd') s =
       (if fi_file_type f \<noteq> kEmptyDirectory \<and> s = fi_filename f \<and> map_of (file_objects rd) s = None
        then Some (to_metadata ms f) else map_of (file_objects rd) s)"
proof -
  obtain cs c where p: "clean_path (cs @ [c])" and s: "fi_filename f = abs_path (cs @ [c])"
    using n by (auto simp: clean_name_def)
  note g = clean_good [OF p]
  show ?thesis
  proof (cases "fi_file_type f = kEmptyDirectory")
    case True
    obtain dm where m: "MakeDirectories B (abs_dir (cs @ [c])) (file_names rd) = Ret dm" "dm_ok dm"
      "\<And>d. dir_known dm d \<longleftrightarrow> dir_known (file_names rd) d \<or> (\<exists>j \<le> length (cs @ [c]). d = abs_dir (take j (cs @ [c])))"
      by (rule MakeDirectories_effect [OF ok p]) (rule that; simp)
    have "MakeDirectories B (fi_filename f) (file_names rd) = Ret dm"
      using m(1) EnsurePathEndsWithSlash_abs_path [OF g] unfolding MakeDirectories_def s by simp
    moreover have "dir_known dm (abs_dir (cs @ [c]))" unfolding m(3) by (intro disjI2 exI [of _ "length (cs @ [c])"]) simp
    moreover have "dir_known (file_names rd) d \<or> parent_of d (fi_filename f) \<or> d = fi_filename f @ ''/''" if "dir_known dm d" for d
    proof -
      have "parent_of (abs_dir (take j (cs @ [c]))) (fi_filename f) \<or> abs_dir (take j (cs @ [c])) = fi_filename f @ ''/''" for j
        using parent_of_take [of j cs c] by (cases "j \<le> length cs") (auto simp: s abs_path_snoc abs_dir_snoc)
      then show ?thesis using that m(3) by blast
    qed
    ultimately show ?thesis
      using that [of "rd\<lparr>file_names := dm\<rparr>"] m(2,3) True
      by (simp add: add_file_info_def IsDirectory_def s StatDirectory_path [OF g])
  next
    case False
    obtain new dm where a: "dm_AddFile B (fi_filename f) (file_names rd) = Ret (new, dm)" "dm_ok dm"
      "\<And>d. dir_known (file_names rd) d \<Longrightarrow> dir_known dm d"
      "\<And>d. dir_known dm d \<Longrightarrow> dir_known (file_names rd) d \<or> parent_of d (fi_filename f)"
    proof (cases "dir_known (file_names rd) (abs_dir (cs @ [c]))")
      case True
      then show ?thesis
        using that [of False "file_names rd"] ok abs_path_not_slash [OF g]
        by (simp add: dm_AddFile_def AddFileWithType_def s StatDirectory_path [OF g] split: if_splits)
    next
      case False
      then show ?thesis
        using that AddFile_new [OF ok p _ False, of REGULAR] parent_of_take [of _ cs c] unfolding dm_AddFile_def s
        by (metis dir_type.distinct(1))
    qed
    obtain i objs where h: "hash_insert (fi_filename f) (to_metadata ms f) (file_objects rd) = (i, objs)" by fastforce
    have "map_of objs s = (if s = fi_filename f \<and> map_of (file_objects rd) s = None then Some (to_metadata ms f)
        else map_of (file_objects rd) s)" for s
      using h by (auto simp: hash_insert_def update_conv' split: option.splits)
    then show ?thesis
      using that [of "rd\<lparr>file_objects := objs, file_names := dm\<rparr>"] a False h
      by (simp add: add_file_info_def)
  qed
qed

lemma add_file_infos_effect:
  assumes "dm_ok (file_names rd)" "\<forall>f \<in> set fs. clean_name (fi_filename f)" "distinct (map fi_filename fs)"
  shows "\<exists>rd'. add_file_infos B ms fs rd = Ret rd' \<and>
    (\<forall>d. dir_known (file_names rd) d \<longrightarrow> dir_known (file_names rd') d) \<and>
    (\<forall>f \<in> set fs. fi_file_type f = kEmptyDirectory \<longrightarrow> IsDirectory (fi_filename f) rd') \<and>
    (\<forall>d. dir_known (file_names rd') d \<longrightarrow> dir_known (file_names rd) d \<or>
       (\<exists>f \<in> set fs. parent_of d (fi_filename f) \<or> fi_file_type f = kEmptyDirectory \<and> d = fi_filename f @ ''/'')) \<and>
    (\<forall>f \<in> set fs. fi_file_type f \<noteq> kEmptyDirectory \<longrightarrow> map_of (file_objects rd) (fi_filename f) = None \<longrightarrow>
        map_of (file_objects rd') (fi_filename f) = Some (to_metadata ms f)) \<and>
    (\<forall>s. s \<notin> fi_filename ` {f \<in> set fs. fi_file_type f \<noteq> kEmptyDirectory} \<longrightarrow> map_of (file_objects rd') s = map_of (file_objects rd) s)"
  using assms
proof (induction fs arbitrary: rd)
  case (Cons f fs)
  have cn: "clean_name (fi_filename f)" using Cons.prems(2) by simp
  obtain rd1 where r: "add_file_info B ms f rd = Ret rd1" "dm_ok (file_names rd1)"
    and k: "\<And>d. dir_known (file_names rd) d \<Longrightarrow> dir_known (file_names rd1) d"
    and e: "fi_file_type f = kEmptyDirectory \<Longrightarrow> IsDirectory (fi_filename f) rd1"
    and g: "\<And>d. dir_known (file_names rd1) d \<Longrightarrow> dir_known (file_names rd) d \<or> parent_of d (fi_filename f) \<or>
       fi_file_type f = kEmptyDirectory \<and> d = fi_filename f @ ''/''"
    and m: "\<And>s. map_of (file_objects rd1) s =
       (if fi_file_type f \<noteq> kEmptyDirectory \<and> s = fi_filename f \<and> map_of (file_objects rd) s = None
        then Some (to_metadata ms f) else map_of (file_objects rd) s)"
    by (rule add_file_info_effect [OF Cons.prems(1) cn]) (rule that; blast)
  obtain rd' where ih: "add_file_infos B ms fs rd1 = Ret rd'"
    "\<forall>d. dir_known (file_names rd1) d \<longrightarrow> dir_known (file_names rd') d"
    "\<forall>f \<in> set fs. fi_file_type f = kEmptyDirectory \<longrightarrow> IsDirectory (fi_filename f) rd'"
    "\<forall>d. dir_known (file_names rd') d \<longrightarrow> dir_known (file_names rd1) d \<or>
       (\<exists>f \<in> set fs. parent_of d (fi_filename f) \<or> fi_file_type f = kEmptyDirectory \<and> d = fi_filename f @ ''/'')"
    "\<forall>f \<in> set fs. fi_file_type f \<noteq> kEmptyDirectory \<longrightarrow> map_of (file_objects rd1) (fi_filename f) = None \<longrightarrow>
        map_of (file_objects rd') (fi_filename f) = Some (to_metadata ms f)"
    "\<forall>s. s \<notin> fi_filename ` {f \<in> set fs. fi_file_type f \<noteq> kEmptyDirectory} \<longrightarrow> map_of (file_objects rd') s = map_of (file_objects rd1) s"
    using Cons.IH [OF r(2)] Cons.prems(2,3) by auto
  have nf: "fi_filename f \<notin> fi_filename ` set fs" using Cons.prems(3) by auto
  have dirs: "IsDirectory s rd'" if "IsDirectory s rd1" for s
    using that ih(2) by (auto simp: IsDirectory_def StatDirectory_def dir_known_def GetFilesInDir_def)
  have "map_of (file_objects rd') (fi_filename f) = map_of (file_objects rd1) (fi_filename f)"
    using ih(6) nf by blast
  moreover have "map_of (file_objects rd1) (fi_filename h) = map_of (file_objects rd) (fi_filename h)" if "h \<in> set fs" for h
    using nf that m by (metis image_eqI)
  moreover have "map_of (file_objects rd') s = map_of (file_objects rd) s"
    if "s \<notin> fi_filename ` {h \<in> set (f # fs). fi_file_type h \<noteq> kEmptyDirectory}" for s
  proof -
    have "s \<notin> fi_filename ` {h \<in> set fs. fi_file_type h \<noteq> kEmptyDirectory}"
      "fi_file_type f = kEmptyDirectory \<or> s \<noteq> fi_filename f" using that by auto
    then show ?thesis using ih(6) m [of s] by auto
  qed
  moreover have "dir_known (file_names rd) d \<or>
       (\<exists>f \<in> set (f # fs). parent_of d (fi_filename f) \<or> fi_file_type f = kEmptyDirectory \<and> d = fi_filename f @ ''/'')"
    if "dir_known (file_names rd') d" for d using ih(4) g that by auto
  ultimately show ?case
    using ih(1-3,5) r(1) k e dirs m [of "fi_filename f"] by (intro exI [of _ rd'] conjI) auto
qed simp

end


definition names_ok :: "script_args \<Rightarrow> bool" where
  "names_ok a \<longleftrightarrow> (\<forall>fn \<in> set (input_filenames a). clean_name (normalize_path fn) \<and> CHR 0x00 \<notin> set (normalize_path fn)) \<and>
     distinct (map normalize_path (input_filenames a))"

lemma ParseImage_generated:
  assumes g: "generate_readonly_image a = Some img" and l: "targets_ok a" and n: "names_ok a"
  obtains fs ms ct where "ParseImage B img rd = add_file_infos B ms fs rd" "list_all2 (packed a ct) (input_filenames a) fs"
    "ms + length ct = length img" "drop ms img = ct"
proof -
  obtain bs md ct where bs: "pack_i (int (length (input_filenames a))) = Some bs"
    and loop: "generate_loop a (input_filenames a) bs [] = Some (md, ct)" and img: "img = pad_array PAGE_SIZE md @ ct"
    using g by (auto simp: generate_readonly_image_def bind_eq_Some_conv pad_array_def)
  have nul: "\<forall>fn \<in> set (input_filenames a). CHR 0x00 \<notin> set (normalize_path fn)" using n by (simp add: names_ok_def)
  obtain fs y where fs: "\<And>rest. read_file_infos (md @ rest) (length (input_filenames a)) (length bs) = Some (fs, length md)"
    "list_all2 (packed a ct) (input_filenames a) fs" "md = bs @ y"
    using generate_loop_read [OF loop l nul] by metis
  obtain z where z: "pad_array PAGE_SIZE md = md @ z" using pad_array_prefix by blast
  have img1: "img = md @ z @ ct" by (simp add: img z)
  then have img2: "img = [] @ bs @ y @ z @ ct" by (simp add: fs(3))
  have "ReadUInt32BE img 0 = Some (word_of_int (int (length (input_filenames a))), length bs)"
    using ReadUInt32BE_pack [OF bs img2, of 0] by (simp add: AlignTo_4)
  moreover have "unat (word_of_int (int (length (input_filenames a))) :: u32) = length (input_filenames a)"
    using pack_i_range [OF bs] by (simp add: unat_of_nat)
  moreover have "read_file_infos img (length (input_filenames a)) (length bs) = Some (fs, length md)"
    using fs(1) by (simp add: img1)
  ultimately have "ParseImage B img rd = add_file_infos B (content_start (length md)) fs rd"
    by (simp add: ParseImage_def)
  then show ?thesis using that [of "content_start (length md)" fs ct] fs(2) length_pad_page [of md] by (simp add: img)
qed

lemma generated_reader:
  assumes B: "base_strings B" and g: "generate_readonly_image a = Some img" and small: "length img < 2 ^ 31"
    and l: "targets_ok a" and n: "names_ok a"
  shows "\<exists>rd. ReadonlyFsReader B img = Ret rd \<and>
    (\<forall>fn \<in> set (input_filenames a). \<exists>ty lk bytes mt. get_metadata a fn = Some (ty, lk, bytes, mt) \<and>
       (if ty = EMPTY_DIRECTORY then IsDirectory (normalize_path fn) rd
        else \<exists>md. GetMetadata (normalize_path fn) rd = Some md \<and> md_file_type md = word_of_int ty \<and> md_mtime md = mt \<and>
               md_link_target md = (case lk of None \<Rightarrow> [] | Some t \<Rightarrow> t) \<and> unat (md_size md) = length bytes \<and>
               (ty = REGULAR_FILE \<longrightarrow> 0 \<le> md_offset md \<and> nat (md_offset md) + length bytes \<le> length img \<and>
                  take (length bytes) (drop (nat (md_offset md)) img) = bytes))) \<and>
    (\<forall>s. s \<notin> normalize_path ` set (input_filenames a) \<longrightarrow> GetMetadata s rd = None) \<and>
    (\<forall>d. dir_known (file_names rd) d \<longrightarrow> d = ''/'' \<or>
       (\<exists>fn \<in> set (input_filenames a). parent_of d (normalize_path fn) \<or>
          d = normalize_path fn @ ''/'' \<and> (\<exists>lk bytes mt. get_metadata a fn = Some (EMPTY_DIRECTORY, lk, bytes, mt))))"
proof -
  let ?rd = "\<lparr>file_objects = [], file_names = DirectoryManager\<rparr>"
  obtain fs ms ct where p: "ParseImage B img ?rd = add_file_infos B ms fs ?rd"
    and fs: "list_all2 (packed a ct) (input_filenames a) fs" and ms: "ms + length ct = length img" "drop ms img = ct"
    by (rule ParseImage_generated [OF g l n, of B ?rd]) (rule that; assumption)
  have "map fi_filename fs = map normalize_path (input_filenames a)"
    using fs by (induction rule: list_all2_induct) (auto simp: packed_def)
  then have names: "distinct (map fi_filename fs)" "fi_filename ` set fs = normalize_path ` set (input_filenames a)"
    using n by (simp add: names_ok_def, metis list.set_map)
  have "\<forall>f \<in> set fs. clean_name (fi_filename f)" using n names(2) by (force simp: names_ok_def)
  then obtain rd where rd: "add_file_infos B ms fs ?rd = Ret rd"
    "\<And>f. f \<in> set fs \<Longrightarrow> fi_file_type f = kEmptyDirectory \<Longrightarrow> IsDirectory (fi_filename f) rd"
    "\<And>f. f \<in> set fs \<Longrightarrow> fi_file_type f \<noteq> kEmptyDirectory \<Longrightarrow> GetMetadata (fi_filename f) rd = Some (to_metadata ms f)"
    "\<And>s. s \<notin> fi_filename ` set fs \<Longrightarrow> GetMetadata s rd = None"
    and known: "\<And>d. dir_known (file_names rd) d \<Longrightarrow> dir_known DirectoryManager d \<or>
       (\<exists>f \<in> set fs. parent_of d (fi_filename f) \<or> fi_file_type f = kEmptyDirectory \<and> d = fi_filename f @ ''/'')"
    using base_strings.add_file_infos_effect [OF B, of ?rd fs ms] DirectoryManager_ok names(1)
    by (fastforce simp: GetMetadata_def)
  have type_iff: "fi_file_type f = kEmptyDirectory \<longleftrightarrow> ty = EMPTY_DIRECTORY"
    if "get_metadata a fn = Some (ty, lk, bytes, mt)" "fi_file_type f = word_of_int ty" for f fn ty lk bytes mt
    using get_metadata_typed [OF l that(1)] that(2)
    by (auto simp: well_typed_entry_def REGULAR_FILE_def SYMBOLIC_LINK_def EMPTY_DIRECTORY_def kEmptyDirectory_def)
  have dirs: "d = ''/'' \<or> (\<exists>fn \<in> set (input_filenames a). parent_of d (normalize_path fn) \<or>
      d = normalize_path fn @ ''/'' \<and> (\<exists>lk bytes mt. get_metadata a fn = Some (EMPTY_DIRECTORY, lk, bytes, mt)))"
    if "dir_known (file_names rd) d" for d
  proof -
    have "\<exists>fn \<in> set (input_filenames a). packed a ct fn f" if "f \<in> set fs" for f
      using fs that by (metis in_set_conv_nth list_all2_conv_all_nth)
    then have "\<exists>fn \<in> set (input_filenames a). fi_filename f = normalize_path fn \<and>
        (fi_file_type f = kEmptyDirectory \<longrightarrow> (\<exists>lk bytes mt. get_metadata a fn = Some (EMPTY_DIRECTORY, lk, bytes, mt)))"
      if "f \<in> set fs" for f using that type_iff unfolding packed_def by metis
    moreover have "dir_known DirectoryManager d \<Longrightarrow> d = ''/''"
      by (simp add: DirectoryManager_def dm_Clear_def MakeDirectory_def EndsWithSlash_def hash_insert_def
          dir_known_def GetFilesInDir_def split: if_splits)
    ultimately show ?thesis using known [OF that] by metis
  qed
  have "\<exists>ty lk bytes mt. get_metadata a fn = Some (ty, lk, bytes, mt) \<and>
       (if ty = EMPTY_DIRECTORY then IsDirectory (normalize_path fn) rd
        else \<exists>md. GetMetadata (normalize_path fn) rd = Some md \<and> md_file_type md = word_of_int ty \<and> md_mtime md = mt \<and>
               md_link_target md = (case lk of None \<Rightarrow> [] | Some t \<Rightarrow> t) \<and> unat (md_size md) = length bytes \<and>
               (ty = REGULAR_FILE \<longrightarrow> 0 \<le> md_offset md \<and> nat (md_offset md) + length bytes \<le> length img \<and>
                  take (length bytes) (drop (nat (md_offset md)) img) = bytes))"
    if fn: "fn \<in> set (input_filenames a)" for fn
  proof -
    obtain f where f: "f \<in> set fs" "packed a ct fn f"
      using fs fn by (metis list_all2_iff in_set_conv_nth list_all2_conv_all_nth)
    obtain ty lk bytes mt where m: "get_metadata a fn = Some (ty, lk, bytes, mt)" "fi_filename f = normalize_path fn"
      "fi_link_target f = (case lk of None \<Rightarrow> [] | Some t \<Rightarrow> t)" "fi_file_type f = word_of_int ty" "fi_mtime f = mt"
      "uint (fi_size f) = int (length bytes)" "0 \<le> sint (fi_offset f)"
      "ty = REGULAR_FILE \<Longrightarrow> nat (sint (fi_offset f)) + length bytes \<le> length ct \<and>
           take (length bytes) (drop (nat (sint (fi_offset f))) ct) = bytes"
      using f(2) unfolding packed_def by blast
    note d = type_iff [OF m(1,4)]
    have sz: "unat (fi_size f) = length bytes" using m(6) by (metis unat_eq_nat_uint nat_int)
    have off: "0 \<le> md_offset (to_metadata ms f) \<and> nat (md_offset (to_metadata ms f)) + length bytes \<le> length img \<and>
        take (length bytes) (drop (nat (md_offset (to_metadata ms f))) img) = bytes"
      if r: "ty = REGULAR_FILE"
    proof -
      have "nat (sint (fi_offset f)) + ms < 2 ^ 31" using m(8) [OF r] ms(1) small by linarith
      then have "md_offset (to_metadata ms f) = sint (fi_offset f) + int ms"
        unfolding to_metadata_def metadata.simps using m(7) by (intro to_ssize_t_id) simp_all
      moreover have "nat (sint (fi_offset f) + int ms) = nat (sint (fi_offset f)) + ms" using m(7) by linarith
      moreover have "drop (nat (sint (fi_offset f)) + ms) img = drop (nat (sint (fi_offset f))) ct"
        unfolding ms(2) [symmetric] by (simp add: add.commute)
      ultimately show ?thesis using m(7) m(8) [OF r] ms(1) by simp
    qed
    show ?thesis
    proof (cases "ty = EMPTY_DIRECTORY")
      case True
      then show ?thesis using rd(2) [OF f(1)] d m(1,2) by auto
    next
      case False
      then have "GetMetadata (normalize_path fn) rd = Some (to_metadata ms f)" using rd(3) [OF f(1)] d m(2) by simp
      then show ?thesis using m(1,3,4,5) sz off False by (simp add: to_metadata_def)
    qed
  qed
  then show ?thesis using rd(1,4) names(2) p dirs by (simp add: ReadonlyFsReader_def)
qed


text \<open>
  C10. The image the build script writes is understood by the reader: reading it succeeds, every
  packed file is found under its stored name with its type, time, link target and size, the bytes at
  its recorded offset, which lie in the image, are its content, every packed empty directory is a directory, and no
  other name has metadata. The names must be clean absolute paths, distinct as stored, and link targets must not be
  empty.
\<close>

theorem image_round_trip:
  assumes B: "base_strings B" and g: "generate_readonly_image a = Some img" and small: "length img < 2 ^ 31"
    and l: "targets_ok a" and n: "names_ok a"
  shows "\<exists>rd. ReadonlyFsReader B img = Ret rd \<and>
    (\<forall>fn \<in> set (input_filenames a). \<exists>ty lk bytes mt. get_metadata a fn = Some (ty, lk, bytes, mt) \<and>
       (if ty = EMPTY_DIRECTORY then IsDirectory (normalize_path fn) rd
        else \<exists>md. GetMetadata (normalize_path fn) rd = Some md \<and> md_file_type md = word_of_int ty \<and> md_mtime md = mt \<and>
               md_link_target md = (case lk of None \<Rightarrow> [] | Some t \<Rightarrow> t) \<and> unat (md_size md) = length bytes \<and>
               (ty = REGULAR_FILE \<longrightarrow> 0 \<le> md_offset md \<and> nat (md_offset md) + length bytes \<le> length img \<and>
                  take (length bytes) (drop (nat (md_offset md)) img) = bytes))) \<and>
    (\<forall>s. s \<notin> normalize_path ` set (input_filenames a) \<longrightarrow> GetMetadata s rd = None)"
  using generated_reader [OF assms] by blast

definition sample_args :: script_args where
  "sample_args = \<lparr>sa_input = [''/etc/hosts''], sa_symlink_map = [(''/lib'', ''/system/lib'')], sa_empty_dirs = [''/tmp''],
     sa_empty_files = [], sa_disk = (\<lambda>s. if s = ''/etc/hosts'' then Some ([104, 105], 5) else None), sa_now = 9\<rparr>"

lemma pack_i_total: "0 \<le> x \<Longrightarrow> x < 2 ^ 31 \<Longrightarrow> \<exists>bs. pack_i x = Some bs \<and> length bs = 4"
  by (auto simp: pack_i_def Let_def)

lemma update_metadata_total:
  assumes "length ct < 2 ^ 31" "0 \<le> sz" "sz < 2 ^ 31" "0 \<le> mt" "mt < 2 ^ 31" "ty \<in> {0, 1, 2}"
    and e: "encode_utf_8 (normalize_path fn) = Some nm" "encode_utf_8 (case lk of None \<Rightarrow> [] | Some t \<Rightarrow> t) = Some tb"
  shows "\<exists>md'. update_metadata md ct fn sz mt ty lk = Some md' \<and> length md' \<le> length md + 21 + length nm + length tb"
proof -
  have l: "length (pad_array 4 md) \<le> length md + 3" using length_pad_4 [of md] by (simp add: AlignTo_4)
  have ty: "0 \<le> ty" "ty < 2 ^ 31" using assms(6) by auto
  have ct: "int (length ct) < 2 ^ 31" using assms(1) by simp
  obtain a b c d where p: "pack_i (int (length ct)) = Some a" "pack_i sz = Some b" "pack_i mt = Some c" "pack_i ty = Some d"
    "length a = 4" "length b = 4" "length c = 4" "length d = 4"
    using pack_i_total [OF _ ct] pack_i_total [OF assms(2,3)] pack_i_total [OF assms(4,5)] pack_i_total [OF ty] by auto
  obtain target where "(case lk of None \<Rightarrow> Some [] | Some t \<Rightarrow> if t = [] then Some [] else map_option (\<lambda>bs. bs @ [0]) (encode_utf_8 t)) = Some target"
    "length target \<le> length tb + 1"
  proof (cases lk)
    case (Some t)
    then show ?thesis using e(2) that [of "if t = [] then [] else tb @ [0]"] by simp
  qed (use that in simp)
  then show ?thesis using p l e(1) by (simp add: update_metadata_def)
qed

lemma sample_names:
  "normalize_path ''/etc/hosts'' = ''/etc/hosts''" "normalize_path ''/lib'' = ''/lib''" "normalize_path ''/tmp'' = ''/tmp''"
  "get_metadata sample_args ''/etc/hosts'' = Some (REGULAR_FILE, None, [104, 105], 5)"
  "get_metadata sample_args ''/lib'' = Some (SYMBOLIC_LINK, Some ''/system/lib'', [], 9)"
  "get_metadata sample_args ''/tmp'' = Some (EMPTY_DIRECTORY, None, [], 9)"
  "input_filenames sample_args = [''/etc/hosts'', ''/lib'', ''/tmp'']"
  by code_simp+

lemma sample_image: "\<exists>img. generate_readonly_image sample_args = Some img \<and> length img < 2 ^ 31"
proof -
  define c where "c = pad_array PAGE_SIZE [104, 105 :: byte]"
  have c: "length c = 65536" "length (pad_array PAGE_SIZE c) = 65536"
    by (simp_all add: c_def length_pad_page content_start_def kNaCl64PageSize_def)
  obtain n where n: "pack_i 3 = Some n" "length n = 4" using ntohl_pack [of 3] by (auto simp: pack_i_def)
  have e: "\<exists>bs. encode_utf_8 ''/etc/hosts'' = Some bs \<and> length bs = 10" "\<exists>bs. encode_utf_8 ''/lib'' = Some bs \<and> length bs = 4"
    "\<exists>bs. encode_utf_8 ''/tmp'' = Some bs \<and> length bs = 4" "\<exists>bs. encode_utf_8 ''/system/lib'' = Some bs \<and> length bs = 11"
    "encode_utf_8 [] = Some []" by (simp_all add: encode_utf_8_def)
  obtain m1 where m1: "update_metadata n [] ''/etc/hosts'' 2 5 REGULAR_FILE None = Some m1" "length m1 \<le> 35"
    using e(1,5) n(2) update_metadata_total [of "[]" 2 5 REGULAR_FILE "''/etc/hosts''" _ None _ n]
    by (fastforce simp: sample_names REGULAR_FILE_def)
  obtain m2 where m2: "update_metadata m1 c ''/lib'' 0 9 SYMBOLIC_LINK (Some ''/system/lib'') = Some m2" "length m2 \<le> 71"
    using e(2,4) m1(2) update_metadata_total [of c 0 9 SYMBOLIC_LINK "''/lib''" _ "Some ''/system/lib''" _ m1] c(1)
    by (fastforce simp: sample_names SYMBOLIC_LINK_def)
  obtain m3 where m3: "update_metadata m2 (pad_array PAGE_SIZE c) ''/tmp'' 0 9 EMPTY_DIRECTORY None = Some m3" "length m3 \<le> 96"
    using e(3,5) m2(2) update_metadata_total [of "pad_array PAGE_SIZE c" 0 9 EMPTY_DIRECTORY "''/tmp''" _ None _ m2] c(2)
    by (fastforce simp: sample_names EMPTY_DIRECTORY_def)
  have "length (pad_array PAGE_SIZE m3) < 70000" using m3(2) by (simp add: length_pad_page content_start_def kNaCl64PageSize_def)
  moreover have "generate_readonly_image sample_args = Some (pad_array PAGE_SIZE m3 @ pad_array PAGE_SIZE c)"
    using m1(1) m2(1) m3(1) n(1) unfolding c_def
    by (simp add: generate_readonly_image_def sample_names EndsWithSlash_def pad_array_def [of 4]
        SYMBOLIC_LINK_def REGULAR_FILE_def EMPTY_DIRECTORY_def)
  ultimately show ?thesis using c(2) by simp
qed

lemma sample_ok: "targets_ok sample_args" "names_ok sample_args"
proof -
  have "''/etc/hosts'' = abs_path ([''etc''] @ [''hosts''])" "''/lib'' = abs_path ([] @ [''lib''])" "''/tmp'' = abs_path ([] @ [''tmp''])"
    "clean_path ([''etc''] @ [''hosts''])" "clean_path ([] @ [''lib''])" "clean_path ([] @ [''tmp''])" by code_simp+
  then have "clean_name ''/etc/hosts''" "clean_name ''/lib''" "clean_name ''/tmp''"
    unfolding clean_name_def by blast+
  then show "targets_ok sample_args" "names_ok sample_args"
    by (simp_all add: names_ok_def sample_names targets_ok_def) (simp add: sample_args_def)
qed

theorem image_round_trip_witness:
  "\<exists>img rd md md'. generate_readonly_image sample_args = Some img \<and> ReadonlyFsReader chromium_base img = Ret rd \<and>
     GetMetadata ''/etc/hosts'' rd = Some md \<and> take 2 (drop (nat (md_offset md)) img) = [104, 105] \<and>
     GetMetadata ''/lib'' rd = Some md' \<and> md_link_target md' = ''/system/lib'' \<and> IsDirectory ''/tmp'' rd \<and> GetMetadata ''/x'' rd = None"
proof -
  obtain img where img: "generate_readonly_image sample_args = Some img" "length img < 2 ^ 31" using sample_image by blast
  obtain rd where r: "ReadonlyFsReader chromium_base img = Ret rd"
    and f: "\<And>fn. fn \<in> set (input_filenames sample_args) \<Longrightarrow> \<exists>ty lk bytes mt. get_metadata sample_args fn = Some (ty, lk, bytes, mt) \<and>
       (if ty = EMPTY_DIRECTORY then IsDirectory (normalize_path fn) rd
        else \<exists>md. GetMetadata (normalize_path fn) rd = Some md \<and> md_file_type md = word_of_int ty \<and> md_mtime md = mt \<and>
               md_link_target md = (case lk of None \<Rightarrow> [] | Some t \<Rightarrow> t) \<and> unat (md_size md) = length bytes \<and>
               (ty = REGULAR_FILE \<longrightarrow> 0 \<le> md_offset md \<and> nat (md_offset md) + length bytes \<le> length img \<and>
                  take (length bytes) (drop (nat (md_offset md)) img) = bytes))"
    and u: "\<And>s. s \<notin> normalize_path ` set (input_filenames sample_args) \<Longrightarrow> GetMetadata s rd = None"
    using image_round_trip [OF chromium.base_strings_axioms img sample_ok] by auto
  obtain md where "GetMetadata ''/etc/hosts'' rd = Some md" "take 2 (drop (nat (md_offset md)) img) = [104, 105]"
    using f [of "''/etc/hosts''"] unfolding sample_names
    by (auto simp: REGULAR_FILE_def EMPTY_DIRECTORY_def numeral_2_eq_2)
  moreover obtain md' where "GetMetadata ''/lib'' rd = Some md'" "md_link_target md' = ''/system/lib''"
    using f [of "''/lib''"] unfolding sample_names by (auto simp: SYMBOLIC_LINK_def EMPTY_DIRECTORY_def)
  moreover have "IsDirectory ''/tmp'' rd" using f [of "''/tmp''"] unfolding sample_names by simp
  moreover have "GetMetadata ''/x'' rd = None" using u [of "''/x''"] unfolding sample_names by (simp add: sample_names)
  ultimately show ?thesis using img(1) r by blast
qed


end
