(* ===== verification/Readonly_Files.thy ===== *)
theory Readonly_Files
  imports Readonly_Image Dev_Files
begin

text \<open>
  Files of the read-only image: \<^verbatim>\<open>src/src/posix_translation/readonly_file.cc\<close> (the handler and the stream
  with its read-ahead cache) and \<^verbatim>\<open>statfs.cc\<close>. The stream of the image itself is an interface: its \<^verbatim>\<open>pread\<close>
  takes a count and an offset and may change a state \<open>'w\<close>. Offsets and sizes declared \<^verbatim>\<open>int64_t\<close> are integers;
  \<^verbatim>\<open>ssize_t\<close> has 32 bits.
\<close>

section \<open>File system statistics\<close>

record statfs_data = statfs_buf +
  f_type :: int
  f_frsize :: int
  f_spare0 :: int

definition TMPFS_MAGIC :: int where "TMPFS_MAGIC = 0x01021994"
definition PROC_SUPER_MAGIC :: int where "PROC_SUPER_MAGIC = 0x9fa0"
definition EXT2_SUPER_MAGIC :: int where "EXT2_SUPER_MAGIC = 0xEF53"
definition SYSFS_MAGIC :: int where "SYSFS_MAGIC = 0x62656572"

definition DoStatFsForDev :: statfs_data where
  "DoStatFsForDev = \<lparr>f_bsize = 4096, f_blocks = 88936, f_bfree = 88928, f_bavail = 88928,
     f_files = 28368, f_ffree = 28134, f_fsid = [0, 0], f_namelen = 255, f_type = TMPFS_MAGIC, f_frsize = 4096, f_spare0 = 4130\<rparr>"

definition DoStatFsForProc :: statfs_data where
  "DoStatFsForProc = \<lparr>f_bsize = 4096, f_blocks = 88936, f_bfree = 88928, f_bavail = 88928,
     f_files = 28368, f_ffree = 28134, f_fsid = [0, 0], f_namelen = 255, f_type = PROC_SUPER_MAGIC, f_frsize = 4096, f_spare0 = 4128\<rparr>"

definition DoStatFsForData :: statfs_data where
  "DoStatFsForData =
     (let blocks = 2 * 1024 * 1024 * 1024 div 4096
      in \<lparr>f_bsize = 4096, f_blocks = blocks, f_bfree = blocks div 2, f_bavail = blocks div 2,
          f_files = 887696, f_ffree = 866497, f_fsid = [- 748642328, 77008235], f_namelen = 255, f_type = EXT2_SUPER_MAGIC, f_frsize = 4096, f_spare0 = 1062\<rparr>)"

definition DoStatFsForSystem :: statfs_data where
  "DoStatFsForSystem = \<lparr>f_bsize = 4096, f_blocks = 164788, f_bfree = 93919, f_bavail = 93919,
     f_files = 41856, f_ffree = 40924, f_fsid = [- 748642328, 77008235], f_namelen = 255, f_type = EXT2_SUPER_MAGIC, f_frsize = 4096, f_spare0 = 4129\<rparr>"

definition DoStatFsForSys :: statfs_data where
  "DoStatFsForSys = \<lparr>f_bsize = 4096, f_blocks = 0, f_bfree = 0, f_bavail = 0,
     f_files = 0, f_ffree = 0, f_fsid = [0, 0], f_namelen = 255, f_type = SYSFS_MAGIC, f_frsize = 4096, f_spare0 = 4128\<rparr>"

section \<open>The stream\<close>

type_synonym 'w image_pread = "nat \<Rightarrow> int \<Rightarrow> 'w \<Rightarrow> byte list outcome \<times> 'w"

record readonly_file =
  rf_pathname :: string
  rf_inode :: int
  rf_write_mapped :: bool
  rf_read_ahead_buf_max_size :: nat
  rf_read_ahead_buf :: "byte list"
  rf_read_ahead_buf_offset :: int
  rf_offset_in_image :: int
  rf_size :: int
  rf_mtime :: int
  rf_pos :: int

definition ReadonlyFile :: "nat \<Rightarrow> string \<Rightarrow> int \<Rightarrow> int \<Rightarrow> int \<Rightarrow> int \<Rightarrow> readonly_file" where
  "ReadonlyFile read_ahead_size pathname inode file_offset file_size mtime =
     \<lparr>rf_pathname = pathname, rf_inode = inode, rf_write_mapped = False, rf_read_ahead_buf_max_size = read_ahead_size,
      rf_read_ahead_buf = [], rf_read_ahead_buf_offset = 0, rf_offset_in_image = file_offset, rf_size = file_size,
      rf_mtime = mtime, rf_pos = 0\<rparr>"

definition is_proc_path :: "string \<Rightarrow> bool" where
  "is_proc_path pathname \<longleftrightarrow> take 6 pathname = ''/proc/''"

definition ReadonlyFile_madvise :: "madv \<Rightarrow> readonly_file \<Rightarrow> int outcome" where
  "ReadonlyFile_madvise advice f =
     (if advice \<noteq> MADV_DONTNEED then FileStream_madvise advice
      else if rf_write_mapped f then Err EINVAL
      else Ret 0)"

text \<open>The system call of the image stream gets the offset in the image.\<close>

definition ReadonlyFile_mmap :: "sys_mmap \<Rightarrow> u32 \<Rightarrow> u32 \<Rightarrow> u32 \<Rightarrow> u32 \<Rightarrow> int \<Rightarrow> readonly_file \<Rightarrow> u32 outcome \<times> readonly_file" where
  "ReadonlyFile_mmap image_mmap addr len prot flags offset f =
     (if is_proc_path (rf_pathname f) then (Err EIO, f)
      else (image_mmap addr len prot flags (offset + rf_offset_in_image f),
            f\<lparr>rf_write_mapped := (rf_write_mapped f \<or> prot AND PROT_WRITE \<noteq> 0)\<rparr>))"

definition ReadonlyFile_mprotect :: "(u32 \<Rightarrow> u32 \<Rightarrow> u32 \<Rightarrow> int outcome) \<Rightarrow> u32 \<Rightarrow> u32 \<Rightarrow> u32 \<Rightarrow> readonly_file \<Rightarrow> int outcome \<times> readonly_file" where
  "ReadonlyFile_mprotect image_mprotect addr len prot f =
     (image_mprotect addr len prot, f\<lparr>rf_write_mapped := (rf_write_mapped f \<or> prot AND PROT_WRITE \<noteq> 0)\<rparr>)"

text \<open>\<^verbatim>\<open>std::vector::resize\<close>: new bytes are zero.\<close>

definition vector_resize :: "nat \<Rightarrow> byte list \<Rightarrow> byte list" where
  "vector_resize n v = take n v @ replicate (n - length v) 0"

text \<open>
  The buffer is resized before the image is read, and a failing or empty read leaves it so; a failing
  read is taken not to have written to the buffer.
\<close>

definition PreadImpl :: "'w image_pread \<Rightarrow> nat \<Rightarrow> int \<Rightarrow> bool \<Rightarrow> readonly_file \<Rightarrow> 'w \<Rightarrow> byte list outcome \<times> readonly_file \<times> 'w" where
  "PreadImpl image_pread count offset can_read_ahead f w =
     (let read_max = to_ssize_t (rf_size f - offset) in
      if read_max \<le> 0 then (Ret [], f, w)
      else
        let read_size = min count (nat read_max);
            buf = rf_read_ahead_buf f;
            buf_offset = rf_read_ahead_buf_offset f in
        if buf_offset \<le> offset \<and> offset < buf_offset + int (length buf) \<and>
           offset + int read_size \<le> buf_offset + int (length buf)
        then (Ret (take read_size (drop (nat (offset - buf_offset)) buf)), f, w)
        else
          let pread_offset_in_image = rf_offset_in_image f + offset in
          if rf_read_ahead_buf_max_size f \<le> read_size \<or> \<not> can_read_ahead
          then (case image_pread read_size pread_offset_in_image w of (r, w') \<Rightarrow> (r, f, w'))
          else
            let f1 = f\<lparr>rf_read_ahead_buf := vector_resize (rf_read_ahead_buf_max_size f) buf\<rparr>;
                read_ahead_size = min (rf_read_ahead_buf_max_size f) (nat read_max) in
            case image_pread read_ahead_size pread_offset_in_image w of
              (Ret bs, w') \<Rightarrow>
                if bs = [] then (Ret [], f1, w')
                else (Ret (take read_size bs), f1\<lparr>rf_read_ahead_buf := bs, rf_read_ahead_buf_offset := offset\<rparr>, w')
            | (Err e, w') \<Rightarrow> (Err e, (if e = EINTR then f1\<lparr>rf_read_ahead_buf := []\<rparr> else f1), w')
            | (Fatal, w') \<Rightarrow> (Fatal, f1, w'))"

definition ReadonlyFile_read :: "'w image_pread \<Rightarrow> nat \<Rightarrow> readonly_file \<Rightarrow> 'w \<Rightarrow> byte list outcome \<times> readonly_file \<times> 'w" where
  "ReadonlyFile_read image_pread count f w =
     (case PreadImpl image_pread count (rf_pos f) True f w of
        (Ret bs, f', w') \<Rightarrow> (Ret bs, f'\<lparr>rf_pos := rf_pos f' + int (length bs)\<rparr>, w')
      | r \<Rightarrow> r)"

definition ReadonlyFile_write :: "byte list \<Rightarrow> nat outcome" where "ReadonlyFile_write buf = Err EINVAL"

definition ReadonlyFile_pread :: "'w image_pread \<Rightarrow> nat \<Rightarrow> int \<Rightarrow> readonly_file \<Rightarrow> 'w \<Rightarrow> byte list outcome \<times> readonly_file \<times> 'w" where
  "ReadonlyFile_pread image_pread count offset f w = PreadImpl image_pread count offset False f w"

definition ReadonlyFile_lseek :: "int \<Rightarrow> whence \<Rightarrow> readonly_file \<Rightarrow> int outcome \<times> readonly_file" where
  "ReadonlyFile_lseek offset whence f =
     (let pos = (case whence of SEEK_SET \<Rightarrow> offset | SEEK_CUR \<Rightarrow> rf_pos f + offset | SEEK_END \<Rightarrow> rf_size f + offset)
      in (Ret pos, f\<lparr>rf_pos := pos\<rparr>))"

definition ReadonlyFile_fsync :: "readonly_file \<Rightarrow> int outcome" where
  "ReadonlyFile_fsync f = (if is_proc_path (rf_pathname f) then Err EINVAL else Ret 0)"

definition ReadonlyFile_fdatasync :: "readonly_file \<Rightarrow> int outcome" where
  "ReadonlyFile_fdatasync f = ReadonlyFile_fsync f"

definition ReadonlyFile_fstat :: "readonly_file \<Rightarrow> stat_buf" where
  "ReadonlyFile_fstat f =
     \<lparr>st_ino = rf_inode f, st_mode = S_IFREG, st_uid = 0, st_gid = 0, st_nlink = 1, st_size = rf_size f,
      st_blksize = 4096, st_mtime = rf_mtime f\<rparr>"

definition ReadonlyFile_ioctl :: "u32 \<Rightarrow> readonly_file \<Rightarrow> int outcome" where
  "ReadonlyFile_ioctl request f =
     (if request = rm_FIONREAD then Ret (to_ssize_t (rf_size f - rf_pos f)) else Err EINVAL)"

definition ReadonlyFile_IsSelectWriteReady :: bool where "ReadonlyFile_IsSelectWriteReady = False"
definition ReadonlyFile_GetSize :: "readonly_file \<Rightarrow> nat" where "ReadonlyFile_GetSize f = unat (word_of_int (rf_size f) :: u32)"

section \<open>The handler\<close>

text \<open>
  The underlying handler and the image stream it opens, over a state \<open>'w\<close>: \<^verbatim>\<open>open\<close> says whether a stream
  was returned, \<^verbatim>\<open>fstat\<close> gives size and modification time, \<^verbatim>\<open>mmap\<close> the bytes that are mapped.
\<close>

record 'w image_source =
  is_IsInitialized :: "'w \<Rightarrow> bool"
  is_Initialize :: "'w \<Rightarrow> 'w"
  is_open :: "string \<Rightarrow> 'w \<Rightarrow> bool \<times> 'w"
  is_fstat :: "'w \<Rightarrow> (int \<times> int) outcome \<times> 'w"
  is_mmap :: "int \<Rightarrow> 'w \<Rightarrow> byte list outcome \<times> 'w"
  is_munmap :: "'w \<Rightarrow> bool \<times> 'w"

record readonly_handler =
  rh_image_filename :: string
  rh_read_ahead_size :: nat
  rh_image_reader :: "fs_reader option"
  rh_image_stream :: bool
  rh_directory_mtime :: int

definition ReadonlyFileHandler :: "string \<Rightarrow> nat \<Rightarrow> readonly_handler" where
  "ReadonlyFileHandler image_filename read_ahead_size =
     \<lparr>rh_image_filename = image_filename, rh_read_ahead_size = read_ahead_size, rh_image_reader = None,
      rh_image_stream = False, rh_directory_mtime = 0\<rparr>"

text \<open>The result says whether parsing succeeded; a malformed image is \<open>Fatal\<close>.\<close>

definition ParseReadonlyFsImage :: "base_lib \<Rightarrow> 'w image_source \<Rightarrow> readonly_handler \<Rightarrow> 'w \<Rightarrow> (bool \<times> readonly_handler) outcome \<times> 'w" where
  "ParseReadonlyFsImage B U h w =
     (case is_fstat U w of
        (Ret (sz, mtime), w1) \<Rightarrow>
          (case is_mmap U sz w1 of
             (Ret img, w2) \<Rightarrow>
               (case ReadonlyFsReader B img of
                  Ret rd \<Rightarrow>
                    let h1 = h\<lparr>rh_image_reader := Some rd\<rparr>;
                        (unmapped, w3) = is_munmap U w2
                    in (Ret (if unmapped then (True, h1\<lparr>rh_directory_mtime := mtime\<rparr>) else (False, h1)), w3)
                | _ \<Rightarrow> (Fatal, w2))
           | (_, w2) \<Rightarrow> (Ret (False, h), w2))
      | (_, w1) \<Rightarrow> (Ret (False, h), w1))"

text \<open>A null underlying handler counts as initialised (for tests).\<close>

definition ReadonlyFileHandler_IsInitialized :: "'w image_source option \<Rightarrow> readonly_handler \<Rightarrow> 'w \<Rightarrow> bool" where
  "ReadonlyFileHandler_IsInitialized underlying h w =
     (case underlying of None \<Rightarrow> True | Some U \<Rightarrow> rh_image_stream h \<and> is_IsInitialized U w)"

definition ReadonlyFileHandler_Initialize :: "base_lib \<Rightarrow> 'w image_source \<Rightarrow> readonly_handler \<Rightarrow> 'w \<Rightarrow> readonly_handler outcome \<times> 'w" where
  "ReadonlyFileHandler_Initialize B U h w =
     (let w1 = (if is_IsInitialized U w then w else is_Initialize U w);
          (opened, w2) = is_open U (rh_image_filename h) w1;
          h1 = h\<lparr>rh_image_stream := opened\<rparr>
      in if \<not> opened then (Ret h1, w2)
         else case ParseReadonlyFsImage B U h1 w2 of
                (Ret (parsed, h2), w3) \<Rightarrow> (Ret (if parsed then h2 else h2\<lparr>rh_image_stream := False\<rparr>), w3)
              | (Err e, w3) \<Rightarrow> (Err e, w3)
              | (Fatal, w3) \<Rightarrow> (Fatal, w3))"

datatype ro_stream = Ro_Directory dir_stream | Ro_File readonly_file

definition CreateFileLocked :: "int \<Rightarrow> string \<Rightarrow> u32 \<Rightarrow> readonly_handler \<Rightarrow> fs_reader \<Rightarrow> ro_stream outcome" where
  "CreateFileLocked inode pathname oflag h rd =
     (case GetMetadata pathname rd of
        None \<Rightarrow> Err ENOENT
      | Some md \<Rightarrow>
          if oflag AND O_DIRECTORY \<noteq> 0 then Err ENOTDIR
          else Ret (Ro_File (ReadonlyFile (rh_read_ahead_size h) pathname inode (md_offset md) (uint (md_size md)) (md_mtime md))))"

definition with_reader :: "readonly_handler \<Rightarrow> (fs_reader \<Rightarrow> 'r outcome) \<Rightarrow> 'r outcome" where
  "with_reader h k = (case rh_image_reader h of None \<Rightarrow> Fatal | Some rd \<Rightarrow> k rd)"

definition ReadonlyFileHandler_open :: "int \<Rightarrow> string \<Rightarrow> u32 \<Rightarrow> readonly_handler \<Rightarrow> ro_stream outcome" where
  "ReadonlyFileHandler_open inode pathname oflag h = with_reader h (\<lambda>rd.
     let is_directory = IsDirectory pathname rd in
     if oflag AND 3 \<noteq> 0 then Err (if is_directory then EISDIR else EACCES)
     else if is_directory then Ret (Ro_Directory (DirectoryFileStream pathname (rh_directory_mtime h)))
     else CreateFileLocked inode pathname oflag h rd)"

definition ReadonlyFileHandler_OnDirectoryContentsNeeded :: "base_lib \<Rightarrow> string \<Rightarrow> readonly_handler \<Rightarrow> dir_impl outcome" where
  "ReadonlyFileHandler_OnDirectoryContentsNeeded B name h = with_reader h (ro_OpenDirectory B name)"

text \<open>\<open>dir_fstat\<close> is the attribute call of a directory stream.\<close>

definition ReadonlyFileHandler_stat :: "(dir_stream \<Rightarrow> stat_buf) \<Rightarrow> int \<Rightarrow> string \<Rightarrow> readonly_handler \<Rightarrow> stat_buf outcome" where
  "ReadonlyFileHandler_stat dir_fstat inode pathname h =
     (case ReadonlyFileHandler_open inode pathname 0 h of
        Ret (Ro_Directory d) \<Rightarrow> Ret (dir_fstat d)
      | Ret (Ro_File f) \<Rightarrow> Ret (ReadonlyFile_fstat f)
      | Err e \<Rightarrow> Err ENOENT
      | Fatal \<Rightarrow> Fatal)"

definition ReadonlyFileHandler_statfs :: "string \<Rightarrow> readonly_handler \<Rightarrow> statfs_data outcome" where
  "ReadonlyFileHandler_statfs pathname h = with_reader h (\<lambda>rd.
     if Exist pathname rd then Ret (if take 5 pathname = ''/proc'' then DoStatFsForProc else DoStatFsForSystem)
     else Err ENOENT)"

definition ReadonlyFileHandler_mkdir :: "string \<Rightarrow> readonly_handler \<Rightarrow> int outcome" where
  "ReadonlyFileHandler_mkdir pathname h = with_reader h (\<lambda>rd. Err (if Exist pathname rd then EEXIST else EACCES))"

definition ReadonlyFileHandler_rename :: "string \<Rightarrow> string \<Rightarrow> readonly_handler \<Rightarrow> int outcome" where
  "ReadonlyFileHandler_rename oldpath newpath h = with_reader h (\<lambda>rd.
     if \<not> Exist oldpath rd \<or> newpath = [] then Err ENOENT
     else if oldpath = newpath then Ret 0 else Err EACCES)"

definition ReadonlyFileHandler_truncate :: "string \<Rightarrow> readonly_handler \<Rightarrow> int outcome" where
  "ReadonlyFileHandler_truncate pathname h = with_reader h (\<lambda>rd. Err (if \<not> Exist pathname rd then ENOENT else EACCES))"

definition ReadonlyFileHandler_unlink :: "string \<Rightarrow> readonly_handler \<Rightarrow> int outcome" where
  "ReadonlyFileHandler_unlink pathname h = with_reader h (\<lambda>rd. Err (if \<not> Exist pathname rd then ENOENT else EACCES))"

definition ReadonlyFileHandler_utimes :: "string \<Rightarrow> int outcome" where "ReadonlyFileHandler_utimes pathname = Err EROFS"

definition ReadonlyFileHandler_readlink :: "string \<Rightarrow> readonly_handler \<Rightarrow> string outcome" where
  "ReadonlyFileHandler_readlink pathname h =
     (case rh_image_reader h of
        None \<Rightarrow> Err EINVAL
      | Some rd \<Rightarrow>
          (case GetMetadata pathname rd of
             None \<Rightarrow> Err EINVAL
           | Some md \<Rightarrow> if md_file_type md = kSymbolicLink then Ret (md_link_target md) else Err EINVAL))"


section \<open>Reading through the cache\<close>

text \<open>
  What the stream relies on of the image stream: at offsets that fit 31 bits a \<^verbatim>\<open>pread\<close> that succeeds returns
  a prefix of what was asked for, and not an empty one inside the image. It may fail with any error.
\<close>

locale image_stream =
  fixes pread :: "'w image_pread" and img :: "byte list"
  assumes pread_prefix: "0 \<le> off \<Longrightarrow> off < 2 ^ 31 \<Longrightarrow> fst (pread n off w) = Ret bs \<Longrightarrow>
      length bs \<le> n \<and> bs = take (length bs) (drop (nat off) img)"
    and pread_progress: "0 \<le> off \<Longrightarrow> nat off < length img \<Longrightarrow> off < 2 ^ 31 \<Longrightarrow> 0 < n \<Longrightarrow> fst (pread n off w) \<noteq> Ret []"

text \<open>
  The stream does not stop at the start of its file: a negative position reads what lies before it
  in the image. What can be read is therefore the image up to the end of the file, and position
  \<open>p\<close> of the file is position \<open>rf_offset_in_image + p\<close> of it.
\<close>

definition file_view :: "byte list \<Rightarrow> readonly_file \<Rightarrow> byte list" where
  "file_view img f = take (nat (rf_offset_in_image f + rf_size f)) img"

definition file_in :: "byte list \<Rightarrow> readonly_file \<Rightarrow> bool" where
  "file_in img f \<longleftrightarrow> 0 \<le> rf_offset_in_image f \<and> 0 \<le> rf_size f \<and> rf_offset_in_image f + rf_size f \<le> int (length img) \<and>
     int (length img) < 2 ^ 31 \<and> 0 < rf_read_ahead_buf_max_size f"

definition cache_ok :: "byte list \<Rightarrow> readonly_file \<Rightarrow> bool" where
  "cache_ok img f \<longleftrightarrow> file_in img f \<and> 0 \<le> rf_offset_in_image f + rf_read_ahead_buf_offset f \<and>
     rf_read_ahead_buf f = take (length (rf_read_ahead_buf f))
       (drop (nat (rf_offset_in_image f + rf_read_ahead_buf_offset f)) (file_view img f))"

text \<open>What an uncached file with this content may answer: any error, or bytes of the content.\<close>

definition allowed :: "byte list \<Rightarrow> nat \<Rightarrow> int \<Rightarrow> byte list outcome \<Rightarrow> bool" where
  "allowed content count offset r =
     (case r of
        Ret bs \<Rightarrow> length bs \<le> count \<and> bs = take (length bs) (drop (nat offset) content) \<and>
          (0 < count \<and> nat offset < length content \<longrightarrow> bs \<noteq> [])
      | _ \<Rightarrow> True)"

text \<open>A read that did not succeed and was not just interrupted.\<close>

definition failed :: "'r outcome \<Rightarrow> bool" where
  "failed r = (case r of Ret _ \<Rightarrow> False | Err e \<Rightarrow> e \<noteq> EINTR | Fatal \<Rightarrow> True)"

lemma length_file_view: "file_in img f \<Longrightarrow> length (file_view img f) = nat (rf_offset_in_image f + rf_size f)"
  by (auto simp: file_in_def file_view_def)

lemma take_prefix_trans: "bs = take (length bs) xs \<Longrightarrow> take k bs = take (length (take k bs)) xs"
proof -
  assume "bs = take (length bs) xs"
  from arg_cong [OF this, of "take k"] have "take k bs = take (min k (length bs)) xs"
    unfolding take_take .
  then show ?thesis unfolding length_take by (simp only: min.commute)
qed

lemma prefix_of_cache:
  assumes "buf = take (length buf) (drop b xs)" "b \<le> off" "off + n \<le> b + length buf"
  shows "take n (drop (off - b) buf) = take n (drop off xs)"
proof -
  have "drop (off - b) buf = take (length buf - (off - b)) (drop off xs)"
    using assms(1,2) by (metis drop_drop drop_take le_add_diff_inverse2)
  moreover have "n \<le> length buf - (off - b)" using assms(2,3) by linarith
  ultimately show ?thesis by (simp add: min_absorb1)
qed

context image_stream
begin

lemma image_read:
  assumes f: "file_in img f" and o: "0 \<le> rf_offset_in_image f + offset" "offset < rf_size f"
    and n: "int n \<le> rf_size f - offset"
    and r: "pread n (rf_offset_in_image f + offset) w = (Ret bs, w')"
  shows "length bs \<le> n" "bs = take (length bs) (drop (nat (rf_offset_in_image f + offset)) (file_view img f))"
    "0 < n \<Longrightarrow> bs \<noteq> []"
proof -
  define off where "off = rf_offset_in_image f + offset"
  have off: "0 \<le> off" "nat off < length img" "off < 2 ^ 31" using f o by (auto simp: off_def file_in_def)
  have b: "length bs \<le> n" "bs = take (length bs) (drop (nat off) img)"
    using pread_prefix [OF off(1,3), of n w bs] r by (auto simp: off_def)
  then show "length bs \<le> n" by simp
  show "0 < n \<Longrightarrow> bs \<noteq> []" using pread_progress [OF off, of n w] r by (auto simp: off_def)
  define last where "last = nat (rf_offset_in_image f + rf_size f) - nat off"
  have "drop (nat off) (file_view img f) = take last (drop (nat off) img)"
    by (simp add: file_view_def drop_take last_def)
  moreover have "length bs \<le> last" using b(1) n o unfolding last_def off_def by linarith
  ultimately have "take (length bs) (drop (nat off) (file_view img f)) = take (length bs) (drop (nat off) img)"
    by (simp add: min_def)
  then show "bs = take (length bs) (drop (nat (rf_offset_in_image f + offset)) (file_view img f))"
    using b(2) by (simp only: off_def)
qed

lemma PreadImpl_step:
  assumes c: "cache_ok img f" and o: "0 \<le> rf_offset_in_image f + offset" "offset < 2 ^ 31"
    and p: "PreadImpl pread count offset ra f w = (r, f', w')"
  shows "allowed (file_view img f) count (rf_offset_in_image f + offset) r \<and> (\<not> failed r \<longrightarrow> cache_ok img f') \<and>
    file_view img f' = file_view img f \<and> rf_pos f' = rf_pos f \<and> rf_offset_in_image f' = rf_offset_in_image f"
proof -
  let ?o = "rf_offset_in_image f"
  have f: "file_in img f" using c by (simp add: cache_ok_def)
  have sz: "0 \<le> rf_size f" "rf_size f < 2 ^ 31" "0 < rf_read_ahead_buf_max_size f" "?o + rf_size f < 2 ^ 31"
    using f by (auto simp: file_in_def)
  have max: "to_ssize_t (rf_size f - offset) = rf_size f - offset" using sz o by (intro to_ssize_t_id) simp_all
  have len: "length (file_view img f) = nat (?o + rf_size f)" by (rule length_file_view [OF f])
  show ?thesis
  proof (cases "rf_size f - offset \<le> 0")
    case True
    then have "r = Ret []" "f' = f" using p by (simp_all add: PreadImpl_def max)
    then show ?thesis using c True len by (auto simp: allowed_def)
  next
    case False
    define n where "n = min count (nat (rf_size f - offset))"
    define b where "b = rf_read_ahead_buf_offset f"
    define buf where "buf = rf_read_ahead_buf f"
    have n: "int n \<le> rf_size f - offset" "n \<le> count" "0 < count \<Longrightarrow> 0 < n" using False by (auto simp: n_def)
    have ck: "0 \<le> ?o + b" "buf = take (length buf) (drop (nat (?o + b)) (file_view img f))"
      using c by (auto simp: cache_ok_def b_def buf_def)
    note unf = PreadImpl_def max Let_def n_def [symmetric] b_def [symmetric] buf_def [symmetric]
    show ?thesis
    proof (cases "b \<le> offset \<and> offset < b + int (length buf) \<and> offset + int n \<le> b + int (length buf)")
      case True
      have "take n (drop (nat (?o + offset) - nat (?o + b)) buf) = take n (drop (nat (?o + offset)) (file_view img f))"
        by (rule prefix_of_cache [OF ck(2)]) (use True ck(1) in linarith)+
      moreover have "nat (offset - b) = nat (?o + offset) - nat (?o + b)" using ck(1) True by linarith
      ultimately have "r = Ret (take n (drop (nat (?o + offset)) (file_view img f)))" "f' = f"
        using p True False by (auto simp add: unf)
      moreover have "length (take n (drop (nat (?o + offset)) (file_view img f))) = n"
      proof -
        have "n \<le> nat (?o + rf_size f) - nat (?o + offset)" using n(1) o(1) by linarith
        then show ?thesis using len by simp
      qed
      ultimately show ?thesis using c n by (auto simp: allowed_def)
    next
      case miss: False
      show ?thesis
      proof (cases "rf_read_ahead_buf_max_size f \<le> n \<or> \<not> ra")
        case True
        then have pr: "pread n (?o + offset) w = (r, w')" and f': "f' = f"
          using p False miss by (auto simp: unf split: prod.splits)
        have "allowed (file_view img f) count (?o + offset) r"
        proof (cases r)
          case (Ret bs)
          show ?thesis
            using image_read [OF f o(1) _ n(1) pr [unfolded Ret]] False n(2,3) by (auto simp: allowed_def Ret)
        qed (simp_all add: allowed_def)
        then show ?thesis using c f' by simp
      next
        case ahead: False
        define k where "k = min (rf_read_ahead_buf_max_size f) (nat (rf_size f - offset))"
        have k: "0 < k" "int k \<le> rf_size f - offset" "n \<le> k" using False sz(3) ahead by (auto simp: k_def n_def)
        obtain q w1 where pr: "pread k (?o + offset) w = (q, w1)" by fastforce
        have same: "file_view img (f\<lparr>rf_read_ahead_buf := x, rf_read_ahead_buf_offset := y\<rparr>) = file_view img f"
          "file_in img (f\<lparr>rf_read_ahead_buf := x, rf_read_ahead_buf_offset := y\<rparr>)"
          "file_view img (f\<lparr>rf_read_ahead_buf := x\<rparr>) = file_view img f"
          "file_in img (f\<lparr>rf_read_ahead_buf := x\<rparr>)" for x y
          using f by (auto simp: file_view_def file_in_def)
        show ?thesis
        proof (cases q)
          case (Ret bs)
          note b = image_read [OF f o(1) _ k(2) pr [unfolded Ret]]
          have ne: "bs \<noteq> []" using b(3) k(1) False by simp
          then have "r = Ret (take n bs)" "f' = f\<lparr>rf_read_ahead_buf := bs, rf_read_ahead_buf_offset := offset\<rparr>"
            using p False miss ahead pr Ret by (auto simp: unf k_def [symmetric])
          moreover define t where "t = take n bs"
          have bs: "bs = take (length bs) (drop (nat (?o + offset)) (file_view img f))" using b(2) False by simp
          have "t = take (length t) (drop (nat (?o + offset)) (file_view img f))" "length t \<le> count" "0 < count \<Longrightarrow> t \<noteq> []"
            unfolding t_def using n(2,3) ne by - (rule take_prefix_trans [OF bs], auto)
          then have "allowed (file_view img f) count (?o + offset) (Ret t)" by (simp add: allowed_def)
          ultimately show ?thesis using bs same o(1) by (simp add: t_def cache_ok_def)
        next
          case (Err e)
          then have "r = Err e" "f' = f\<lparr>rf_read_ahead_buf := (if e = EINTR then [] else vector_resize (rf_read_ahead_buf_max_size f) buf)\<rparr>"
            using p False miss ahead pr by (auto simp: unf k_def [symmetric])
          then show ?thesis using same(3,4) ck(1) by (simp add: failed_def allowed_def cache_ok_def b_def)
        next
          case Fatal
          then have "r = Fatal" "f' = f\<lparr>rf_read_ahead_buf := vector_resize (rf_read_ahead_buf_max_size f) buf\<rparr>"
            using p False miss ahead pr by (auto simp: unf k_def [symmetric])
          then show ?thesis using same(3) by (simp add: failed_def allowed_def)
        qed
      qed
    qed
  qed
qed

end

text \<open>A positional read never changes the cache.\<close>

lemma pread_keeps: "PreadImpl pread count offset False f w = (r, f', w') \<Longrightarrow> f' = f"
  by (auto simp: PreadImpl_def Let_def split: if_splits prod.splits)

text \<open>A file held in memory is such a stream (its size fits 31 bits).\<close>

abbreviation memory_image_file :: "int \<Rightarrow> u32 \<Rightarrow> 31 word \<Rightarrow> readonly_memory_file" where
  "memory_image_file mtime data sz \<equiv> ReadonlyMemoryFile 0 None mtime data (ucast sz)"

lemma uint_31: "uint (sz :: 31 word) < 2 ^ 31"
  by (rule less_le_trans [OF uint_lt2p]) simp

lemma uint_ucast_31: "uint (ucast (sz :: 31 word) :: u32) = uint sz"
proof -
  have "uint sz < 2 ^ 32" using uint_31 [of sz] by simp
  then show ?thesis by (simp add: unsigned_ucast_eq take_bit_int_eq_self)
qed

interpretation memory_image: image_stream
  "\<lambda>n off w. (rm_pread mem n off (memory_image_file mtime data sz), w)" "rm_content mem (memory_image_file mtime data sz)"
  for mem mtime data sz
proof unfold_locales
  let ?f = "memory_image_file mtime data sz"
  have sz: "uint (rm_size ?f) < 2 ^ 31" using uint_31 [of sz] by (simp add: ReadonlyMemoryFile_def uint_ucast_31)
  fix off :: int and n w bs assume o: "0 \<le> off" "off < 2 ^ 31"
  note r = pread_in_range [OF sz o(1) less_imp_le [OF o(2)]]
  show "length bs \<le> n \<and> bs = take (length bs) (drop (nat off) (rm_content mem ?f))"
    if "fst (rm_pread mem n off ?f, w) = Ret bs"
    using r that take_min_length [of n "drop (nat off) (rm_content mem ?f)"] by (auto simp: min.commute)
  show "fst (rm_pread mem n off ?f, w) \<noteq> Ret []" if "nat off < length (rm_content mem ?f)" "0 < n"
    using r that by simp
qed

section \<open>Properties of the read-only files\<close>

text \<open>Operations on an open file, and the answers of the stream to a sequence of them.\<close>

datatype rf_op = Rf_read nat | Rf_pread nat int | Rf_seek int whence

datatype rf_answer = Rf_data "byte list outcome" | Rf_pos "int outcome"

fun rf_run :: "'w image_pread \<Rightarrow> rf_op list \<Rightarrow> readonly_file \<Rightarrow> 'w \<Rightarrow> (rf_op \<times> rf_answer) list" where
  "rf_run pread [] f w = []"
| "rf_run pread (Rf_read n # ops) f w =
     (case ReadonlyFile_read pread n f w of (r, f', w') \<Rightarrow> (Rf_read n, Rf_data r) # rf_run pread ops f' w')"
| "rf_run pread (Rf_pread n off # ops) f w =
     (case ReadonlyFile_pread pread n off f w of (r, f', w') \<Rightarrow> (Rf_pread n off, Rf_data r) # rf_run pread ops f' w')"
| "rf_run pread (Rf_seek off wh # ops) f w =
     (case ReadonlyFile_lseek off wh f of (r, f') \<Rightarrow> (Rf_seek off wh, Rf_pos r) # rf_run pread ops f' w)"

text \<open>
  The specification: a file without a cache, which is only its content, the length \<open>base\<close> of what lies
  before the file in it, and a position. A seek moves the position anywhere. A read is specified
  where its position lies in the content or behind it, below \<open>2 ^ 31\<close>; nothing more is said after a
  sequential read at another position, or after one that failed other than by interruption.
\<close>

fun accepts :: "byte list \<Rightarrow> int \<Rightarrow> int \<Rightarrow> (rf_op \<times> rf_answer) list \<Rightarrow> bool" where
  "accepts content base pos [] \<longleftrightarrow> True"
| "accepts content base pos ((Rf_read n, Rf_data r) # t) \<longleftrightarrow>
     (0 \<le> base + pos \<and> pos < 2 ^ 31 \<longrightarrow>
        allowed content n (base + pos) r \<and>
        (failed r \<or> accepts content base (case r of Ret bs \<Rightarrow> pos + int (length bs) | _ \<Rightarrow> pos) t))"
| "accepts content base pos ((Rf_pread n off, Rf_data r) # t) \<longleftrightarrow>
     (0 \<le> base + off \<and> off < 2 ^ 31 \<longrightarrow> allowed content n (base + off) r) \<and> accepts content base pos t"
| "accepts content base pos ((Rf_seek off wh, Rf_pos r) # t) \<longleftrightarrow>
     (let p = (case wh of SEEK_SET \<Rightarrow> off | SEEK_CUR \<Rightarrow> pos + off | SEEK_END \<Rightarrow> int (length content) - base + off)
      in r = Ret p \<and> accepts content base p t)"
| "accepts content base pos _ \<longleftrightarrow> False"

lemma cache_ok_pos: "cache_ok img (f\<lparr>rf_pos := p\<rparr>) = cache_ok img f" "file_view img (f\<lparr>rf_pos := p\<rparr>) = file_view img f"
  by (simp_all add: cache_ok_def file_view_def file_in_def)

context image_stream
begin

lemma run_accepted:
  "cache_ok img f \<Longrightarrow> accepts (file_view img f) (rf_offset_in_image f) (rf_pos f) (rf_run pread ops f w)"
proof (induction ops arbitrary: f w)
  case (Cons op ops)
  let ?o = "rf_offset_in_image f"
  show ?case
  proof (cases op)
    case (Rf_read n)
    obtain r f1 w1 where p: "PreadImpl pread n (rf_pos f) True f w = (r, f1, w1)" by (metis prod_cases3)
    define q where "q = (case r of Ret bs \<Rightarrow> rf_pos f + int (length bs) | _ \<Rightarrow> rf_pos f)"
    define f2 where "f2 = (case r of Ret bs \<Rightarrow> f1\<lparr>rf_pos := rf_pos f1 + int (length bs)\<rparr> | _ \<Rightarrow> f1)"
    have run: "rf_run pread (op # ops) f w = (Rf_read n, Rf_data r) # rf_run pread ops f2 w1"
      by (cases r) (simp_all add: Rf_read ReadonlyFile_read_def p f2_def)
    have "allowed (file_view img f) n (?o + rf_pos f) r \<and>
        (failed r \<or> accepts (file_view img f) ?o q (rf_run pread ops f2 w1))"
      if o: "0 \<le> ?o + rf_pos f" "rf_pos f < 2 ^ 31"
    proof -
      note st = PreadImpl_step [OF Cons.prems o p]
      have "f2 = f1\<lparr>rf_pos := q\<rparr>" using st by (cases r; cases f1) (simp_all add: q_def f2_def)
      then show ?thesis using Cons.IH [of f2 w1] st by (auto simp: cache_ok_pos)
    qed
    then show ?thesis unfolding run by (simp add: q_def)
  next
    case (Rf_pread n off)
    obtain r f1 w1 where p: "PreadImpl pread n off False f w = (r, f1, w1)" by (metis prod_cases3)
    then show ?thesis
      using Cons.IH [of f w1] PreadImpl_step [OF Cons.prems _ _ p] pread_keeps [OF p] Cons.prems
      by (simp add: Rf_pread ReadonlyFile_pread_def)
  next
    case (Rf_seek off wh)
    have "int (length (file_view img f)) - ?o = rf_size f"
      using length_file_view [of img f] Cons.prems by (simp add: cache_ok_def file_in_def)
    then show ?thesis
      using Cons.IH [of "f\<lparr>rf_pos := p\<rparr>" w for p] Cons.prems
      by (cases wh) (simp_all add: Rf_seek ReadonlyFile_lseek_def cache_ok_pos Let_def)
  qed
qed simp

end

lemma image_stream_reads:
  assumes "image_stream pread img" "0 < read_ahead_size" "0 \<le> off" "0 \<le> sz" "off + sz \<le> int (length img)"
    and "int (length img) < 2 ^ 31"
  shows "accepts (take (nat (off + sz)) img) off 0
    (rf_run pread ops (ReadonlyFile read_ahead_size pathname inode off sz mtime) w)"
proof -
  let ?f = "ReadonlyFile read_ahead_size pathname inode off sz mtime"
  have "cache_ok img ?f" using assms(2-6) by (simp add: cache_ok_def file_in_def ReadonlyFile_def)
  then have "accepts (file_view img ?f) (rf_offset_in_image ?f) (rf_pos ?f) (rf_run pread ops ?f w)"
    by (rule image_stream.run_accepted [OF assms(1)])
  then show ?thesis by (simp add: file_view_def ReadonlyFile_def)
qed



text \<open>
  C12. A failing first read spoils the cache: when the image cannot be read (other than by interruption), the read
  fails, but the buffer has already been resized and counts as cached content, and the next read
  succeeds with zeros whatever the file contains.
\<close>

theorem failed_read_spoils_cache:
  assumes "pread (min read_ahead_size (nat sz)) off w = (Err e, w')" "e \<noteq> EINTR"
    and "0 < n" "n < read_ahead_size" "int n \<le> sz" "sz < 2 ^ 31"
  shows "let (r, f1, w2) = ReadonlyFile_read pread n (ReadonlyFile read_ahead_size pathname inode off sz mtime) w
    in r = Err e \<and> fst (ReadonlyFile_read pread n f1 w2) = Ret (replicate n 0)"
proof -
  define f where "f = ReadonlyFile read_ahead_size pathname inode off sz mtime"
  have sz: "to_ssize_t sz = sz" using assms(5,6) by (intro to_ssize_t_id) simp_all
  have m: "min n (nat sz) = n" "0 < sz" "\<not> sz \<le> 0" "\<not> read_ahead_size \<le> n" using assms(3-5) by auto
  define f1 where "f1 = f\<lparr>rf_read_ahead_buf := replicate read_ahead_size 0\<rparr>"
  have a: "ReadonlyFile_read pread n f w = (Err e, f1, w')"
    using assms(1,2) m by (simp add: ReadonlyFile_read_def PreadImpl_def f_def f1_def ReadonlyFile_def sz vector_resize_def Let_def)
  have b: "PreadImpl pread n 0 True f1 w' = (Ret (replicate n 0), f1, w')"
    using m assms(4) by (simp add: PreadImpl_def f_def f1_def ReadonlyFile_def sz Let_def)
  have "rf_pos f1 = 0" by (simp add: f1_def f_def ReadonlyFile_def)
  then have "fst (ReadonlyFile_read pread n f1 w') = Ret (replicate n 0)" using b by (simp add: ReadonlyFile_read_def)
  then show ?thesis using a by (simp add: f_def [symmetric])
qed

theorem failed_read_spoils_cache_witness:
  "let (r, f1, w2) = ReadonlyFile_read (\<lambda>n off w. (if w = 0 then Err EIO else Ret (replicate n 7), w + 1)) 2
       (ReadonlyFile 16 ''/a'' 1 0 8 0) (0 :: nat)
    in r = Err EIO \<and> fst (ReadonlyFile_read (\<lambda>n off w. (if w = 0 then Err EIO else Ret (replicate n 7), w + 1)) 2 f1 w2) = Ret (replicate 2 0)"
  by (rule failed_read_spoils_cache [where w' = 1]) simp_all

text \<open>A source that provides an image.\<close>

definition serves_image :: "'w image_source \<Rightarrow> byte list \<Rightarrow> bool" where
  "serves_image U img \<longleftrightarrow> (\<forall>w nm. fst (is_open U nm w)) \<and> (\<forall>w. \<exists>mt. fst (is_fstat U w) = Ret (int (length img), mt)) \<and>
     (\<forall>w. fst (is_mmap U (int (length img)) w) = Ret img) \<and> (\<forall>w. fst (is_munmap U w))"

lemma Initialize_serves:
  assumes "serves_image U img" "ReadonlyFsReader B img = Ret rd"
  shows "\<exists>mt. fst (ReadonlyFileHandler_Initialize B U h w) =
    Ret (h\<lparr>rh_image_stream := True, rh_image_reader := Some rd, rh_directory_mtime := mt\<rparr>)"
proof -
  define w1 where "w1 = (if is_IsInitialized U w then w else is_Initialize U w)"
  obtain w2 where w2: "is_open U (rh_image_filename h) w1 = (True, w2)" using assms(1) by (metis serves_image_def prod.collapse)
  obtain mt w3 where w3: "is_fstat U w2 = (Ret (int (length img), mt), w3)" using assms(1) by (metis serves_image_def prod.collapse)
  obtain w4 where w4: "is_mmap U (int (length img)) w3 = (Ret img, w4)" using assms(1) by (metis serves_image_def prod.collapse)
  obtain w5 where w5: "is_munmap U w4 = (True, w5)" using assms(1) by (metis serves_image_def prod.collapse)
  show ?thesis
    by (intro exI [of _ mt]) (simp add: ReadonlyFileHandler_Initialize_def Let_def w1_def [symmetric] w2 ParseReadonlyFsImage_def w3 w4 assms(2) w5)
qed


text \<open>An image held as a list of bytes, and a source that maps it.\<close>

definition list_pread :: "byte list \<Rightarrow> unit image_pread" where
  "list_pread img n off w = (Ret (take n (drop (nat off) img)), w)"

definition list_source :: "byte list \<Rightarrow> unit image_source" where
  "list_source img = \<lparr>is_IsInitialized = (\<lambda>w. True), is_Initialize = (\<lambda>w. w), is_open = (\<lambda>nm w. (True, w)),
     is_fstat = (\<lambda>w. (Ret (int (length img), 7), w)), is_mmap = (\<lambda>sz w. (Ret (take (nat sz) img), w)), is_munmap = (\<lambda>w. (True, w))\<rparr>"

interpretation list_image: image_stream "list_pread img" img for img
proof unfold_locales
  fix off :: int and n w bs
  show "length bs \<le> n \<and> bs = take (length bs) (drop (nat off) img)" if "fst (list_pread img n off w) = Ret bs"
    using that take_min_length [of n "drop (nat off) img"] by (auto simp: list_pread_def min.commute)
  show "fst (list_pread img n off w) \<noteq> Ret []" if "nat off < length img" "0 < n" using that by (simp add: list_pread_def)
qed



end
