(* ===== verification/Redirect_Handler.thy ===== *)
theory Redirect_Handler
  imports Dir_Manager
begin

text \<open>
  The handler that adds symbolic links to another one: \<^verbatim>\<open>src/src/posix_translation/redirect.cc\<close>, with
  \<^verbatim>\<open>src/src/common/file_util.cc\<close>. Links are kept in memory, in one table from a path to its target and one from a
  directory to the links in it. The calls that are not modelled here (\<^verbatim>\<open>mkdir\<close>, \<^verbatim>\<open>rename\<close>, \<^verbatim>\<open>stat\<close> and the like)
  forward their arguments to the underlying handler, whose operations are arguments over a state \<open>'w\<close>.
\<close>

section \<open>File names\<close>

definition GetBaseName :: "string \<Rightarrow> string" where
  "GetBaseName pathname = rev (takeWhile (\<lambda>c. c \<noteq> CHR ''/'') (rev pathname))"

text \<open>A string ends with a zero byte, which \<open>pathname[size]\<close> reads; an empty directory name makes \<open>dirname[-1]\<close> undefined.\<close>

definition IsInDirectory :: "string \<Rightarrow> string \<Rightarrow> bool outcome" where
  "IsInDirectory pathname dirname =
     (if take (length dirname) pathname = dirname then
        if dirname = [] then Fatal
        else if last dirname = CHR ''/'' then Ret True
        else Ret (length pathname = length dirname \<or>
                  pathname ! length dirname = CHR 0x00 \<or> pathname ! length dirname = CHR ''/'')
      else Ret False)"

section \<open>The handler\<close>

record redirect_handler =
  rd_is_initialized :: bool
  rd_symlinks :: "(string \<times> string) list"
  rd_dir_to_symlinks :: "(string \<times> string list) list"
  rd_mount_point :: string

definition RemoveTrailingSlash :: "string \<Rightarrow> string" where
  "RemoveTrailingSlash path = (if length path < 2 \<or> \<not> EndsWithSlash path then path else butlast path)"

definition AddSymlink :: "string \<Rightarrow> string \<Rightarrow> redirect_handler \<Rightarrow> redirect_handler" where
  "AddSymlink dest src h =
     (let links = snd (hash_insert src dest (rd_symlinks h));
          dir_name = GetDirName src;
          names = (case map_of (rd_dir_to_symlinks h) dir_name of None \<Rightarrow> [] | Some names \<Rightarrow> names)
      in h\<lparr>rd_symlinks := links,
           rd_dir_to_symlinks := AList.update dir_name (names @ [GetBaseName src]) (rd_dir_to_symlinks h)\<rparr>)"

definition GetSymlinkTarget :: "string \<Rightarrow> redirect_handler \<Rightarrow> string" where
  "GetSymlinkTarget src h = (case map_of (rd_symlinks h) src of None \<Rightarrow> [] | Some dest \<Rightarrow> dest)"

definition RemoveSymlinkTarget :: "string \<Rightarrow> redirect_handler \<Rightarrow> bool \<times> redirect_handler" where
  "RemoveSymlinkTarget src h =
     (case map_of (rd_symlinks h) src of
        None \<Rightarrow> (False, h)
      | Some _ \<Rightarrow> (True, h\<lparr>rd_symlinks := AList.delete src (rd_symlinks h)\<rparr>))"

text \<open>The links given to the constructor are pairs of a target and a path.\<close>

definition RedirectHandler :: "(string \<times> string) list \<Rightarrow> redirect_handler" where
  "RedirectHandler symlinks =
     fold (\<lambda>(dest, src). AddSymlink dest src) symlinks
       \<lparr>rd_is_initialized = False, rd_symlinks = [], rd_dir_to_symlinks = [], rd_mount_point = []\<rparr>"

definition RedirectHandler_IsInitialized :: "('w \<Rightarrow> bool) \<Rightarrow> redirect_handler \<Rightarrow> 'w \<Rightarrow> bool" where
  "RedirectHandler_IsInitialized u_IsInitialized h w \<longleftrightarrow> u_IsInitialized w \<and> rd_is_initialized h"

definition RedirectHandler_Initialize ::
  "('w \<Rightarrow> bool) \<Rightarrow> ('w \<Rightarrow> 'w) \<Rightarrow> redirect_handler \<Rightarrow> 'w \<Rightarrow> redirect_handler \<times> 'w" where
  "RedirectHandler_Initialize u_IsInitialized u_Initialize h w =
     (h\<lparr>rd_is_initialized := True\<rparr>, if u_IsInitialized w then w else u_Initialize w)"

definition RedirectHandler_OnMounted :: "(string \<Rightarrow> 'w \<Rightarrow> 'w) \<Rightarrow> string \<Rightarrow> redirect_handler \<Rightarrow> 'w \<Rightarrow> redirect_handler \<times> 'w" where
  "RedirectHandler_OnMounted u_OnMounted path h w = (h\<lparr>rd_mount_point := RemoveTrailingSlash path\<rparr>, u_OnMounted path w)"

text \<open>
  The underlying \<^verbatim>\<open>open\<close> gives a stream with its flags and path; a directory is replaced by a stream whose
  contents come from this handler.
\<close>

datatype 'st redirected = Redirect_Directory dir_stream | Underlying 'st

definition RedirectHandler_open ::
  "(string \<Rightarrow> 'w \<Rightarrow> 'st option \<times> 'w) \<Rightarrow> ('st \<Rightarrow> bool) \<Rightarrow> ('st \<Rightarrow> string) \<Rightarrow> string \<Rightarrow> 'w \<Rightarrow> 'st redirected option \<times> 'w" where
  "RedirectHandler_open u_open is_directory stream_pathname pathname w =
     (case u_open pathname w of
        (None, w') \<Rightarrow> (None, w')
      | (Some stream, w') \<Rightarrow>
          (Some (if is_directory stream then Redirect_Directory (DirectoryFileStream (stream_pathname stream) 0)
                 else Underlying stream), w'))"

definition RedirectHandler_OnDirectoryContentsNeeded ::
  "(string \<Rightarrow> 'w \<Rightarrow> dir_impl option \<times> 'w) \<Rightarrow> string \<Rightarrow> redirect_handler \<Rightarrow> 'w \<Rightarrow> dir_impl option \<times> 'w" where
  "RedirectHandler_OnDirectoryContentsNeeded u_contents name h w =
     (case u_contents name w of
        (None, w') \<Rightarrow> (None, w')
      | (Some dir, w') \<Rightarrow>
          (Some (case map_of (rd_dir_to_symlinks h) name of
                   None \<Rightarrow> dir | Some names \<Rightarrow> fold (\<lambda>n. DirImpl_Add n SYMLINK) names dir), w'))"

definition RedirectHandler_readlink :: "string \<Rightarrow> redirect_handler \<Rightarrow> string outcome" where
  "RedirectHandler_readlink pathname h =
     (let rewritten = GetSymlinkTarget pathname h in if rewritten = [] then Err EINVAL else Ret rewritten)"

definition RedirectHandler_remove ::
  "(string \<Rightarrow> 'w \<Rightarrow> int outcome \<times> 'w) \<Rightarrow> string \<Rightarrow> redirect_handler \<Rightarrow> 'w \<Rightarrow> int outcome \<times> redirect_handler \<times> 'w" where
  "RedirectHandler_remove u_remove pathname h w =
     (case RemoveSymlinkTarget pathname h of
        (True, h') \<Rightarrow> (Ret 0, h', w)
      | (False, h') \<Rightarrow> (case u_remove pathname w of (r, w') \<Rightarrow> (r, h', w')))"

definition RedirectHandler_unlink ::
  "(string \<Rightarrow> 'w \<Rightarrow> int outcome \<times> 'w) \<Rightarrow> string \<Rightarrow> redirect_handler \<Rightarrow> 'w \<Rightarrow> int outcome \<times> redirect_handler \<times> 'w" where
  "RedirectHandler_unlink u_unlink pathname h w =
     (case RemoveSymlinkTarget pathname h of
        (True, h') \<Rightarrow> (Ret 0, h', w)
      | (False, h') \<Rightarrow> (case u_unlink pathname w of (r, w') \<Rightarrow> (r, h', w')))"

text \<open>\<open>u_stat\<close> says whether the underlying \<^verbatim>\<open>stat\<close> succeeds.\<close>

definition RedirectHandler_symlink ::
  "(string \<Rightarrow> 'w \<Rightarrow> bool \<times> 'w) \<Rightarrow> string \<Rightarrow> string \<Rightarrow> redirect_handler \<Rightarrow> 'w \<Rightarrow> int outcome \<times> redirect_handler \<times> 'w" where
  "RedirectHandler_symlink u_stat oldpath newpath h w =
     (if GetSymlinkTarget newpath h \<noteq> [] then (Err EEXIST, h, w)
      else if newpath \<noteq> rd_mount_point h then
        (case u_stat newpath w of
           (True, w') \<Rightarrow> (Err EEXIST, h, w')
         | (False, w') \<Rightarrow> (Ret 0, AddSymlink oldpath newpath h, w'))
      else (Ret 0, AddSymlink oldpath newpath h, w))"

section \<open>Properties\<close>

lemma DirImpl_Add_member: "(name, type) \<in> set (di_files (DirImpl_Add name type d))"
  by (auto simp: DirImpl_Add_def Let_def intro: set_update_memI)

lemma DirImpl_Add_keeps: "(n, t) \<in> set (di_files d) \<Longrightarrow> n \<noteq> name \<Longrightarrow> (n, t) \<in> set (di_files (DirImpl_Add name type d))"
proof (cases "lower_bound (di_files d) name 0 (length (di_files d)) < length (di_files d) \<and>
    fst (di_files d ! lower_bound (di_files d) name 0 (length (di_files d))) = name")
  case True
  define i where "i = lower_bound (di_files d) name 0 (length (di_files d))"
  assume m: "(n, t) \<in> set (di_files d)" "n \<noteq> name"
  then obtain j where j: "j < length (di_files d)" "di_files d ! j = (n, t)" by (auto simp: in_set_conv_nth)
  then have "j \<noteq> i" using True m(2) by (auto simp: i_def)
  then have "(di_files d)[i := (name, type)] ! j = (n, t)" using j by simp
  then show ?thesis using True j(1) by (auto simp: DirImpl_Add_def Let_def i_def in_set_conv_nth intro!: exI [of _ j])
next
  case False
  assume "(n, t) \<in> set (di_files d)"
  then have "(n, t) \<in> set (take (lower_bound (di_files d) name 0 (length (di_files d))) (di_files d)) \<union>
    set (drop (lower_bound (di_files d) name 0 (length (di_files d))) (di_files d))"
    by (metis append_take_drop_id set_append)
  then show ?thesis using False by (auto simp: DirImpl_Add_def Let_def)
qed

lemma fold_Add_member:
  "n \<in> set names \<or> (n, SYMLINK) \<in> set (di_files d) \<Longrightarrow> (n, SYMLINK) \<in> set (di_files (fold (\<lambda>n. DirImpl_Add n SYMLINK) names d))"
proof (induction names arbitrary: d)
  case (Cons m names)
  then show ?case using DirImpl_Add_member [of m SYMLINK d] DirImpl_Add_keeps [of n SYMLINK d m SYMLINK] by (cases "n = m") auto
qed simp

lemma AddSymlink_effect:
  "GetSymlinkTarget p (AddSymlink dest src h) = (if p = src \<and> map_of (rd_symlinks h) src = None then dest else GetSymlinkTarget p h)"
  "\<exists>names. map_of (rd_dir_to_symlinks (AddSymlink dest src h)) (GetDirName src) = Some names \<and> GetBaseName src \<in> set names"
  by (auto simp: AddSymlink_def GetSymlinkTarget_def Let_def update_conv')

text \<open>
  C35. The life of a symbolic link: a link created at a path that is neither a link nor, unless it is the mount
  point, an existing file is read back with its target, and no other link changes; removing it succeeds without
  touching the underlying handler and makes the path no link again, but the directory still lists it.
\<close>

theorem symlink_life:
  assumes "map_of (rd_symlinks h) newpath = None" "oldpath \<noteq> []"
    and "newpath = rd_mount_point h \<or> \<not> fst (u_stat newpath w)"
    and "RedirectHandler_symlink u_stat oldpath newpath h w = (r, h1, w1)"
    and "RedirectHandler_unlink u_unlink newpath h1 w2 = (r', h2, w3)"
    and "u_contents (GetDirName newpath) w3 = (Some dir, w4)"
  shows "r = Ret 0 \<and> RedirectHandler_readlink newpath h1 = Ret oldpath \<and>
    (\<forall>p. p \<noteq> newpath \<longrightarrow> RedirectHandler_readlink p h1 = RedirectHandler_readlink p h) \<and>
    r' = Ret 0 \<and> w3 = w2 \<and> RedirectHandler_readlink newpath h2 = Err EINVAL \<and>
    (\<exists>dir'. fst (RedirectHandler_OnDirectoryContentsNeeded u_contents (GetDirName newpath) h2 w3) = Some dir' \<and>
       (GetBaseName newpath, SYMLINK) \<in> set (di_files dir'))"
proof -
  have h1: "r = Ret 0" "h1 = AddSymlink oldpath newpath h"
    using assms(1,3,4) by (auto simp: RedirectHandler_symlink_def GetSymlinkTarget_def split: if_splits prod.splits bool.splits)
  have t: "GetSymlinkTarget p h1 = (if p = newpath then oldpath else GetSymlinkTarget p h)" for p
    using assms(1) by (auto simp: h1(2) AddSymlink_effect(1))
  then have "map_of (rd_symlinks h1) newpath \<noteq> None"
    using assms(2) by (metis GetSymlinkTarget_def option.simps(4))
  then have h2: "r' = Ret 0" "w3 = w2" "h2 = h1\<lparr>rd_symlinks := AList.delete newpath (rd_symlinks h1)\<rparr>"
    using assms(5) by (auto simp: RedirectHandler_unlink_def RemoveSymlinkTarget_def)
  have e: "GetSymlinkTarget newpath h2 = []" by (simp add: h2(3) GetSymlinkTarget_def delete_conv')
  obtain names where n: "map_of (rd_dir_to_symlinks h2) (GetDirName newpath) = Some names" "GetBaseName newpath \<in> set names"
    using AddSymlink_effect(2) [of oldpath newpath h] by (auto simp: h2(3) h1(2))
  have "(GetBaseName newpath, SYMLINK) \<in> set (di_files (fold (\<lambda>n. DirImpl_Add n SYMLINK) names dir))"
    using fold_Add_member n(2) by blast
  then show ?thesis
    using h1(1) h2(1,2) t e assms(2,6) n(1)
    by (auto simp: RedirectHandler_readlink_def Let_def RedirectHandler_OnDirectoryContentsNeeded_def)
qed

theorem symlink_life_witness:
  "let (r, h1, w1) = RedirectHandler_symlink (\<lambda>p w. (False, w)) ''/data/x'' ''/tmp/l'' (RedirectHandler [(''/a'', ''/b'')]) ();
       (r', h2, w3) = RedirectHandler_unlink (\<lambda>p w. (Err ENOENT, w)) ''/tmp/l'' h1 ()
   in r = Ret 0 \<and> RedirectHandler_readlink ''/tmp/l'' h1 = Ret ''/data/x'' \<and> r' = Ret 0 \<and>
      RedirectHandler_readlink ''/tmp/l'' h2 = Err EINVAL \<and>
      (\<exists>dir'. fst (RedirectHandler_OnDirectoryContentsNeeded (\<lambda>d w. (Some (DirImpl d []), w)) ''/tmp'' h2 w3) = Some dir' \<and>
         (''l'', SYMLINK) \<in> set (di_files dir'))"
proof -
  obtain r h1 w1 where a: "RedirectHandler_symlink (\<lambda>p w. (False, w)) ''/data/x'' ''/tmp/l'' (RedirectHandler [(''/a'', ''/b'')]) () = (r, h1, w1)"
    by (metis prod_cases3)
  obtain r' h2 w3 where b: "RedirectHandler_unlink (\<lambda>p w. (Err ENOENT, w)) ''/tmp/l'' h1 () = (r', h2, w3)" by (metis prod_cases3)
  have n: "map_of (rd_symlinks (RedirectHandler [(''/a'', ''/b'')])) ''/tmp/l'' = None" by code_simp
  have d: "GetDirName ''/tmp/l'' = ''/tmp''" "GetBaseName ''/tmp/l'' = ''l''" by code_simp+
  show ?thesis
    using symlink_life [OF n _ _ a b, of "\<lambda>d w. (Some (DirImpl d []), w)" "DirImpl ''/tmp'' []" w3] a b by (auto simp: d)
qed

end
