(* ===== verification/Net_Address.thy ===== *)
theory Net_Address
  imports Arc_Prelude
begin

unbundle bit_operations_syntax

text \<open>
  Internet addresses: the rest of \<^verbatim>\<open>src/src/posix_translation/socket_util.cc\<close>. A \<^verbatim>\<open>sockaddr_storage\<close> is its 128 bytes:
  family and port (two bytes each, the family little endian), then four bytes of address for IPv4, or the flow number and 16
  bytes of address for IPv6. Pepper's address objects are an interface, as is the \<^verbatim>\<open>inet_pton\<close> of the C library.
\<close>

section \<open>Memory layout\<close>

type_synonym sockaddr_storage = "byte list"
type_synonym u16 = "16 word"

definition sizeof_storage :: nat where "sizeof_storage = 128"
definition kAF_UNSPEC :: u16 where "kAF_UNSPEC = 0"
definition kAF_INET :: u16 where "kAF_INET = 2"
definition kAF_INET6 :: u16 where "kAF_INET6 = 10"
definition sizeof_sockaddr_in :: nat where "sizeof_sockaddr_in = 16"
definition sizeof_sockaddr_in6 :: nat where "sizeof_sockaddr_in6 = 28"

definition put_bytes :: "nat \<Rightarrow> byte list \<Rightarrow> byte list \<Rightarrow> byte list" where
  "put_bytes k bs st = take k st @ bs @ drop (k + length bs) st"

definition get_bytes :: "nat \<Rightarrow> nat \<Rightarrow> byte list \<Rightarrow> byte list" where
  "get_bytes k n st = take n (drop k st)"

definition le16 :: "u16 \<Rightarrow> byte list" where
  "le16 w = [ucast w, ucast (drop_bit 8 w)]"

definition of_le16 :: "byte list \<Rightarrow> u16" where
  "of_le16 bs = ucast (bs ! 0) OR push_bit 8 (ucast (bs ! 1))"

definition ss_family :: "sockaddr_storage \<Rightarrow> u16" where "ss_family st = of_le16 (get_bytes 0 2 st)"
definition sin_port :: "sockaddr_storage \<Rightarrow> u16" where "sin_port st = of_le16 (get_bytes 2 2 st)"
definition sin_addr :: "sockaddr_storage \<Rightarrow> byte list" where "sin_addr st = get_bytes 4 4 st"
definition sin6_addr :: "sockaddr_storage \<Rightarrow> byte list" where "sin6_addr st = get_bytes 8 16 st"

section \<open>Conversions\<close>

text \<open>\<^verbatim>\<open>PP_NetAddress_IPv4\<close> and \<^verbatim>\<open>PP_NetAddress_IPv6\<close>; the port is in network byte order.\<close>

record net_ip =
  ip_port :: u16
  ip_addr :: "byte list"

definition kIPv4MinAddrLen :: int where "kIPv4MinAddrLen = 8"
definition kIPv6MinAddrLen :: int where "kIPv6MinAddrLen = 24"

definition NetAddressIPv4ToSockAddrIn :: "net_ip \<Rightarrow> sockaddr_storage \<Rightarrow> sockaddr_storage" where
  "NetAddressIPv4ToSockAddrIn net_address saddr =
     put_bytes 4 (ip_addr net_address) (put_bytes 2 (le16 (ip_port net_address)) (put_bytes 0 (le16 kAF_INET) saddr))"

definition NetAddressIPv4ToSockAddrIn6V4Mapped :: "net_ip \<Rightarrow> sockaddr_storage \<Rightarrow> sockaddr_storage" where
  "NetAddressIPv4ToSockAddrIn6V4Mapped net_address saddr6 =
     put_bytes 20 (ip_addr net_address) (put_bytes 19 [0xFF] (put_bytes 18 [0xFF] (put_bytes 8 (replicate 10 0)
       (put_bytes 2 (le16 (ip_port net_address)) (put_bytes 0 (le16 kAF_INET6) saddr6)))))"

definition NetAddressIPv6ToSockAddrIn6 :: "net_ip \<Rightarrow> sockaddr_storage \<Rightarrow> sockaddr_storage" where
  "NetAddressIPv6ToSockAddrIn6 net_address saddr6 =
     put_bytes 8 (ip_addr net_address) (put_bytes 2 (le16 (ip_port net_address)) (put_bytes 0 (le16 kAF_INET6) saddr6))"

definition SockAddrInToNetAddressIPv4 :: "sockaddr_storage \<Rightarrow> net_ip" where
  "SockAddrInToNetAddressIPv4 saddr = \<lparr>ip_port = sin_port saddr, ip_addr = sin_addr saddr\<rparr>"

definition SockAddrIn6ToNetAddressIPv6 :: "sockaddr_storage \<Rightarrow> net_ip" where
  "SockAddrIn6ToNetAddressIPv6 saddr6 = \<lparr>ip_port = sin_port saddr6, ip_addr = sin6_addr saddr6\<rparr>"

text \<open>An error number, or \<open>None\<close> for zero.\<close>

definition VerifyInputSocketAddress :: "sockaddr_storage option \<Rightarrow> int \<Rightarrow> u16 \<Rightarrow> errno option" where
  "VerifyInputSocketAddress addr addrlen address_family =
     (if addrlen \<le> 0 then Some EINVAL
      else case addr of
        None \<Rightarrow> Some EFAULT
      | Some a \<Rightarrow>
          if addrlen < (if address_family = kAF_INET then kIPv4MinAddrLen else kIPv6MinAddrLen) \<or> int sizeof_storage < addrlen
          then Some EINVAL
          else if ss_family a \<noteq> address_family then Some EAFNOSUPPORT
          else None)"

text \<open>The bytes copied to the caller (none for a null pointer) and the length reported.\<close>

definition CopySocketAddress :: "sockaddr_storage \<Rightarrow> bool \<Rightarrow> nat \<Rightarrow> byte list \<times> nat" where
  "CopySocketAddress address name_given namelen =
     (let address_length = (if ss_family address = kAF_INET then sizeof_sockaddr_in else sizeof_sockaddr_in6)
      in (if name_given then take (min namelen address_length) address else [], address_length))"

definition SocketAddressEqual :: "sockaddr_storage \<Rightarrow> sockaddr_storage \<Rightarrow> bool" where
  "SocketAddressEqual addr1 addr2 \<longleftrightarrow>
     ss_family addr1 = ss_family addr2 \<and>
     (if ss_family addr1 = kAF_INET then sin_port addr1 = sin_port addr2 \<and> sin_addr addr1 = sin_addr addr2
      else if ss_family addr1 = kAF_INET6 then sin_port addr1 = sin_port addr2 \<and> sin6_addr addr1 = sin6_addr addr2
      else False)"

text \<open>The address objects of Pepper.\<close>

datatype pp_family = PP_NETADDRESS_FAMILY_UNSPECIFIED | PP_NETADDRESS_FAMILY_IPV4 | PP_NETADDRESS_FAMILY_IPV6

record 'n net_api =
  GetFamily :: "'n \<Rightarrow> pp_family"
  DescribeAsIPv4Address :: "'n \<Rightarrow> net_ip option"
  DescribeAsIPv6Address :: "'n \<Rightarrow> net_ip option"
  NetAddress_IPv4 :: "net_ip \<Rightarrow> 'n"
  NetAddress_IPv6 :: "net_ip \<Rightarrow> 'n"
  NetAddress_none :: 'n

definition NetAddressToSockAddrStorage :: "'n net_api \<Rightarrow> 'n \<Rightarrow> u16 \<Rightarrow> bool \<Rightarrow> sockaddr_storage option" where
  "NetAddressToSockAddrStorage N net_address dest_family allow_v4mapped =
     (let storage = replicate sizeof_storage 0 in
      case GetFamily N net_address of
        PP_NETADDRESS_FAMILY_IPV4 \<Rightarrow>
          if dest_family = kAF_INET6 \<and> \<not> allow_v4mapped then None
          else (case DescribeAsIPv4Address N net_address of
                  None \<Rightarrow> None
                | Some ipv4 \<Rightarrow>
                    Some (if dest_family = kAF_INET6 then NetAddressIPv4ToSockAddrIn6V4Mapped ipv4 storage
                          else NetAddressIPv4ToSockAddrIn ipv4 storage))
      | PP_NETADDRESS_FAMILY_IPV6 \<Rightarrow>
          if dest_family = kAF_INET then None
          else map_option (\<lambda>ipv6. NetAddressIPv6ToSockAddrIn6 ipv6 storage) (DescribeAsIPv6Address N net_address)
      | PP_NETADDRESS_FAMILY_UNSPECIFIED \<Rightarrow> None)"

definition SockAddrToNetAddress :: "'n net_api \<Rightarrow> sockaddr_storage \<Rightarrow> 'n" where
  "SockAddrToNetAddress N saddr =
     (if ss_family saddr = kAF_INET then NetAddress_IPv4 N (SockAddrInToNetAddressIPv4 saddr)
      else if ss_family saddr = kAF_INET6 then NetAddress_IPv6 N (SockAddrIn6ToNetAddressIPv6 saddr)
      else NetAddress_none N)"

text \<open>\<open>pton6\<close> and \<open>pton4\<close> are \<^verbatim>\<open>inet_pton\<close> for the two families.\<close>

definition StringToSockAddrStorage ::
  "(string \<Rightarrow> byte list option) \<Rightarrow> (string \<Rightarrow> byte list option) \<Rightarrow> string \<Rightarrow> u16 \<Rightarrow> u16 \<Rightarrow> bool \<Rightarrow> sockaddr_storage option" where
  "StringToSockAddrStorage pton6 pton4 hostname port dest_family allow_v4mapped =
     (let storage = replicate sizeof_storage 0 in
      case pton6 hostname of
        Some addr6 \<Rightarrow>
          if dest_family = kAF_INET then None
          else Some (put_bytes 8 addr6 (put_bytes 2 (le16 port) (put_bytes 0 (le16 kAF_INET6) storage)))
      | None \<Rightarrow>
          (case pton4 hostname of
             Some addr4 \<Rightarrow>
               if dest_family = kAF_INET6 then
                 if \<not> allow_v4mapped then None
                 else Some (put_bytes 20 addr4 (put_bytes 19 [0xFF] (put_bytes 18 [0xFF] (put_bytes 8 (replicate 10 0)
                        (put_bytes 2 (le16 port) (put_bytes 0 (le16 kAF_INET6) storage))))))
               else Some (put_bytes 4 addr4 (put_bytes 2 (le16 port) (put_bytes 0 (le16 kAF_INET) storage)))
           | None \<Rightarrow> None))"

text \<open>
  \<^verbatim>\<open>strtol\<close> in base 10 on a C string: white space, a sign and digits; the value is clipped to 32 bits, and the rest of the
  string is all of it when there are no digits.
\<close>

definition is_space :: "char \<Rightarrow> bool" where
  "is_space c \<longleftrightarrow> c = CHR '' '' \<or> (9 \<le> (of_char c :: nat) \<and> of_char c \<le> (13 :: nat))"

definition is_digit :: "char \<Rightarrow> bool" where
  "is_digit c \<longleftrightarrow> 48 \<le> (of_char c :: nat) \<and> of_char c \<le> (57 :: nat)"

definition digits_value :: "string \<Rightarrow> int" where
  "digits_value ds = fold (\<lambda>c v. 10 * v + (of_char c - 48)) ds 0"

definition strtol10 :: "string \<Rightarrow> int \<times> string" where
  "strtol10 s =
     (let s1 = dropWhile is_space s;
          neg = (s1 \<noteq> [] \<and> hd s1 = CHR ''-'');
          s2 = (if s1 \<noteq> [] \<and> (hd s1 = CHR ''-'' \<or> hd s1 = CHR ''+'') then tl s1 else s1);
          ds = takeWhile is_digit s2;
          v = (if neg then - digits_value ds else digits_value ds)
      in if ds = [] then (0, s) else (max (- (2 ^ 31)) (min (2 ^ 31 - 1) v), drop (length ds) s2))"

definition htons :: "u16 \<Rightarrow> u16" where
  "htons p = push_bit 8 p OR drop_bit 8 p"

definition ServiceNameToPort :: "string option \<Rightarrow> u16" where
  "ServiceNameToPort service_name =
     (case service_name of
        None \<Rightarrow> 0
      | Some s \<Rightarrow>
          let (port, end) = strtol10 s
          in if port < 0 \<or> 65536 \<le> port \<or> end \<noteq> [] then 0 else htons (word_of_int port))"

record addrinfo =
  ai_flags :: int
  ai_family :: u16
  ai_socktype :: int
  ai_protocol :: int
  ai_addrlen :: nat
  ai_addr :: "byte list"
  ai_canonname :: string

definition SockAddrStorageToAddrInfo :: "sockaddr_storage \<Rightarrow> int \<Rightarrow> int \<Rightarrow> string \<Rightarrow> addrinfo" where
  "SockAddrStorageToAddrInfo storage socktype protocol name =
     (let addrlen = (if ss_family storage = kAF_INET then sizeof_sockaddr_in else sizeof_sockaddr_in6)
      in \<lparr>ai_flags = 0, ai_family = ss_family storage, ai_socktype = (if socktype \<noteq> 0 then socktype else 1),
          ai_protocol = protocol, ai_addrlen = addrlen, ai_addr = take addrlen storage, ai_canonname = name\<rparr>)"

section \<open>Properties\<close>

text \<open>What the code relies on of Pepper's address objects: an object describes the address it was made from.\<close>

locale net_addresses =
  fixes N :: "'n net_api"
  assumes ipv4_doc: "GetFamily N (NetAddress_IPv4 N a) = PP_NETADDRESS_FAMILY_IPV4" "DescribeAsIPv4Address N (NetAddress_IPv4 N a) = Some a"
    and ipv6_doc: "GetFamily N (NetAddress_IPv6 N a) = PP_NETADDRESS_FAMILY_IPV6" "DescribeAsIPv6Address N (NetAddress_IPv6 N a) = Some a"

datatype pepper_address = Pepper_IPv4 net_ip | Pepper_IPv6 net_ip | Pepper_none

definition pepper_api :: "pepper_address net_api" where
  "pepper_api = \<lparr>GetFamily = (\<lambda>n. case n of Pepper_IPv4 _ \<Rightarrow> PP_NETADDRESS_FAMILY_IPV4 | Pepper_IPv6 _ \<Rightarrow> PP_NETADDRESS_FAMILY_IPV6
       | Pepper_none \<Rightarrow> PP_NETADDRESS_FAMILY_UNSPECIFIED),
     DescribeAsIPv4Address = (\<lambda>n. case n of Pepper_IPv4 a \<Rightarrow> Some a | _ \<Rightarrow> None),
     DescribeAsIPv6Address = (\<lambda>n. case n of Pepper_IPv6 a \<Rightarrow> Some a | _ \<Rightarrow> None),
     NetAddress_IPv4 = Pepper_IPv4, NetAddress_IPv6 = Pepper_IPv6, NetAddress_none = Pepper_none\<rparr>"

interpretation pepper: net_addresses pepper_api
  by unfold_locales (simp_all add: pepper_api_def)

lemma of_le16_le16 [simp]: "of_le16 (le16 w) = w"
  unfolding of_le16_def le16_def by (rule bit_eqI) (auto simp: bit_simps dest: bit_imp_le_length)

lemma length_le16 [simp]: "length (le16 w) = 2"
  by (simp add: le16_def)

lemma length_put_bytes [simp]: "k + length bs \<le> length st \<Longrightarrow> length (put_bytes k bs st) = length st"
  by (simp add: put_bytes_def)

lemma get_put_same: "k + n \<le> length st \<Longrightarrow> length bs = n \<Longrightarrow> get_bytes k n (put_bytes k bs st) = bs"
  by (simp add: get_bytes_def put_bytes_def)

lemma get_put_other:
  assumes "k + length bs \<le> length st" "j + n \<le> k \<or> k + length bs \<le> j"
  shows "get_bytes j n (put_bytes k bs st) = get_bytes j n st"
proof (rule nth_equalityI)
  show "length (get_bytes j n (put_bytes k bs st)) = length (get_bytes j n st)" using assms(1) by (simp add: get_bytes_def)
  fix i assume "i < length (get_bytes j n (put_bytes k bs st))"
  then have i: "i < n" "j + i < length st" using assms(1) by (auto simp: get_bytes_def)
  have "put_bytes k bs st ! (j + i) = st ! (j + i)" using assms i by (auto simp: put_bytes_def nth_append)
  then show "get_bytes j n (put_bytes k bs st) ! i = get_bytes j n st ! i" using i assms(1) by (simp add: get_bytes_def)
qed

lemmas storage_simps = ss_family_def sin_port_def sin_addr_def sin6_addr_def get_put_same get_put_other sizeof_storage_def

lemma IPv4_storage:
  assumes "length (ip_addr a) = 4"
  defines "st \<equiv> NetAddressIPv4ToSockAddrIn a (replicate sizeof_storage 0)"
  shows "ss_family st = kAF_INET" "sin_port st = ip_port a" "sin_addr st = ip_addr a"
  using assms(1) by (simp_all add: st_def NetAddressIPv4ToSockAddrIn_def storage_simps)

lemma IPv6_storage:
  assumes "length (ip_addr a) = 16"
  defines "st \<equiv> NetAddressIPv6ToSockAddrIn6 a (replicate sizeof_storage 0)"
  shows "ss_family st = kAF_INET6" "sin_port st = ip_port a" "sin6_addr st = ip_addr a"
  using assms(1) by (simp_all add: st_def NetAddressIPv6ToSockAddrIn6_def storage_simps)

lemma AF_distinct [simp]: "kAF_INET \<noteq> kAF_INET6" "kAF_INET6 \<noteq> kAF_INET" "kAF_UNSPEC \<noteq> kAF_INET" "kAF_UNSPEC \<noteq> kAF_INET6"
  by (simp_all add: kAF_INET_def kAF_INET6_def kAF_UNSPEC_def)

text \<open>A socket address survives the conversion to a Pepper address and back.\<close>

theorem address_round_trip:
  assumes "net_addresses N" "length st = sizeof_storage" "ss_family st = kAF_INET \<or> ss_family st = kAF_INET6"
  shows "\<exists>st'. NetAddressToSockAddrStorage N (SockAddrToNetAddress N st) kAF_UNSPEC allow_v4mapped = Some st' \<and> SocketAddressEqual st st'"
proof (cases "ss_family st = kAF_INET")
  case True
  have "length (sin_addr st) = 4" using assms(2) by (simp add: sin_addr_def get_bytes_def sizeof_storage_def)
  then show ?thesis
    using True IPv4_storage [of "SockAddrInToNetAddressIPv4 st"] net_addresses.ipv4_doc [OF assms(1)]
    by (simp add: NetAddressToSockAddrStorage_def SockAddrToNetAddress_def SocketAddressEqual_def SockAddrInToNetAddressIPv4_def Let_def)
next
  case False
  then have six: "ss_family st = kAF_INET6" using assms(3) by simp
  have "length (sin6_addr st) = 16" using assms(2) by (simp add: sin6_addr_def get_bytes_def sizeof_storage_def)
  then show ?thesis
    using six IPv6_storage [of "SockAddrIn6ToNetAddressIPv6 st"] net_addresses.ipv6_doc [OF assms(1)]
    by (simp add: NetAddressToSockAddrStorage_def SockAddrToNetAddress_def SocketAddressEqual_def SockAddrIn6ToNetAddressIPv6_def Let_def)
qed

text \<open>
  C32. The two ways to a socket address agree: converting the text of an address directly gives exactly the bytes, or the failure,
  that converting the Pepper address of the parsed text gives, for every required family and with and without mapping IPv4
  into IPv6; a mapped address carries the IPv4 bytes behind ten zero and two 255 bytes, and the port and family are as asked.
\<close>

theorem string_address_equiv:
  assumes "net_addresses N" "\<And>a. pton4 hostname = Some a \<Longrightarrow> length a = 4"
  shows "StringToSockAddrStorage pton6 pton4 hostname port dest_family allow_v4mapped =
    (case pton6 hostname of
       Some a \<Rightarrow> NetAddressToSockAddrStorage N (NetAddress_IPv6 N \<lparr>ip_port = port, ip_addr = a\<rparr>) dest_family allow_v4mapped
     | None \<Rightarrow> (case pton4 hostname of
         Some a \<Rightarrow> NetAddressToSockAddrStorage N (NetAddress_IPv4 N \<lparr>ip_port = port, ip_addr = a\<rparr>) dest_family allow_v4mapped
       | None \<Rightarrow> None)) \<and>
    (\<forall>a st. pton6 hostname = None \<longrightarrow> pton4 hostname = Some a \<longrightarrow> dest_family = kAF_INET6 \<longrightarrow>
       StringToSockAddrStorage pton6 pton4 hostname port dest_family allow_v4mapped = Some st \<longrightarrow>
       ss_family st = kAF_INET6 \<and> sin_port st = port \<and> sin6_addr st = replicate 10 0 @ [0xFF, 0xFF] @ a)"
proof -
  have "ss_family st = kAF_INET6 \<and> sin_port st = port \<and> sin6_addr st = replicate 10 0 @ [0xFF, 0xFF] @ a"
    if p: "pton6 hostname = None" "pton4 hostname = Some a" "dest_family = kAF_INET6"
      and s: "StringToSockAddrStorage pton6 pton4 hostname port dest_family allow_v4mapped = Some st" for a st
  proof -
    have a: "length a = 4" using assms(2) p(2) by blast
    define b where "b = put_bytes 2 (le16 port) (put_bytes 0 (le16 kAF_INET6) (replicate sizeof_storage 0))"
    have b: "length b = 128" by (simp add: b_def sizeof_storage_def)
    have st: "st = put_bytes 20 a (put_bytes 19 [0xFF] (put_bytes 18 [0xFF] (put_bytes 8 (replicate 10 0) b)))"
      using p s by (simp add: StringToSockAddrStorage_def b_def Let_def split: if_splits)
    have "ss_family st = kAF_INET6" "sin_port st = port"
      using a by (simp_all add: st b storage_simps) (simp_all add: b_def storage_simps)
    moreover have "sin6_addr st = replicate 10 0 @ [0xFF, 0xFF] @ a"
      using a b by (simp add: st sin6_addr_def get_bytes_def put_bytes_def)
    ultimately show ?thesis by blast
  qed
  moreover have "StringToSockAddrStorage pton6 pton4 hostname port dest_family allow_v4mapped =
    (case pton6 hostname of
       Some a \<Rightarrow> NetAddressToSockAddrStorage N (NetAddress_IPv6 N \<lparr>ip_port = port, ip_addr = a\<rparr>) dest_family allow_v4mapped
     | None \<Rightarrow> (case pton4 hostname of
         Some a \<Rightarrow> NetAddressToSockAddrStorage N (NetAddress_IPv4 N \<lparr>ip_port = port, ip_addr = a\<rparr>) dest_family allow_v4mapped
       | None \<Rightarrow> None))"
    using net_addresses.ipv4_doc [OF assms(1)] net_addresses.ipv6_doc [OF assms(1)]
    by (simp add: StringToSockAddrStorage_def NetAddressToSockAddrStorage_def NetAddressIPv4ToSockAddrIn_def
        NetAddressIPv4ToSockAddrIn6V4Mapped_def NetAddressIPv6ToSockAddrIn6_def Let_def split: option.splits)
  ultimately show ?thesis by blast
qed

theorem string_address_equiv_witness:
  "\<exists>st. StringToSockAddrStorage (\<lambda>h. None) (\<lambda>h. Some [127, 0, 0, 1]) ''127.0.0.1'' 80 kAF_INET6 True = Some st \<and>
     NetAddressToSockAddrStorage pepper_api (NetAddress_IPv4 pepper_api \<lparr>ip_port = 80, ip_addr = [127, 0, 0, 1]\<rparr>) kAF_INET6 True = Some st \<and>
     sin6_addr st = replicate 10 0 @ [0xFF, 0xFF, 127, 0, 0, 1]"
proof -
  have "StringToSockAddrStorage (\<lambda>h. None) (\<lambda>h. Some [127, 0, 0, 1]) ''127.0.0.1'' 80 kAF_INET6 True \<noteq> None"
    by (simp add: StringToSockAddrStorage_def Let_def)
  then show ?thesis
    using string_address_equiv [OF pepper.net_addresses_axioms, of "\<lambda>h. Some [127, 0, 0, 1]" "''127.0.0.1''" "\<lambda>h. None" 80 kAF_INET6 True]
    by auto
qed


end
