(* ===== verification/Spec2Isabelle.thy ===== *)
theory Spec2Isabelle
  imports Path_Util Circular_Buffer File_Stream Fd_Map Mount_Points Dir_Manager Epoll_Stream Mem_Region Time_Util
    Vfs_State Vfs_Fds Vfs_Files Socket_Stream Local_Sockets Local_Socket_Laws Local_Peers Memory_Files Dev_Files
    Readonly_Image Readonly_Files Redirect_Handler Net_Address
begin

text \<open>
  \<^bold>\<open>ARC (App Runtime for Chrome): a verification library for its POSIX translation layer.\<close>

  ARC runs Android apps in a browser sandbox that has no file system, no descriptors and no sockets. Its
  own core is \<^verbatim>\<open>src/src/posix_translation/\<close>, which implements the POSIX calls of the app
  inside the process, on top of handlers for the browser's storage. This library models that layer and
  the parts of \<^verbatim>\<open>src/src/common/\<close> it is built from.

  \<^bold>\<open>How the program is put together.\<close> A call of the app enters \<^verbatim>\<open>VirtualFileSystem\<close>
  (\<^verbatim>\<open>virtual_file_system.cc\<close>) under one lock. A path is normalised (\<^verbatim>\<open>path_util.cc\<close>) and its symbolic links
  are followed by asking the handler that serves it, which the mount point table finds
  (\<^verbatim>\<open>mount_point_manager.cc\<close>). Opening gives a reference counted stream (\<^verbatim>\<open>file_stream.cc\<close>), which the
  descriptor table (\<^verbatim>\<open>fd_to_file_stream_map.cc\<close>) binds to the lowest free descriptor; calls on descriptors
  reach the stream through it. Mapped files are also kept by address (\<^verbatim>\<open>memory_region.cc\<close>). Streams
  are directories (\<^verbatim>\<open>directory_manager.cc\<close>, \<^verbatim>\<open>directory_file_stream.cc\<close>), epoll sets that listen to other streams
  (\<^verbatim>\<open>epoll_stream.cc\<close>), local sockets and pipes (\<^verbatim>\<open>local_socket.cc\<close>), devices and shared memory
  (\<^verbatim>\<open>dev_*.cc\<close>), memory files and the files of the read-only image (\<^verbatim>\<open>readonly_*.cc\<close>).

  \<^bold>\<open>The theories\<close>, in the order of their imports:

  \<^item> \<open>Arc_Prelude\<close>: error numbers, the outcome of a call (a value, an error number, or \<open>Fatal\<close> for an abort or a memory
    fault), ordered maps (\<^verbatim>\<open>std::map\<close>) as sorted association lists.
  \<^item> \<open>Path_Util\<close> (\<^verbatim>\<open>path_util.cc\<close>): path strings; the normaliser yields canonical absolute paths. The string
    functions of Chromium's base library are the interface \<open>base_strings\<close>.
  \<^item> \<open>Circular_Buffer\<close> (\<^verbatim>\<open>common/circular_buffer.cc\<close>): the ring buffer implements a bounded queue of bytes.
  \<^item> \<open>File_Stream\<close>, \<open>Fd_Map\<close>: reference counts, vectored calls, the descriptor table; in every reachable table the
    free list and the bindings partition the descriptors and the counts are exact (rule induction over the
    calls).
  \<^item> \<open>Mount_Points\<close> (with \<^verbatim>\<open>common/update_tracking.h\<close>), \<open>Dir_Manager\<close>: the deepest mount point serves a path; the tree of
    directories keeps its invariant; adding, removing and listing do what they say.
  \<^item> \<open>Epoll_Stream\<close>: registration, events and waiting; both directions of the listener relation stay in step.
  \<^item> \<open>Mem_Region\<close> (with \<^verbatim>\<open>address_util.cc\<close>): page arithmetic at 32 bits; the table of mapped regions
    implements a map from pages to streams, for adding, unmapping, protecting and advising.
  \<^item> \<open>Time_Util\<close>: time conversions and waiting until a time limit.
  \<^item> \<open>Vfs_State\<close>, \<open>Vfs_Fds\<close>, \<open>Vfs_Files\<close> (\<^verbatim>\<open>virtual_file_system.cc\<close>): the state with inode numbers, permissions, symbolic
    links and normalisation; every call on descriptors; every call on paths, with the cache of preopened files. Handlers and
    the virtual methods of streams are records of functions over the state, so that any of them may change it.
  \<^item> \<open>Socket_Stream\<close>, \<open>Net_Address\<close> (\<^verbatim>\<open>socket_stream.cc\<close>, \<^verbatim>\<open>socket_util.cc\<close>): options as raw memory, socket addresses as
    bytes and their conversions.
  \<^item> \<open>Local_Sockets\<close> (\<^verbatim>\<open>local_socket.cc\<close> and the two name spaces), \<open>Local_Socket_Laws\<close>, \<open>Local_Peers\<close>: every operation of
    local sockets and pipes over a table of sockets; streams lose nothing under any interleaving, packets keep
    their boundaries, passed descriptors arrive or are closed, and peers stay symmetric in every reachable state.
  \<^item> \<open>Memory_Files\<close>, \<open>Dev_Files\<close>: files held in memory, devices, and the state machine of anonymous shared memory, over an
    explicit memory of bytes with 32-bit addresses.
  \<^item> \<open>Readonly_Image\<close>, \<open>Readonly_Files\<close>: the reader of the read-only image together with the script that writes
    it, the handler and the stream with its read-ahead cache; what the build packed is what an app reads.
  \<^item> \<open>Redirect_Handler\<close> (\<^verbatim>\<open>redirect.cc\<close>): symbolic links on top of another handler.

  \<^bold>\<open>Interfaces.\<close> Code outside the repository, and code behind a virtual interface, is an argument: the base library's
  strings, the handlers, the system's \<^verbatim>\<open>mmap\<close>, clocks, the random source, Pepper's address objects. What the code relies on
  is stated as a locale (\<open>base_strings\<close>, \<open>image_stream\<close>, \<open>net_addresses\<close> and those of the single theories) that is interpreted on the
  model's own definitions or on the documented behaviour.

  \<^bold>\<open>Waiting, bounds and termination.\<close> A call that waits takes the history of its wait: the list of states it finds
  when it is woken. The theorems hold for every history, and say what a call does when its history ends. There is
  no fuel: loops are structural or have a measure, and following symbolic links, which need not end, is a
  partial function of which termination is proved to be equivalent to the finiteness of the chain. Sizes and
  addresses are 32-bit words, or integers with the conversion written out, since the program runs in a
  32-bit address space; reference counts, inode numbers and \<^verbatim>\<open>int64_t\<close> are unbounded. Assertions that only check
  (\<^verbatim>\<open>ALOG_ASSERT\<close>) are compiled out of a release build and are not modelled, unless a memory fault follows.

  \<^bold>\<open>Not modelled.\<close> Streams whose work is done by asynchronous calls of the browser (Pepper files, TCP and UDP sockets,
  host resolution, external directories) and by the graphics driver; the generated texts of \<^verbatim>\<open>/proc\<close> and
  \<^verbatim>\<open>/sys\<close>; the wrappers that log and forward system calls; process emulation beyond the user identity; tracing,
  logging and plug-in glue; floating-point arithmetic; the graphics translation; and the modified third-party code below
  \<^verbatim>\<open>src/mods/\<close> (the C library, the linker, the allocator, V8). They are either thin layers over code that is not in the
  repository or not this program's own code.
\<close>

end
